(* ===== verification/Prelude.thy ===== *)
theory Prelude
  imports Main
begin

text \<open>
  Shared vocabulary of the development: the fact collections the component theories feed and
  use, the type synonyms that name Go's basic types, Go's error values, and the list lemmas
  more than one component needs.

  A Go \<open>string\<close> or \<open>[]byte\<close> is a list of bytes (Isabelle's \<^typ>\<open>char\<close> is an 8-bit value).
  A Go \<open>int64\<close> is an \<^typ>\<open>int\<close>; the places where the width matters (parsing, SQL's
  \<open>INTEGER\<close> arithmetic) write the range check out.
\<close>

section \<open>Fact collections\<close>

named_theorems table_simps \<open>selection, update and insertion on SQL tables\<close>
named_theorems stmt_defs \<open>the SQL statements of the two stores\<close>
named_theorems frame_simps \<open>what a statement or an operation leaves alone\<close>

section \<open>Go's basic types\<close>

type_synonym bytes = string
type_synonym int64 = int
type_synonym timestamp = int

definition int32_max :: int where
  "int32_max = 2147483647"

definition int64_max :: int where
  "int64_max = 9223372036854775807"

definition int64_min :: int where
  "int64_min = - 9223372036854775808"

section \<open>Go error values\<close>

text \<open>
  The package-level error variables the code compares with \<open>errors.Is\<close>, and the library's
  ones it tests for. The two programs declare variables of the same name; they are different
  values, so the worker's carry a prefix.
\<close>

datatype sentinel =
    PgxErrNoRows
  | AmqpErrClosed
  | IoEOF
  | ContextCanceled
  | HttpErrServerClosed
  | ErrInvalidWorkItemStatus
  | ErrWorkItemDone
  | ErrProcessingAlreadyActive
  | ErrWorkItemNotFound
  | ErrProcessingJobNotFound
  | ErrNoOutboxMessage
  | ErrBrokerPublish
  | ErrRabbitMQPublishNacked
  | ErrRabbitMQPublishReturned
  | ErrRabbitMQConfirmMissing
  | ErrRabbitMQReturnChanClosed
  | WorkerErrProcessingJobNotFound
  | WorkerErrProcessingJobMismatch
  | WorkerErrWorkItemNotPending
  | WorkerErrProcessingJobConflict
  | WorkerErrDeliveryStreamClosed
  | WorkerErrDeliveryRequeued
  | AuthnErrUnavailable
  | JwtTokenExpiredError
  | JwtTokenNotYetValidError
  | JwtInvalidIssuerError
  | JwtInvalidAudienceError
  | JwsVerificationError
  | JwtValidateError

text \<open>
  A Go error: one of those variables, a fresh error (\<open>errors.New\<close> or \<open>fmt.Errorf\<close> without
  \<open>%w\<close>, or an error a library returned), an error that wraps another (\<open>fmt.Errorf\<close> with
  \<open>%w\<close>), the join of several, or one that shows a cause without wrapping it (\<open>%w: %v\<close>). The text kept is the constant part of the message.
\<close>

datatype go_error =
    Sentinel sentinel
  | Opaque string
  | Wrap string go_error
  | Joined "go_error list"
  | Annotated go_error go_error

fun errors_is :: "go_error \<Rightarrow> sentinel \<Rightarrow> bool" where
  "errors_is (Sentinel s) target = (s = target)"
| "errors_is (Opaque m) target = False"
| "errors_is (Wrap m e) target = errors_is e target"
| "errors_is (Joined es) target = (\<exists>e \<in> set es. errors_is e target)"
| "errors_is (Annotated e cause) target = errors_is e target"

text \<open>\<open>errors.Join\<close> discards nil errors and is nil when nothing is left.\<close>

definition errors_join :: "go_error option list \<Rightarrow> go_error option" where
  "errors_join es =
     (case map the (filter (\<lambda>e. e \<noteq> None) es) of
        [] \<Rightarrow> None
      | xs \<Rightarrow> Some (Joined xs))"

lemma errors_join_None [simp]: "errors_join es = None \<longleftrightarrow> (\<forall>e \<in> set es. e = None)"
proof -
  have "errors_join es = None \<longleftrightarrow> filter (\<lambda>e. e \<noteq> None) es = []"
    by (cases "filter (\<lambda>e. e \<noteq> None) es") (simp_all add: errors_join_def)
  then show ?thesis by (simp add: filter_empty_conv)
qed

lemma errors_join_pair [simp]:
  "errors_join [Some a, Some b] = Some (Joined [a, b])"
  "errors_join [Some a, None] = Some (Joined [a])"
  "errors_join [None, Some b] = Some (Joined [b])"
  "errors_join [None, None] = None"
  by (simp_all add: errors_join_def)

section \<open>Results\<close>

text \<open>
  A Go function that returns a value and an error is a sum: \<open>Inl\<close> the error, \<open>Inr\<close> the value.
\<close>

type_synonym 'a result = "go_error + 'a"

definition is_ok :: "'a result \<Rightarrow> bool" where
  "is_ok r = (case r of Inl _ \<Rightarrow> False | Inr _ \<Rightarrow> True)"

lemma is_ok_simps [simp]: "is_ok (Inr v)" "\<not> is_ok (Inl e)"
  by (simp_all add: is_ok_def)

lemma is_ok_iff: "is_ok r \<longleftrightarrow> (\<exists>v. r = Inr v)"
  by (cases r) simp_all

section \<open>Loops, delays and contexts\<close>

text \<open>
  The programs' loops run until their context is done. A run over a finite list of environment turns
  ends with the loop returned, or still waiting for its next turn. A wait ends because the context
  is done or because the delay elapsed. Durations are \<open>time.Duration\<close> values, in nanoseconds.
\<close>

datatype loop_outcome = Waiting | Returned "go_error option"

datatype wait_event = ContextDone | DelayElapsed

type_synonym duration = int

definition Second :: duration where
  "Second = 1000000000"

section \<open>Trimming a list\<close>

definition trim :: "('a \<Rightarrow> bool) \<Rightarrow> 'a list \<Rightarrow> 'a list" where
  "trim P xs = rev (dropWhile P (rev (dropWhile P xs)))"

lemma trim_decomp: "\<exists>as bs. xs = as @ trim P xs @ bs"
proof -
  let ?m = "dropWhile P xs"
  have "?m = rev (takeWhile P (rev ?m) @ dropWhile P (rev ?m))" by simp
  then have "?m = trim P xs @ rev (takeWhile P (rev ?m))"
    by (simp only: rev_append trim_def)
  moreover have "xs = takeWhile P xs @ ?m" by simp
  ultimately show ?thesis by metis
qed

lemma trim_ends:
  assumes "trim P xs \<noteq> []"
  shows "\<not> P (hd (trim P xs))" and "\<not> P (last (trim P xs))"
proof -
  let ?m = "dropWhile P xs"
  have ne: "dropWhile P (rev ?m) \<noteq> []" using assms by (simp add: trim_def)
  then show "\<not> P (last (trim P xs))"
    by (simp only: trim_def last_rev hd_dropWhile not_False_eq_True)
  have "?m = rev (takeWhile P (rev ?m) @ dropWhile P (rev ?m))" by simp
  then have m: "?m = trim P xs @ rev (takeWhile P (rev ?m))" by (simp only: rev_append trim_def)
  then have "hd ?m = hd (trim P xs @ rev (takeWhile P (rev ?m)))" by (rule arg_cong)
  also have "\<dots> = hd (trim P xs)" using assms by (rule hd_append2)
  finally have "hd (trim P xs) = hd ?m" ..
  moreover have m_ne: "?m \<noteq> []" using ne by (cases ?m) simp_all
  ultimately show "\<not> P (hd (trim P xs))" using hd_dropWhile [of P xs] by simp
qed

lemma trim_id: "xs = [] \<or> \<not> P (hd xs) \<and> \<not> P (last xs) \<Longrightarrow> trim P xs = xs"
proof -
  assume ends: "xs = [] \<or> \<not> P (hd xs) \<and> \<not> P (last xs)"
  then have "dropWhile P xs = xs" and "dropWhile P (rev xs) = rev xs"
    by (auto simp: dropWhile_eq_self_iff hd_rev)
  then show ?thesis by (simp add: trim_def)
qed

lemma trim_idem [simp]: "trim P (trim P xs) = trim P xs"
proof (rule trim_id, cases "trim P xs = []")
  case False
  with trim_ends [OF False] show "trim P xs = [] \<or> \<not> P (hd (trim P xs)) \<and> \<not> P (last (trim P xs))"
    by blast
qed blast

lemma trim_eq_Nil: "trim P xs = [] \<longleftrightarrow> (\<forall>x \<in> set xs. P x)"
proof
  assume "trim P xs = []"
  then have "\<forall>x \<in> set (dropWhile P xs). P x" by (simp add: trim_def dropWhile_eq_Nil_conv)
  then have "dropWhile P xs = []" by (metis hd_dropWhile hd_in_set)
  then show "\<forall>x \<in> set xs. P x" by (simp add: dropWhile_eq_Nil_conv)
next
  assume "\<forall>x \<in> set xs. P x"
  then have "dropWhile P xs = []" by (simp add: dropWhile_eq_Nil_conv)
  then show "trim P xs = []" by (simp only: trim_def rev.simps dropWhile.simps)
qed

end
