(* ===== verification/Tables.thy ===== *)
theory Tables
  imports Prelude
begin

text \<open>
  SQL tables as lists of rows, and the four kinds of statement the program sends: select by a
  condition, insert, update by a condition, and the count of rows an update affected.
\<close>

section \<open>Statements on one table\<close>

definition select_where :: "('r \<Rightarrow> bool) \<Rightarrow> 'r list \<Rightarrow> 'r list" where
  "select_where P t = filter P t"

definition insert_row :: "'r \<Rightarrow> 'r list \<Rightarrow> 'r list" where
  "insert_row r t = t @ [r]"

definition update_where :: "('r \<Rightarrow> bool) \<Rightarrow> ('r \<Rightarrow> 'r) \<Rightarrow> 'r list \<Rightarrow> 'r list" where
  "update_where P f t = map (\<lambda>r. if P r then f r else r) t"

definition rows_affected :: "('r \<Rightarrow> bool) \<Rightarrow> 'r list \<Rightarrow> nat" where
  "rows_affected P t = length (filter P t)"

text \<open>
  \<open>pgx.Row.Scan\<close> reads the first row of a result and reports \<open>pgx.ErrNoRows\<close> for an empty one.
\<close>

definition query_row :: "'r list \<Rightarrow> 'r result" where
  "query_row rs = (case rs of [] \<Rightarrow> Inl (Sentinel PgxErrNoRows) | r # _ \<Rightarrow> Inr r)"

section \<open>Rows by key\<close>

text \<open>The row with a key, the first if the key is not unique.\<close>

definition row_at :: "('r \<Rightarrow> 'k) \<Rightarrow> 'r list \<Rightarrow> 'k \<Rightarrow> 'r option" where
  "row_at key t k = find (\<lambda>r. key r = k) t"

definition unique_key :: "('r \<Rightarrow> 'k) \<Rightarrow> 'r list \<Rightarrow> bool" where
  "unique_key key t = distinct (map key t)"

lemma row_at_Some_in [table_simps]: "row_at key t k = Some r \<Longrightarrow> r \<in> set t \<and> key r = k"
  by (induction t) (auto simp: row_at_def split: if_splits)

lemma row_at_None_iff [table_simps]: "row_at key t k = None \<longleftrightarrow> k \<notin> key ` set t"
  by (induction t) (auto simp: row_at_def)

lemma row_at_unique: "unique_key key t \<Longrightarrow> r \<in> set t \<Longrightarrow> row_at key t (key r) = Some r"
  by (induction t) (auto simp: row_at_def unique_key_def)

lemma row_at_iff: "unique_key key t \<Longrightarrow> row_at key t k = Some r \<longleftrightarrow> r \<in> set t \<and> key r = k"
  using row_at_unique row_at_Some_in by metis

lemma unique_key_eq: "unique_key key t \<Longrightarrow> r \<in> set t \<Longrightarrow> r' \<in> set t \<Longrightarrow> key r = key r' \<Longrightarrow> r = r'"
  using row_at_unique by (metis option.inject)

lemma row_at_insert [table_simps]:
  "row_at key (insert_row r t) k =
     (case row_at key t k of Some r' \<Rightarrow> Some r' | None \<Rightarrow> if key r = k then Some r else None)"
  by (induction t) (auto simp: row_at_def insert_row_def)

lemma set_insert_row [simp]: "set (insert_row r t) = insert r (set t)"
  by (auto simp: insert_row_def)

lemma list_all_insert_row [simp]: "list_all Q (insert_row r t) \<longleftrightarrow> list_all Q t \<and> Q r"
  by (auto simp: insert_row_def)

lemma unique_key_insert [simp]:
  "unique_key key (insert_row r t) \<longleftrightarrow> unique_key key t \<and> key r \<notin> key ` set t"
  by (auto simp: unique_key_def insert_row_def)

lemma set_update_where: "set (update_where P f t) = (\<lambda>r. if P r then f r else r) ` set t"
  by (simp add: update_where_def)

lemma in_update_where: "r \<in> set t \<Longrightarrow> (if P r then f r else r) \<in> set (update_where P f t)"
  by (simp add: set_update_where)

lemma list_all_update_where:
  "list_all Q t \<Longrightarrow> (\<And>r. P r \<Longrightarrow> Q r \<Longrightarrow> Q (f r)) \<Longrightarrow> list_all Q (update_where P f t)"
  by (auto simp: list_all_iff set_update_where)

lemma update_where_image: "(\<And>r. g (f r) = g r) \<Longrightarrow> g ` set (update_where P f t) = g ` set t"
proof -
  assume "\<And>r. g (f r) = g r"
  then have "map g (update_where P f t) = map g t" by (simp add: update_where_def)
  then show ?thesis by (metis list.set_map)
qed

lemma update_where_none: "\<forall>r \<in> set t. \<not> P r \<Longrightarrow> update_where P f t = t"
  by (simp add: update_where_def map_idI)

lemma query_row_select:
  "query_row (select_where P t) = (case find P t of None \<Rightarrow> Inl (Sentinel PgxErrNoRows) | Some r \<Rightarrow> Inr r)"
  by (induction t) (auto simp: query_row_def select_where_def)

lemma query_row_by_key [table_simps]:
  "query_row (select_where (\<lambda>r. key r = k) t) =
     (case row_at key t k of None \<Rightarrow> Inl (Sentinel PgxErrNoRows) | Some r \<Rightarrow> Inr r)"
  by (simp add: query_row_select row_at_def)

text \<open>On a table with a unique key, a condition on the key and the row selects at most one row.\<close>

lemma filter_unique_key:
  assumes "unique_key key t"
  shows "filter (\<lambda>r. key r = k \<and> Q r) t =
     (case row_at key t k of Some r \<Rightarrow> if Q r then [r] else [] | None \<Rightarrow> [])"
  using assms
proof (induction t)
  case Nil
  then show ?case by (simp add: row_at_def)
next
  case (Cons a t)
  show ?case
  proof (cases "key a = k")
    case True
    with Cons.prems have "filter (\<lambda>r. key r = k \<and> Q r) t = []"
      by (auto simp: unique_key_def filter_empty_conv) (metis image_eqI)
    with True show ?thesis by (simp add: row_at_def)
  next
    case False
    with Cons show ?thesis by (simp add: row_at_def unique_key_def)
  qed
qed

section \<open>Updates that keep the key\<close>

text \<open>
  What the program relies on in an \<open>UPDATE\<close>: the assignments leave the primary key alone. Then the
  table keeps its keys, every other row is found unchanged, and the rows found by key are the old
  ones with the assignments applied where the condition held.
\<close>

locale keyed_update =
  fixes key :: "'r \<Rightarrow> 'k" and f :: "'r \<Rightarrow> 'r"
  assumes key_kept: "key (f r) = key r"
begin

lemma keys_kept: "map key (update_where P f t) = map key t"
  by (simp add: update_where_def key_kept)

lemma unique_kept: "unique_key key (update_where P f t) = unique_key key t"
  by (simp add: unique_key_def keys_kept)

lemma row_at_update:
  "row_at key (update_where P f t) k = map_option (\<lambda>r. if P r then f r else r) (row_at key t k)"
  by (induction t) (auto simp: row_at_def update_where_def key_kept)

lemma key_image: "key ` set (update_where P f t) = key ` set t"
  by (metis keys_kept list.set_map)

lemma row_at_other: "\<forall>r \<in> set t. P r \<longrightarrow> key r \<noteq> k \<Longrightarrow> row_at key (update_where P f t) k = row_at key t k"
  using row_at_Some_in [of key t k]
  by (cases "row_at key t k") (auto simp: row_at_update)

end

end
