(* ===== verification/JsonValue.thy ===== *)
theory JsonValue
  imports Main
begin

text \<open>
  JSON values as \<open>encoding/json\<close> decodes them: a number keeps its literal, an object keeps its
  members in the order of the text, duplicates included. A Go \<open>map[string]any\<close> decoded from an
  object holds the last member of each name, which is what \<open>obj_get\<close> reads.
\<close>

datatype json =
    JNull
  | JBool bool
  | JNum string
  | JStr string
  | JArr "json list"
  | JObj "(string \<times> json) list"

definition obj_get :: "(string \<times> json) list \<Rightarrow> string \<Rightarrow> json option" where
  "obj_get kvs k = map_of (rev kvs) k"

lemma obj_get_simps [simp]:
  "obj_get [] k = None"
  "obj_get [(k', v)] k = (if k = k' then Some v else None)"
  by (simp_all add: obj_get_def)

lemma obj_get_append: "obj_get (xs @ [(k', v)]) k = (if k = k' then Some v else obj_get xs k)"
  by (simp add: obj_get_def)

lemma obj_get_distinct:
  assumes "distinct (map fst kvs)"
  shows "obj_get kvs k = map_of kvs k"
proof (cases "map_of kvs k")
  case None
  then have "k \<notin> fst ` set (rev kvs)" by (simp add: map_of_eq_None_iff)
  then have "map_of (rev kvs) k = None" by (rule map_of_eq_None_iff [THEN iffD2])
  with None show ?thesis by (simp add: obj_get_def)
next
  case (Some v)
  then have "(k, v) \<in> set (rev kvs)" by (simp add: map_of_SomeD)
  with assms show ?thesis
    by (simp add: Some obj_get_def map_of_is_SomeI rev_map [symmetric])
qed

end
