(* ===== verification/GoStrings.thy ===== *)
theory GoStrings
  imports Prelude
begin

text \<open>
  The parts of Go's \<open>unicode/utf8\<close>, \<open>unicode\<close>, \<open>strings\<close> and \<open>strconv\<close> packages the program
  calls, on byte strings: decoding runes, counting them, splitting at and trimming white space,
  cutting and splitting at a byte, and parsing and printing decimal integers.
\<close>

section \<open>UTF-8\<close>

definition byte :: "char \<Rightarrow> nat" where
  "byte c = of_char c"

definition rune_error :: nat where
  "rune_error = 65533"

text \<open>
  What a lead byte of 128 or more announces: the size of the encoding and the range of its second
  byte (narrower than a continuation byte's where overlong forms, surrogates or values beyond
  U+10FFFF would be encoded). \<open>None\<close> is no lead byte.
\<close>

definition lead_info :: "nat \<Rightarrow> (nat \<times> nat \<times> nat) option" where
  "lead_info b =
     (if b < 194 then None
      else if b \<le> 223 then Some (2, 128, 191)
      else if b = 224 then Some (3, 160, 191)
      else if b \<le> 236 then Some (3, 128, 191)
      else if b = 237 then Some (3, 128, 159)
      else if b \<le> 239 then Some (3, 128, 191)
      else if b = 240 then Some (4, 144, 191)
      else if b \<le> 243 then Some (4, 128, 191)
      else if b = 244 then Some (4, 128, 143)
      else None)"

definition cont :: "char \<Rightarrow> bool" where
  "cont c = (128 \<le> byte c \<and> byte c \<le> 191)"

text \<open>The bytes after a lead byte: enough of them, the second in its range, the rest continuation bytes.\<close>

definition tail_ok :: "nat \<Rightarrow> nat \<Rightarrow> nat \<Rightarrow> bytes \<Rightarrow> bool" where
  "tail_ok k lo hi cs =
     (k \<le> length cs \<and> lo \<le> byte (cs ! 0) \<and> byte (cs ! 0) \<le> hi
      \<and> list_all cont (take (k - 1) (drop 1 cs)))"

definition rune_value :: "char \<Rightarrow> bytes \<Rightarrow> nat" where
  "rune_value c0 tail =
     foldl (\<lambda>v c. v * 64 + byte c mod 64) (byte c0 mod 2 ^ (6 - length tail)) tail"

text \<open>
  \<open>utf8.DecodeRuneInString\<close>: the first rune and its width in bytes; an invalid or short encoding
  is \<open>RuneError\<close> of width 1, the empty string \<open>RuneError\<close> of width 0.
\<close>

fun decode_rune :: "bytes \<Rightarrow> nat \<times> nat" where
  "decode_rune [] = (rune_error, 0)"
| "decode_rune (c0 # cs) =
     (if byte c0 < 128 then (byte c0, 1)
      else case lead_info (byte c0) of
        None \<Rightarrow> (rune_error, 1)
      | Some (sz, lo, hi) \<Rightarrow>
          (if tail_ok (sz - 1) lo hi cs then (rune_value c0 (take (sz - 1) cs), sz)
           else (rune_error, 1)))"

lemma lead_info_size: "lead_info b = Some (sz, lo, hi) \<Longrightarrow> 2 \<le> sz \<and> sz \<le> 4"
  by (auto simp: lead_info_def split: if_splits)

lemma decode_rune_width:
  "s \<noteq> [] \<Longrightarrow> 1 \<le> snd (decode_rune s) \<and> snd (decode_rune s) \<le> 4 \<and> snd (decode_rune s) \<le> length s"
  by (cases s) (auto simp: tail_ok_def dest: lead_info_size split: option.split)

lemma tail_ok_append:
  "1 \<le> k \<Longrightarrow> k \<le> length cs \<Longrightarrow> tail_ok k lo hi (cs @ t) = tail_ok k lo hi cs"
  by (cases cs) (auto simp: tail_ok_def)

lemma decode_rune_prefix:
  assumes "p \<noteq> []" and "snd (decode_rune (p @ t)) \<le> length p"
  shows "decode_rune p = decode_rune (p @ t)"
proof -
  obtain c0 cs where p: "p = c0 # cs" using assms(1) by (cases p) auto
  show ?thesis
  proof (cases "lead_info (byte c0)")
    case None
    then show ?thesis by (simp add: p)
  next
    case (Some l)
    then obtain sz lo hi where l: "lead_info (byte c0) = Some (sz, lo, hi)" by (cases l) auto
    note sz = lead_info_size [OF l]
    show ?thesis
    proof (cases "sz - 1 \<le> length cs")
      case True
      then have "tail_ok (sz - 1) lo hi (cs @ t) = tail_ok (sz - 1) lo hi cs"
        using sz by (intro tail_ok_append) auto
      with True l show ?thesis by (simp add: p)
    next
      case False
      then have "\<not> tail_ok (sz - 1) lo hi cs" by (simp add: tail_ok_def)
      with False sz l assms(2) show ?thesis by (auto simp: p split: if_splits)
    qed
  qed
qed

text \<open>The runes of a string, each with the bytes it was decoded from: what \<open>range s\<close> visits.\<close>

function runes :: "bytes \<Rightarrow> (nat \<times> bytes) list" where
  "runes s =
     (if s = [] then []
      else (fst (decode_rune s), take (snd (decode_rune s)) s) # runes (drop (snd (decode_rune s)) s))"
  by pat_completeness auto
termination
  by (relation "measure length") (use decode_rune_width in \<open>force\<close>)+

declare runes.simps [simp del]

lemma runes_Nil [simp]: "runes [] = []"
  by (simp add: runes.simps)

lemma runes_ne:
  "s \<noteq> [] \<Longrightarrow>
     runes s = (fst (decode_rune s), take (snd (decode_rune s)) s) # runes (drop (snd (decode_rune s)) s)"
  by (subst runes.simps) simp

lemma runes_eq_Nil [simp]: "runes s = [] \<longleftrightarrow> s = []"
  by (cases "s = []") (simp_all add: runes_ne)

lemma runes_ascii [simp]: "byte c < 128 \<Longrightarrow> runes (c # s) = (byte c, [c]) # runes s"
  by (simp add: runes_ne)

lemma concat_runes [simp]: "concat (map snd (runes s)) = s"
proof (induction s rule: runes.induct)
  case (1 s)
  then show ?case by (cases "s = []") (simp_all add: runes_ne)
qed

lemma runes_bytes: "(r, b) \<in> set (runes s) \<Longrightarrow> b \<noteq> [] \<and> length b \<le> 4"
proof (induction s rule: runes.induct)
  case (1 s)
  show ?case
  proof (cases "s = []")
    case True
    with "1.prems" show ?thesis by simp
  next
    case False
    with 1 decode_rune_width [OF False] show ?thesis by (auto simp: runes_ne)
  qed
qed

text \<open>A prefix that ends where a rune ends decodes to the runes it holds.\<close>

lemma runes_prefix: "runes s = xs @ ys \<Longrightarrow> runes (concat (map snd xs)) = xs"
proof (induction xs arbitrary: s)
  case Nil
  then show ?case by simp
next
  case (Cons x xs)
  let ?n = "snd (decode_rune s)"
  have ne: "s \<noteq> []" using Cons.prems by auto
  note w = decode_rune_width [OF ne]
  have x: "x = (fst (decode_rune s), take ?n s)" and rest: "runes (drop ?n s) = xs @ ys"
    using Cons.prems by (simp_all add: runes_ne [OF ne])
  let ?p = "take ?n s @ concat (map snd xs)"
  have "drop ?n s = concat (map snd (xs @ ys))" by (metis concat_runes rest)
  then have "s = ?p @ concat (map snd ys)" by (metis append.assoc append_take_drop_id concat_append map_append)
  moreover have "?p \<noteq> []" and "?n \<le> length ?p" using ne w by auto
  ultimately have "decode_rune ?p = decode_rune s" using decode_rune_prefix by metis
  moreover have "take ?n ?p = take ?n s" and "drop ?n ?p = concat (map snd xs)" using w by auto
  ultimately have "runes ?p = (fst (decode_rune s), take ?n s) # runes (concat (map snd xs))"
    using runes_ne [OF \<open>?p \<noteq> []\<close>] by simp
  with Cons.IH [OF rest] show ?case by (simp add: x)
qed

text \<open>So does a suffix that starts where a rune starts.\<close>

lemma runes_suffix: "runes s = xs @ ys \<Longrightarrow> runes (concat (map snd ys)) = ys"
proof (induction xs arbitrary: s)
  case Nil
  then show ?case by (metis append_Nil concat_runes)
next
  case (Cons x xs)
  have ne: "s \<noteq> []" using Cons.prems by auto
  have "runes (drop (snd (decode_rune s)) s) = xs @ ys"
    using Cons.prems by (simp add: runes_ne [OF ne])
  then show ?case by (rule Cons.IH)
qed

text \<open>\<open>utf8.RuneCountInString\<close>.\<close>

definition rune_count :: "bytes \<Rightarrow> nat" where
  "rune_count s = length (runes s)"

lemma rune_count_le_length: "rune_count s \<le> length s"
  unfolding rune_count_def
proof (induction s rule: runes.induct)
  case (1 s)
  show ?case
  proof (cases "s = []")
    case False
    with 1 decode_rune_width [OF False] show ?thesis by (auto simp: runes_ne)
  qed simp
qed

lemma length_le_4_rune_count: "length s \<le> 4 * rune_count s"
  unfolding rune_count_def
proof (induction s rule: runes.induct)
  case (1 s)
  show ?case
  proof (cases "s = []")
    case False
    with 1 decode_rune_width [OF False] show ?thesis by (auto simp: runes_ne)
  qed simp
qed

lemma rune_count_ascii: "(\<And>c. c \<in> set s \<Longrightarrow> byte c < 128) \<Longrightarrow> rune_count s = length s"
  by (induction s) (auto simp: rune_count_def)

section \<open>White space\<close>

text \<open>\<open>unicode.IsSpace\<close>: the white-space property of Unicode.\<close>

definition is_space :: "nat \<Rightarrow> bool" where
  "is_space r =
     (9 \<le> r \<and> r \<le> 13 \<or> r = 32 \<or> r = 133 \<or> r = 160 \<or> r = 5760 \<or> 8192 \<le> r \<and> r \<le> 8202
      \<or> r = 8232 \<or> r = 8233 \<or> r = 8239 \<or> r = 8287 \<or> r = 12288)"

text \<open>
  \<open>strings.Fields\<close>: the loop over the runes with the bytes of the word begun so far, if any.
\<close>

fun fields_runes :: "(nat \<times> bytes) list \<Rightarrow> bytes option \<Rightarrow> bytes list" where
  "fields_runes [] None = []"
| "fields_runes [] (Some w) = [w]"
| "fields_runes ((r, b) # rs) None =
     (if is_space r then fields_runes rs None else fields_runes rs (Some b))"
| "fields_runes ((r, b) # rs) (Some w) =
     (if is_space r then w # fields_runes rs None else fields_runes rs (Some (w @ b)))"

definition strings_fields :: "bytes \<Rightarrow> bytes list" where
  "strings_fields s = fields_runes (runes s) None"

text \<open>\<open>strings.TrimSpace\<close>.\<close>

abbreviation space_rune :: "nat \<times> bytes \<Rightarrow> bool" where
  "space_rune x \<equiv> is_space (fst x)"

definition trim_space :: "bytes \<Rightarrow> bytes" where
  "trim_space s = concat (map snd (trim space_rune (runes s)))"

lemma fields_runes_concat:
  "concat (fields_runes rs acc) =
     (case acc of None \<Rightarrow> [] | Some w \<Rightarrow> w) @ concat (map snd (filter (\<lambda>x. \<not> space_rune x) rs))"
  by (induction rs acc rule: fields_runes.induct) auto

lemma fields_runes_nonempty:
  "\<forall>x \<in> set rs. snd x \<noteq> [] \<Longrightarrow> acc \<noteq> Some [] \<Longrightarrow> w \<in> set (fields_runes rs acc) \<Longrightarrow> w \<noteq> []"
  by (induction rs acc rule: fields_runes.induct) (auto split: if_splits)

lemma fields_runes_count:
  "2 * length (fields_runes rs acc) \<le> length rs + (if acc = None then 1 else 2)"
  by (induction rs acc rule: fields_runes.induct) auto

lemma fields_nonempty: "w \<in> set (strings_fields s) \<Longrightarrow> w \<noteq> []"
  unfolding strings_fields_def by (rule fields_runes_nonempty) (auto dest: runes_bytes)

lemma fields_count: "2 * length (strings_fields s) \<le> rune_count s + 1"
  using fields_runes_count [of "runes s" None] by (simp add: strings_fields_def rune_count_def)

lemma fields_runes_eq_Nil:
  "fields_runes rs acc = [] \<longleftrightarrow> acc = None \<and> (\<forall>x \<in> set rs. space_rune x)"
  by (induction rs acc rule: fields_runes.induct) auto

lemma fields_eq_Nil: "strings_fields s = [] \<longleftrightarrow> (\<forall>x \<in> set (runes s). space_rune x)"
  by (simp add: strings_fields_def fields_runes_eq_Nil)

text \<open>Trimming keeps a middle part of the runes, whose ends are no white space.\<close>

lemma runes_trim_space: "runes (trim_space s) = trim space_rune (runes s)"
proof -
  obtain as bs where s: "runes s = as @ trim space_rune (runes s) @ bs"
    using trim_decomp by blast
  then have "runes (concat (map snd (trim space_rune (runes s) @ bs))) = trim space_rune (runes s) @ bs"
    by (rule runes_suffix)
  then show ?thesis unfolding trim_space_def by (rule runes_prefix)
qed

lemma trim_space_idem [simp]: "trim_space (trim_space s) = trim_space s"
proof -
  have "trim_space (trim_space s) = concat (map snd (trim space_rune (runes (trim_space s))))"
    by (simp only: trim_space_def)
  then show ?thesis by (simp add: runes_trim_space) (simp add: trim_space_def)
qed

lemma trim_space_ends:
  assumes "trim_space s \<noteq> []"
  shows "\<not> space_rune (hd (runes (trim_space s)))" and "\<not> space_rune (last (runes (trim_space s)))"
  using assms trim_ends [of space_rune "runes s"] by (simp_all flip: runes_trim_space)

lemma trim_space_eq_Nil: "trim_space s = [] \<longleftrightarrow> strings_fields s = []"
proof -
  have "trim_space s = [] \<longleftrightarrow> runes (trim_space s) = []" by simp
  then show ?thesis by (simp only: runes_trim_space trim_eq_Nil fields_eq_Nil)
qed

section \<open>Cutting, splitting, folding case\<close>

text \<open>\<open>strings.Cut\<close> at a one-byte separator: before, after, found.\<close>

definition cut :: "char \<Rightarrow> bytes \<Rightarrow> bytes \<times> bytes \<times> bool" where
  "cut sep s =
     (if sep \<in> set s then (takeWhile (\<lambda>c. c \<noteq> sep) s, tl (dropWhile (\<lambda>c. c \<noteq> sep) s), True)
      else (s, [], False))"

text \<open>\<open>strings.Split\<close> at a one-byte separator.\<close>

fun split_at :: "char \<Rightarrow> bytes \<Rightarrow> bytes list" where
  "split_at sep [] = [[]]"
| "split_at sep (c # cs) =
     (if c = sep then [] # split_at sep cs
      else case split_at sep cs of [] \<Rightarrow> [[c]] | w # ws \<Rightarrow> (c # w) # ws)"

text \<open>\<open>strings.TrimRight\<close> with a cut set of ASCII bytes.\<close>

definition trim_right :: "char set \<Rightarrow> bytes \<Rightarrow> bytes" where
  "trim_right cutset s = rev (dropWhile (\<lambda>c. c \<in> cutset) (rev s))"

definition ascii_upper :: "char \<Rightarrow> char" where
  "ascii_upper c = (if 97 \<le> byte c \<and> byte c \<le> 122 then char_of (byte c - 32) else c)"

text \<open>
  \<open>strings.EqualFold\<close> against an ASCII string without k and s: these are the only ASCII letters
  that fold together with runes beyond ASCII (the Kelvin sign and the long s), so folding ASCII
  letters decides it.
\<close>

definition equal_fold :: "bytes \<Rightarrow> bytes \<Rightarrow> bool" where
  "equal_fold s t = (map ascii_upper s = map ascii_upper t)"

lemma cut_found: "cut sep s = (a, b, True) \<Longrightarrow> s = a @ sep # b \<and> sep \<notin> set a"
proof -
  assume c: "cut sep s = (a, b, True)"
  then have "sep \<in> set s" and a: "a = takeWhile (\<lambda>c. c \<noteq> sep) s"
    and b: "b = tl (dropWhile (\<lambda>c. c \<noteq> sep) s)"
    by (auto simp: cut_def split: if_splits)
  then obtain xs ys where s: "s = xs @ sep # ys" "sep \<notin> set xs" by (metis split_list_first)
  then have "a = xs" and "b = ys" using a b by (auto simp: takeWhile_append dropWhile_append)
  with s show ?thesis by simp
qed

lemma cut_append [simp]: "sep \<notin> set a \<Longrightarrow> cut sep (a @ sep # b) = (a, b, True)"
  by (auto simp: cut_def takeWhile_append dropWhile_append)

lemma split_at_nonempty [simp]: "split_at sep s \<noteq> []"
  by (cases s) (auto split: list.split)

section \<open>Decimal integers\<close>

definition digit_value :: "char \<Rightarrow> nat option" where
  "digit_value c = (if 48 \<le> byte c \<and> byte c \<le> 57 then Some (byte c - 48) else None)"

fun digits_value :: "nat \<Rightarrow> bytes \<Rightarrow> nat option" where
  "digits_value n [] = Some n"
| "digits_value n (c # cs) =
     (case digit_value c of None \<Rightarrow> None | Some d \<Rightarrow> digits_value (10 * n + d) cs)"

text \<open>
  \<open>strconv.ParseInt(s, 10, 64)\<close>: an optional sign, then digits, the value within \<open>int64\<close>. \<open>None\<close>
  is either of its errors (syntax, range).
\<close>

definition in_int64 :: "int \<Rightarrow> bool" where
  "in_int64 v = (int64_min \<le> v \<and> v \<le> int64_max)"

definition parse_unsigned :: "bytes \<Rightarrow> nat option" where
  "parse_unsigned s = (if s = [] then None else digits_value 0 s)"

definition parse_signed :: "bytes \<Rightarrow> int option" where
  "parse_signed s =
     (case s of
        [] \<Rightarrow> None
      | c # ds \<Rightarrow>
          (if c = CHR ''+'' then map_option int (parse_unsigned ds)
           else if c = CHR ''-'' then map_option (\<lambda>n. - int n) (parse_unsigned ds)
           else map_option int (parse_unsigned s)))"

definition parse_int64 :: "bytes \<Rightarrow> int64 option" where
  "parse_int64 s =
     (case parse_signed s of
        None \<Rightarrow> None
      | Some v \<Rightarrow> if in_int64 v then Some v else None)"

text \<open>\<open>strconv.FormatInt(v, 10)\<close>.\<close>

definition digit_char :: "nat \<Rightarrow> char" where
  "digit_char d = char_of (48 + d)"

fun format_nat :: "nat \<Rightarrow> bytes" where
  "format_nat n = (if n < 10 then [digit_char n] else format_nat (n div 10) @ [digit_char (n mod 10)])"

declare format_nat.simps [simp del]

definition format_int :: "int \<Rightarrow> bytes" where
  "format_int v = (if v < 0 then CHR ''-'' # format_nat (nat (- v)) else format_nat (nat v))"

lemma byte_digit_char: "d < 10 \<Longrightarrow> byte (digit_char d) = 48 + d"
  by (simp add: byte_def digit_char_def)

lemma digit_value_digit_char [simp]: "d < 10 \<Longrightarrow> digit_value (digit_char d) = Some d"
  by (simp add: digit_value_def byte_digit_char)

lemma digits_value_append:
  "digits_value n (xs @ ys) = (case digits_value n xs of None \<Rightarrow> None | Some m \<Rightarrow> digits_value m ys)"
  by (induction xs arbitrary: n) (auto split: option.split)

lemma digits_value_format_nat: "digits_value 0 (format_nat n) = Some n"
proof (induction n rule: format_nat.induct)
  case (1 n)
  then show ?case
    by (cases "n < 10") (simp_all add: format_nat.simps [of n] digits_value_append)
qed

lemma format_nat_nonempty [simp]: "format_nat n \<noteq> []"
  by (subst format_nat.simps) simp

lemma format_nat_digits: "c \<in> set (format_nat n) \<Longrightarrow> 48 \<le> byte c \<and> byte c \<le> 57"
proof (induction n rule: format_nat.induct)
  case (1 n)
  then show ?case
    by (cases "n < 10") (auto simp: format_nat.simps [of n] byte_digit_char)
qed

lemma parse_unsigned_format_nat [simp]: "parse_unsigned (format_nat n) = Some n"
  by (simp add: parse_unsigned_def digits_value_format_nat)

lemma parse_signed_format_int [simp]: "parse_signed (format_int v) = Some v"
proof (cases "v < 0")
  case True
  then show ?thesis by (simp add: parse_signed_def format_int_def)
next
  case False
  obtain c cs where f: "format_nat (nat v) = c # cs"
    by (meson format_nat_nonempty neq_Nil_conv)
  then have "48 \<le> byte c" using format_nat_digits [of c "nat v"] by simp
  then have "c \<noteq> CHR ''+''" and "c \<noteq> CHR ''-''" by (auto simp: byte_def)
  moreover have "parse_unsigned (c # cs) = Some (nat v)" by (simp flip: f)
  ultimately show ?thesis using False by (simp add: parse_signed_def format_int_def f)
qed

lemma parse_int64_format_int: "in_int64 v \<Longrightarrow> parse_int64 (format_int v) = Some v"
  by (simp add: parse_int64_def)

lemma parse_int64_range: "parse_int64 s = Some v \<Longrightarrow> in_int64 v"
  by (auto simp: parse_int64_def split: option.splits if_splits)

end
