(* ===== verification/Database.thy ===== *)
theory Database
  imports Tables JsonValue GoStrings
begin

text \<open>
  The four tables of \<open>apps/work-items/migrations\<close> and the constraints the migrations declare on
  them, and the business states of \<open>internal/workitems/model.go\<close>.
\<close>

section \<open>Business states\<close>

definition Pending :: string where "Pending = ''pending''"
definition Done :: string where "Done = ''done''"

lemma Pending_neq_Done [simp]: "Pending \<noteq> Done" "Done \<noteq> Pending"
  by (simp_all add: Pending_def Done_def)

text \<open>The execution states of a processing job, spelled in the SQL and in the worker's switches.\<close>

definition Accepted :: string where "Accepted = ''accepted''"
definition Succeeded :: string where "Succeeded = ''succeeded''"
definition Failed :: string where "Failed = ''failed''"

lemma job_states_distinct [simp]:
  "Accepted \<noteq> Succeeded" "Succeeded \<noteq> Accepted" "Accepted \<noteq> Failed" "Failed \<noteq> Accepted"
  "Succeeded \<noteq> Failed" "Failed \<noteq> Succeeded"
  by (simp_all add: Accepted_def Succeeded_def Failed_def)

section \<open>Rows\<close>

record work_item_row =
  wi_id :: int64
  wi_title :: string
  wi_status :: string
  wi_created_at :: timestamp

record processing_job_row =
  pj_id :: int64
  pj_work_item_id :: int64
  pj_state :: string
  pj_attempt_count :: int
  pj_last_error_code :: "string option"
  pj_created_at :: timestamp
  pj_finished_at :: "timestamp option"

record outbox_row =
  ob_id :: int64
  ob_processing_job_id :: int64
  ob_event_type :: string
  ob_payload :: json
  ob_publish_attempts :: int
  ob_last_error_code :: "string option"
  ob_created_at :: timestamp
  ob_published_at :: "timestamp option"

record result_row =
  wr_work_item_id :: int64
  wr_processing_job_id :: int64
  wr_input_title :: string
  wr_analysis_version :: int
  wr_character_count :: int
  wr_word_count :: int

record database =
  work_items :: "work_item_row list"
  processing_jobs :: "processing_job_row list"
  outbox_messages :: "outbox_row list"
  work_item_results :: "result_row list"

text \<open>The identity columns' sequences: the last value each has handed out.\<close>

record sequences =
  seq_work_items :: int64
  seq_processing_jobs :: int64
  seq_outbox_messages :: int64

section \<open>Constraints\<close>

text \<open>A value of type \<open>INTEGER\<close>, and of type \<open>TEXT\<close> (no zero byte, less than one gigabyte).\<close>

definition in_int32 :: "int \<Rightarrow> bool" where
  "in_int32 v = (- int32_max - 1 \<le> v \<and> v \<le> int32_max)"

definition pg_text :: "string \<Rightarrow> bool" where
  "pg_text s = (CHR 0x00 \<notin> set s \<and> length s < 1073741824)"

definition work_item_row_ok :: "work_item_row \<Rightarrow> bool" where
  "work_item_row_ok r = (pg_text (wi_title r) \<and> (wi_status r = Pending \<or> wi_status r = Done))"

definition work_items_ok :: "work_item_row list \<Rightarrow> bool" where
  "work_items_ok t = (unique_key wi_id t \<and> list_all work_item_row_ok t)"

text \<open>The check constraints of \<open>processing_jobs\<close>.\<close>

definition job_row_ok :: "processing_job_row \<Rightarrow> bool" where
  "job_row_ok r =
     ((pj_state r = Accepted \<or> pj_state r = Succeeded \<or> pj_state r = Failed)
      \<and> 0 \<le> pj_attempt_count r \<and> in_int32 (pj_attempt_count r)
      \<and> (pj_state r = Accepted \<and> pj_finished_at r = None
         \<or> (pj_state r = Succeeded \<or> pj_state r = Failed) \<and> pj_finished_at r \<noteq> None))"

text \<open>The rows of the partial unique index \<open>processing_jobs_one_active_or_successful\<close>.\<close>

definition active_or_successful :: "processing_job_row \<Rightarrow> bool" where
  "active_or_successful r = (pj_state r = Accepted \<or> pj_state r = Succeeded)"

definition jobs_ok :: "work_item_row list \<Rightarrow> processing_job_row list \<Rightarrow> bool" where
  "jobs_ok items t =
     (unique_key pj_id t
      \<and> list_all job_row_ok t
      \<and> list_all (\<lambda>r. pj_work_item_id r \<in> wi_id ` set items) t
      \<and> unique_key pj_work_item_id (filter active_or_successful t))"

definition is_object :: "json \<Rightarrow> bool" where
  "is_object v = (case v of JObj _ \<Rightarrow> True | _ \<Rightarrow> False)"

definition outbox_row_ok :: "outbox_row \<Rightarrow> bool" where
  "outbox_row_ok r =
     (ob_event_type r = ''work_item.process'' \<and> is_object (ob_payload r)
      \<and> 0 \<le> ob_publish_attempts r \<and> in_int32 (ob_publish_attempts r))"

definition outbox_ok :: "processing_job_row list \<Rightarrow> outbox_row list \<Rightarrow> bool" where
  "outbox_ok jobs t =
     (unique_key ob_id t
      \<and> unique_key ob_processing_job_id t
      \<and> list_all outbox_row_ok t
      \<and> list_all (\<lambda>r. ob_processing_job_id r \<in> pj_id ` set jobs) t)"

definition result_row_ok :: "result_row \<Rightarrow> bool" where
  "result_row_ok r =
     (pg_text (wr_input_title r) \<and> wr_analysis_version r = 1
      \<and> 0 \<le> wr_character_count r \<and> in_int32 (wr_character_count r)
      \<and> 0 \<le> wr_word_count r \<and> in_int32 (wr_word_count r))"

definition results_ok ::
  "work_item_row list \<Rightarrow> processing_job_row list \<Rightarrow> result_row list \<Rightarrow> bool" where
  "results_ok items jobs t =
     (unique_key wr_work_item_id t
      \<and> unique_key wr_processing_job_id t
      \<and> list_all result_row_ok t
      \<and> list_all (\<lambda>r. wr_work_item_id r \<in> wi_id ` set items) t
      \<and> list_all (\<lambda>r. (wr_processing_job_id r, wr_work_item_id r)
                        \<in> (\<lambda>j. (pj_id j, pj_work_item_id j)) ` set jobs) t)"

text \<open>Everything PostgreSQL checks at the end of a statement.\<close>

definition immediate_ok :: "database \<Rightarrow> bool" where
  "immediate_ok d =
     (work_items_ok (work_items d)
      \<and> jobs_ok (work_items d) (processing_jobs d)
      \<and> outbox_ok (processing_jobs d) (outbox_messages d)
      \<and> results_ok (work_items d) (processing_jobs d) (work_item_results d))"

text \<open>
  The four deferred foreign keys of migration 5, checked at COMMIT: a result's item is done, its
  job succeeded, a done item has a result, a succeeded job has produced one.
\<close>

definition result_completed_item_fk :: "database \<Rightarrow> bool" where
  "result_completed_item_fk d =
     list_all (\<lambda>r. (wr_work_item_id r, Done) \<in> (\<lambda>i. (wi_id i, wi_status i)) ` set (work_items d))
       (work_item_results d)"

definition result_successful_job_fk :: "database \<Rightarrow> bool" where
  "result_successful_job_fk d =
     list_all (\<lambda>r. (wr_processing_job_id r, wr_work_item_id r, Succeeded)
                     \<in> (\<lambda>j. (pj_id j, pj_work_item_id j, pj_state j)) ` set (processing_jobs d))
       (work_item_results d)"

definition completed_item_result_fk :: "database \<Rightarrow> bool" where
  "completed_item_result_fk d =
     list_all (\<lambda>i. wi_status i = Done \<longrightarrow> wi_id i \<in> wr_work_item_id ` set (work_item_results d))
       (work_items d)"

definition successful_job_result_fk :: "database \<Rightarrow> bool" where
  "successful_job_result_fk d =
     list_all (\<lambda>j. pj_state j = Succeeded \<longrightarrow>
                   (pj_work_item_id j, pj_id j)
                     \<in> (\<lambda>r. (wr_work_item_id r, wr_processing_job_id r)) ` set (work_item_results d))
       (processing_jobs d)"

definition deferred_ok :: "database \<Rightarrow> bool" where
  "deferred_ok d =
     (result_completed_item_fk d \<and> result_successful_job_fk d
      \<and> completed_item_result_fk d \<and> successful_job_result_fk d)"

text \<open>A committed database satisfies every declared constraint.\<close>

definition db_ok :: "database \<Rightarrow> bool" where
  "db_ok d = (immediate_ok d \<and> deferred_ok d)"

text \<open>
  Identity columns are \<open>GENERATED ALWAYS\<close> and start at 1: every id came from its sequence, and is a
  \<open>BIGINT\<close>.
\<close>

definition seqs_nonneg :: "sequences \<Rightarrow> bool" where
  "seqs_nonneg sq =
     (0 \<le> seq_work_items sq \<and> 0 \<le> seq_processing_jobs sq \<and> 0 \<le> seq_outbox_messages sq)"

definition seqs_ok :: "sequences \<Rightarrow> database \<Rightarrow> bool" where
  "seqs_ok sq d =
     (seqs_nonneg sq
      \<and> list_all (\<lambda>k. 1 \<le> k \<and> k \<le> seq_work_items sq \<and> k \<le> int64_max) (map wi_id (work_items d))
      \<and> list_all (\<lambda>k. 1 \<le> k \<and> k \<le> seq_processing_jobs sq \<and> k \<le> int64_max) (map pj_id (processing_jobs d))
      \<and> list_all (\<lambda>k. 1 \<le> k \<and> k \<le> seq_outbox_messages sq \<and> k \<le> int64_max) (map ob_id (outbox_messages d)))"

section \<open>The empty database\<close>

definition empty_database :: database where
  "empty_database =
     \<lparr>work_items = [], processing_jobs = [], outbox_messages = [], work_item_results = []\<rparr>"

definition initial_sequences :: sequences where
  "initial_sequences = \<lparr>seq_work_items = 0, seq_processing_jobs = 0, seq_outbox_messages = 0\<rparr>"

lemmas constraint_defs =
  immediate_ok_def work_items_ok_def jobs_ok_def outbox_ok_def results_ok_def
lemmas deferred_defs =
  deferred_ok_def result_completed_item_fk_def result_successful_job_fk_def
  completed_item_result_fk_def successful_job_result_fk_def

lemma empty_database_ok: "db_ok empty_database" "seqs_ok initial_sequences empty_database"
  by (simp_all add: db_ok_def constraint_defs deferred_defs seqs_ok_def empty_database_def unique_key_def
       initial_sequences_def seqs_nonneg_def)

end
