(* ===== verification/History.thy ===== *)
theory History
  imports Database
begin

text \<open>
  The two-state contract of the database: what every committed statement of either program keeps
  of the rows that were there. Titles and identities are immutable, a done item stays done, a
  terminal job never changes again, results and accepted responsibilities are never removed, a
  published message stays published, attempt counters only grow.
\<close>

section \<open>One row's successors\<close>

definition terminal :: "string \<Rightarrow> bool" where
  "terminal st = (st = Succeeded \<or> st = Failed)"

definition item_continues :: "work_item_row \<Rightarrow> work_item_row \<Rightarrow> bool" where
  "item_continues r r' =
     (wi_id r' = wi_id r \<and> wi_title r' = wi_title r \<and> wi_created_at r' = wi_created_at r
      \<and> (wi_status r = Done \<longrightarrow> wi_status r' = Done))"

definition job_continues :: "processing_job_row \<Rightarrow> processing_job_row \<Rightarrow> bool" where
  "job_continues r r' =
     (pj_id r' = pj_id r \<and> pj_work_item_id r' = pj_work_item_id r
      \<and> pj_created_at r' = pj_created_at r \<and> pj_attempt_count r \<le> pj_attempt_count r'
      \<and> (terminal (pj_state r) \<longrightarrow> r' = r))"

definition outbox_continues :: "outbox_row \<Rightarrow> outbox_row \<Rightarrow> bool" where
  "outbox_continues r r' =
     (ob_id r' = ob_id r \<and> ob_processing_job_id r' = ob_processing_job_id r
      \<and> ob_event_type r' = ob_event_type r \<and> ob_payload r' = ob_payload r
      \<and> ob_created_at r' = ob_created_at r \<and> ob_publish_attempts r \<le> ob_publish_attempts r'
      \<and> (ob_published_at r \<noteq> None \<longrightarrow> ob_published_at r' = ob_published_at r))"

section \<open>Tables and databases\<close>

definition table_continues ::
  "('r \<Rightarrow> 'k) \<Rightarrow> ('r \<Rightarrow> 'r \<Rightarrow> bool) \<Rightarrow> 'r list \<Rightarrow> 'r list \<Rightarrow> bool" where
  "table_continues key R t t' =
     (\<forall>k r. row_at key t k = Some r \<longrightarrow> (\<exists>r'. row_at key t' k = Some r' \<and> R r r'))"

definition continues :: "database \<Rightarrow> database \<Rightarrow> bool" where
  "continues d d' =
     (table_continues wi_id item_continues (work_items d) (work_items d')
      \<and> table_continues pj_id job_continues (processing_jobs d) (processing_jobs d')
      \<and> table_continues ob_id outbox_continues (outbox_messages d) (outbox_messages d')
      \<and> table_continues wr_work_item_id (=) (work_item_results d) (work_item_results d'))"

lemma continues_rowD:
  "continues d d' \<Longrightarrow> row_at wi_id (work_items d) k = Some i \<Longrightarrow>
     \<exists>i'. row_at wi_id (work_items d') k = Some i' \<and> item_continues i i'"
  "continues d d' \<Longrightarrow> row_at pj_id (processing_jobs d) k = Some j \<Longrightarrow>
     \<exists>j'. row_at pj_id (processing_jobs d') k = Some j' \<and> job_continues j j'"
  "continues d d' \<Longrightarrow> row_at ob_id (outbox_messages d) k = Some m \<Longrightarrow>
     \<exists>m'. row_at ob_id (outbox_messages d') k = Some m' \<and> outbox_continues m m'"
  "continues d d' \<Longrightarrow> row_at wr_work_item_id (work_item_results d) k = Some r \<Longrightarrow>
     row_at wr_work_item_id (work_item_results d') k = Some r"
  by (simp_all add: continues_def table_continues_def)

text \<open>
  A row relation that is reflexive and transitive lifts to tables, and holds across an insert and
  across an update whose assignments respect it.
\<close>

locale row_history = keyed_update key f for key :: "'r \<Rightarrow> 'k" and f :: "'r \<Rightarrow> 'r" +
  fixes R :: "'r \<Rightarrow> 'r \<Rightarrow> bool" and P :: "'r \<Rightarrow> bool"
  assumes R_refl: "R r r"
    and R_step: "P r \<Longrightarrow> R r (f r)"
begin

lemma update_continues: "table_continues key R t (update_where P f t)"
  by (auto simp: table_continues_def row_at_update R_refl R_step)

end

lemma table_continues_refl: "(\<And>r. R r r) \<Longrightarrow> table_continues key R t t"
  by (simp add: table_continues_def)

lemma table_continues_trans:
  assumes "\<And>a b c. R a b \<Longrightarrow> R b c \<Longrightarrow> R a c"
    and "table_continues key R t u" and "table_continues key R u v"
  shows "table_continues key R t v"
  using assms unfolding table_continues_def by meson

lemma table_continues_insert: "(\<And>r. R r r) \<Longrightarrow> table_continues key R t (insert_row r t)"
  by (simp add: table_continues_def row_at_insert)

lemma item_continues_refl [simp]: "item_continues r r"
  by (simp add: item_continues_def)

lemma job_continues_refl [simp]: "job_continues r r"
  by (simp add: job_continues_def)

lemma outbox_continues_refl [simp]: "outbox_continues r r"
  by (simp add: outbox_continues_def)

lemma item_continues_trans: "item_continues a b \<Longrightarrow> item_continues b c \<Longrightarrow> item_continues a c"
  by (simp add: item_continues_def)

lemma job_continues_trans: "job_continues a b \<Longrightarrow> job_continues b c \<Longrightarrow> job_continues a c"
  by (auto simp: job_continues_def)

lemma outbox_continues_trans:
  "outbox_continues a b \<Longrightarrow> outbox_continues b c \<Longrightarrow> outbox_continues a c"
  by (auto simp: outbox_continues_def)

lemma continues_refl [simp]: "continues d d"
  by (simp add: continues_def table_continues_refl)

lemma continues_trans: "continues a b \<Longrightarrow> continues b c \<Longrightarrow> continues a c"
  unfolding continues_def
  by (blast intro: table_continues_trans item_continues_trans job_continues_trans
        outbox_continues_trans)

section \<open>Sequences\<close>

definition seqs_le :: "sequences \<Rightarrow> sequences \<Rightarrow> bool" where
  "seqs_le a b =
     (seq_work_items a \<le> seq_work_items b \<and> seq_processing_jobs a \<le> seq_processing_jobs b
      \<and> seq_outbox_messages a \<le> seq_outbox_messages b)"

lemma seqs_le_refl [simp]: "seqs_le a a"
  by (simp add: seqs_le_def)

lemma seqs_le_trans: "seqs_le a b \<Longrightarrow> seqs_le b c \<Longrightarrow> seqs_le a c"
  by (simp add: seqs_le_def)

lemma seqs_ok_mono: "seqs_ok a d \<Longrightarrow> seqs_le a b \<Longrightarrow> seqs_ok b d"
  by (auto simp: seqs_ok_def seqs_nonneg_def seqs_le_def list_all_iff intro: order_trans)

text \<open>
  An effect whose new rows carry ids the sequences have handed out: applied to any tables whose ids
  come from the sequences at that time or later, it leaves such tables.
\<close>

definition ids_from :: "sequences \<Rightarrow> (database \<Rightarrow> database) \<Rightarrow> bool" where
  "ids_from sq eff = (\<forall>d sq'. seqs_le sq sq' \<longrightarrow> seqs_ok sq' d \<longrightarrow> seqs_ok sq' (eff d))"

lemma ids_from_id [simp]: "ids_from sq id"
  by (simp add: ids_from_def)

lemma ids_from_mono: "ids_from sq eff \<Longrightarrow> seqs_le sq sq' \<Longrightarrow> ids_from sq' eff"
  unfolding ids_from_def by (blast intro: seqs_le_trans)

lemma seqs_ok_nonneg [simp]: "seqs_ok sq d \<Longrightarrow> seqs_nonneg sq"
  by (simp add: seqs_ok_def)

lemma ids_from_comp: "ids_from sq e \<Longrightarrow> ids_from sq e' \<Longrightarrow> ids_from sq (e' \<circ> e)"
  by (simp add: ids_from_def)

definition keeps_history :: "(database \<Rightarrow> database) \<Rightarrow> bool" where
  "keeps_history eff = (\<forall>d. continues d (eff d))"

lemma keeps_history_id [simp]: "keeps_history id"
  by (simp add: keeps_history_def)

lemma keeps_history_comp: "keeps_history e \<Longrightarrow> keeps_history e' \<Longrightarrow> keeps_history (e' \<circ> e)"
  unfolding keeps_history_def by (auto intro: continues_trans)

text \<open>An effect on one table keeps the history if it does so on that table.\<close>

lemma keeps_history_items:
  "(\<And>t. table_continues wi_id item_continues t (g t)) \<Longrightarrow>
     keeps_history (\<lambda>d. d\<lparr>work_items := g (work_items d)\<rparr>)"
  by (simp add: keeps_history_def continues_def table_continues_refl)

lemma keeps_history_jobs:
  "(\<And>t. table_continues pj_id job_continues t (g t)) \<Longrightarrow>
     keeps_history (\<lambda>d. d\<lparr>processing_jobs := g (processing_jobs d)\<rparr>)"
  by (simp add: keeps_history_def continues_def table_continues_refl)

lemma keeps_history_outbox:
  "(\<And>t. table_continues ob_id outbox_continues t (g t)) \<Longrightarrow>
     keeps_history (\<lambda>d. d\<lparr>outbox_messages := g (outbox_messages d)\<rparr>)"
  by (simp add: keeps_history_def continues_def table_continues_refl)

lemma keeps_history_results:
  "(\<And>t. table_continues wr_work_item_id (=) t (g t)) \<Longrightarrow>
     keeps_history (\<lambda>d. d\<lparr>work_item_results := g (work_item_results d)\<rparr>)"
  by (simp add: keeps_history_def continues_def table_continues_refl)

end
