(* ===== verification/Session.thy ===== *)
theory Session
  imports History
begin

text \<open>
  How the two programs talk to PostgreSQL: single statements through the pool, and transactions
  (READ COMMITTED). PostgreSQL itself, the network to it, and the other sessions on it are an
  environment: each call the code makes to the driver takes the next \<open>turn\<close>, which says what the
  other sessions committed since the previous call, whether the call fails, and the server's
  clock. A list that has run out means nothing happened and nothing fails.
\<close>

section \<open>Turns and worlds\<close>

text \<open>
  A call that fails fails before the server executed it or after: then its effect stays and
  only the answer is lost, as with a connection that breaks during COMMIT.
\<close>

datatype fault = NoFault | FaultBefore | FaultAfter

record turn =
  others :: "database \<times> sequences \<Rightarrow> database \<times> sequences"
  fault :: fault
  clock :: timestamp

definition quiet_turn :: turn where
  "quiet_turn = \<lparr>others = id, fault = NoFault, clock = 0\<rparr>"

record world =
  db :: database
  seqs :: sequences
  turns :: "turn list"

definition next_turn :: "world \<Rightarrow> turn" where
  "next_turn w = (case turns w of [] \<Rightarrow> quiet_turn | t # _ \<Rightarrow> t)"

text \<open>The world at a call: what the others committed is there, the turn is used up.\<close>

definition arrive :: "world \<Rightarrow> world" where
  "arrive w =
     (case others (next_turn w) (db w, seqs w) of
        (d, sq) \<Rightarrow> w\<lparr>db := d, seqs := sq, turns := tl (turns w)\<rparr>)"

definition driver_error :: go_error where
  "driver_error = Opaque ''driver''"

definition constraint_error :: go_error where
  "constraint_error = Opaque ''constraint violation''"

section \<open>Statements\<close>

text \<open>
  A statement reads the clock, the tables it sees and the sequences, and yields its answer, its
  effect on the tables and the sequences after it. Sequence values once handed out stay handed
  out. A statement that would break a constraint is an error without effect.
\<close>

type_synonym effect = "database \<Rightarrow> database"
type_synonym 'a stmt = "timestamp \<Rightarrow> database \<Rightarrow> sequences \<Rightarrow> 'a result \<times> effect \<times> sequences"

definition run_stmt :: "'a stmt \<Rightarrow> 'a stmt" where
  "run_stmt st now d sq =
     (case st now d sq of
        (Inl e, eff, sq') \<Rightarrow> (Inl e, id, sq')
      | (Inr v, eff, sq') \<Rightarrow>
          (if immediate_ok (eff d) then (Inr v, eff, sq') else (Inl constraint_error, id, sq')))"

definition answer :: "fault \<Rightarrow> 'a result \<Rightarrow> 'a result" where
  "answer f r = (if f = NoFault then r else Inl driver_error)"

text \<open>A statement of its own: it commits at its end, so the deferred constraints are checked too.\<close>

definition exec_auto :: "'a stmt \<Rightarrow> world \<Rightarrow> 'a result \<times> world" where
  "exec_auto st w =
     (let t = next_turn w; w' = arrive w in
      if fault t = FaultBefore then (Inl driver_error, w')
      else
        (case run_stmt st (clock t) (db w') (seqs w') of
           (r, eff, sq) \<Rightarrow>
             (if deferred_ok (eff (db w'))
              then (answer (fault t) r, w'\<lparr>db := eff (db w'), seqs := sq\<rparr>)
              else (Inl constraint_error, w'\<lparr>seqs := sq\<rparr>))))"

section \<open>Transactions\<close>

text \<open>
  An open transaction: the world the other sessions see, and this transaction's writes as their
  combined effect. A statement sees the committed tables of the moment with its own writes on
  top (READ COMMITTED), and the transaction's start as its \<open>CURRENT_TIMESTAMP\<close>.
\<close>

record tx =
  tx_world :: world
  tx_writes :: effect
  tx_start :: timestamp

definition tx_view :: "tx \<Rightarrow> database" where
  "tx_view x = tx_writes x (db (tx_world x))"

text \<open>
  Rows a transaction has written are locked, and a row of another session that conflicts with a
  key it has inserted waits for it: other sessions' commits that would change a written row or
  break a constraint together with the writes do not happen before this transaction ends.
\<close>

definition unchanged_rows :: "('r \<Rightarrow> 'k) \<Rightarrow> 'r list \<Rightarrow> 'r list \<Rightarrow> 'r list \<Rightarrow> bool" where
  "unchanged_rows key before own after =
     list_all (\<lambda>r. row_at key before (key r) \<noteq> Some r \<longrightarrow>
                   row_at key after (key r) = row_at key before (key r)) own"

definition respects_locks :: "effect \<Rightarrow> database \<Rightarrow> database \<Rightarrow> bool" where
  "respects_locks eff d d' =
     (unchanged_rows wi_id (work_items d) (work_items (eff d)) (work_items d')
      \<and> unchanged_rows pj_id (processing_jobs d) (processing_jobs (eff d)) (processing_jobs d')
      \<and> unchanged_rows ob_id (outbox_messages d) (outbox_messages (eff d)) (outbox_messages d')
      \<and> unchanged_rows wr_work_item_id (work_item_results d) (work_item_results (eff d))
          (work_item_results d')
      \<and> immediate_ok (eff d'))"

definition tx_arrive :: "tx \<Rightarrow> tx" where
  "tx_arrive x =
     (let w = tx_world x; w' = arrive w in
      if respects_locks (tx_writes x) (db w) (db w') then x\<lparr>tx_world := w'\<rparr>
      else x\<lparr>tx_world := w'\<lparr>db := db w\<rparr>\<rparr>)"

text \<open>\<open>pool.Begin\<close>.\<close>

definition begin_tx :: "world \<Rightarrow> unit result \<times> tx" where
  "begin_tx w =
     (answer (fault (next_turn w)) (Inr ()),
      \<lparr>tx_world = arrive w, tx_writes = id, tx_start = clock (next_turn w)\<rparr>)"

text \<open>
  A statement of a transaction. When the connection breaks the server aborts the transaction,
  whether it executed the statement or not.
\<close>

definition exec_tx :: "'a stmt \<Rightarrow> tx \<Rightarrow> 'a result \<times> tx" where
  "exec_tx st x =
     (let t = next_turn (tx_world x); x' = tx_arrive x in
      if fault t \<noteq> NoFault then (Inl driver_error, x'\<lparr>tx_writes := id\<rparr>)
      else
        (case run_stmt st (tx_start x) (tx_view x') (seqs (tx_world x')) of
           (r, eff, sq) \<Rightarrow>
             (r, x'\<lparr>tx_world := (tx_world x')\<lparr>seqs := sq\<rparr>, tx_writes := eff \<circ> tx_writes x'\<rparr>)))"

text \<open>
  \<open>tx.Commit\<close>: the deferred constraints decide; a fault before the server committed rolls back, a
  fault after it leaves the transaction committed and the caller with an error.
\<close>

definition commit_tx :: "tx \<Rightarrow> unit result \<times> world" where
  "commit_tx x =
     (let t = next_turn (tx_world x); x' = tx_arrive x; w = tx_world x' in
      if fault t = FaultBefore then (Inl driver_error, w)
      else if deferred_ok (tx_view x') then (answer (fault t) (Inr ()), w\<lparr>db := tx_view x'\<rparr>)
      else (Inl constraint_error, w))"

text \<open>\<open>tx.Rollback\<close>: the writes are gone.\<close>

definition rollback_tx :: "tx \<Rightarrow> world" where
  "rollback_tx x = tx_world x"

text \<open>\<open>SELECT pg_advisory_xact_lock(...)\<close> of \<open>workitems.ItemLockSQL\<close>: no effect on the tables.\<close>

definition ItemLockSQL :: "int64 \<Rightarrow> unit stmt" where
  "ItemLockSQL work_item_id now d sq = (Inr (), id, sq)"

section \<open>What the other sessions may do\<close>

text \<open>
  Every commit of another session leaves a database that satisfies the constraints, continues the
  history of the rows, and takes sequence values only forward.
\<close>

definition others_ok :: "turn \<Rightarrow> bool" where
  "others_ok t = (\<forall>d sq d' sq'. others t (d, sq) = (d', sq') \<longrightarrow> db_ok d \<longrightarrow> seqs_ok sq d \<longrightarrow>
     db_ok d' \<and> seqs_ok sq' d' \<and> seqs_le sq sq' \<and> continues d d')"

definition rely :: "world \<Rightarrow> bool" where
  "rely w = (\<forall>t \<in> set (turns w). others_ok t)"

text \<open>No other session commits anything meanwhile; calls may still fail.\<close>

definition isolated :: "world \<Rightarrow> bool" where
  "isolated w = (\<forall>t \<in> set (turns w). others t = id)"

text \<open>Nothing fails either.\<close>

definition no_faults :: "world \<Rightarrow> bool" where
  "no_faults w = (\<forall>t \<in> set (turns w). fault t = NoFault)"

text \<open>A world whose committed tables are valid, among sessions that keep them so.\<close>

definition world_ok :: "world \<Rightarrow> bool" where
  "world_ok w = (db_ok (db w) \<and> seqs_ok (seqs w) (db w) \<and> rely w)"

section \<open>Every call keeps the world valid\<close>

text \<open>From one world to a later one: validity is kept and the history of the rows continues.\<close>

definition evolves :: "world \<Rightarrow> world \<Rightarrow> bool" where
  "evolves w w' = (world_ok w \<longrightarrow> world_ok w' \<and> seqs_le (seqs w) (seqs w') \<and> continues (db w) (db w'))"

lemma evolves_refl [simp]: "evolves w w"
  by (simp add: evolves_def)

lemma evolves_trans [trans]: "evolves a b \<Longrightarrow> evolves b c \<Longrightarrow> evolves a c"
  unfolding evolves_def by (auto intro: seqs_le_trans continues_trans)

lemma evolves_world_ok: "evolves w w' \<Longrightarrow> world_ok w \<Longrightarrow> world_ok w'"
  by (simp add: evolves_def)

lemma evolves_continues: "evolves w w' \<Longrightarrow> world_ok w \<Longrightarrow> continues (db w) (db w')"
  by (simp add: evolves_def)

lemma others_ok_quiet [simp]: "others_ok quiet_turn"
  by (auto simp: others_ok_def quiet_turn_def)

lemma rely_next: "rely w \<Longrightarrow> others_ok (next_turn w)"
  by (auto simp: rely_def next_turn_def split: list.split)

lemma arrive_turns [simp]: "turns (arrive w) = tl (turns w)"
  by (simp add: arrive_def split: prod.split)

lemma in_set_tl: "x \<in> set (tl xs) \<Longrightarrow> x \<in> set xs"
  by (cases xs) auto

lemma rely_tl: "rely w \<Longrightarrow> turns w' = tl (turns w) \<Longrightarrow> rely w'"
  by (auto simp: rely_def dest: in_set_tl)

lemma evolves_arrive: "evolves w (arrive w)"
  unfolding evolves_def
proof
  assume ok: "world_ok w"
  obtain d sq where o: "others (next_turn w) (db w, seqs w) = (d, sq)" by (metis surj_pair)
  then have w': "db (arrive w) = d" "seqs (arrive w) = sq" by (simp_all add: arrive_def)
  have "others_ok (next_turn w)" using ok by (simp add: world_ok_def rely_next)
  then have "db_ok d \<and> seqs_ok sq d \<and> seqs_le (seqs w) sq \<and> continues (db w) d"
    using ok o unfolding others_ok_def world_ok_def by simp
  moreover have "rely (arrive w)" using ok rely_tl [of w "arrive w"] by (simp add: world_ok_def)
  ultimately show "world_ok (arrive w) \<and> seqs_le (seqs w) (seqs (arrive w)) \<and> continues (db w) (db (arrive w))"
    by (simp add: world_ok_def w')
qed

text \<open>
  The contract of a statement: it takes sequence values forward, the ids it inserts are such
  values, and it keeps the history of the rows of whatever tables it is applied to.
\<close>

locale statement =
  fixes st :: "'a stmt"
  assumes seqs_forward: "st now d sq = (r, eff, sq') \<Longrightarrow> seqs_le sq sq'"
    and fresh_ids: "seqs_nonneg sq \<Longrightarrow> st now d sq = (Inr v, eff, sq') \<Longrightarrow> ids_from sq' eff"
    and history_kept: "st now d sq = (Inr v, eff, sq') \<Longrightarrow> keeps_history eff"
begin

lemma run_stmt_ok:
  assumes "run_stmt st now d sq = (r, eff, sq')"
  shows "seqs_le sq sq'" and "seqs_nonneg sq \<Longrightarrow> ids_from sq' eff" and "keeps_history eff"
    and "immediate_ok d \<Longrightarrow> immediate_ok (eff d)"
proof -
  obtain r0 eff0 sq0 where st: "st now d sq = (r0, eff0, sq0)" by (metis prod_cases3)
  have sq: "sq' = sq0" and cases: "eff = id \<or> eff = eff0 \<and> immediate_ok (eff0 d) \<and> is_ok r0"
    using assms by (auto simp: run_stmt_def st split: sum.splits if_splits)
  show "seqs_le sq sq'" using seqs_forward [OF st] by (simp add: sq)
  show "seqs_nonneg sq \<Longrightarrow> ids_from sq' eff" using cases fresh_ids [of sq now d _ eff0 sq0] by (auto simp: sq st is_ok_iff)
  show "keeps_history eff" using cases history_kept [of now d sq _ eff0 sq0] by (auto simp: st is_ok_iff)
  show "immediate_ok d \<Longrightarrow> immediate_ok (eff d)" using cases by auto
qed

lemma exec_auto_evolves:
  assumes e: "exec_auto st w = (r, w')"
  shows "evolves w w'"
proof -
  define t where "t = next_turn w"
  define u where "u = arrive w"
  obtain r1 eff sq where run: "run_stmt st (clock t) (db u) (seqs u) = (r1, eff, sq)"
    by (metis prod_cases3)
  note ok = run_stmt_ok [OF run]
  have "evolves u w'"
  proof (cases "fault t = FaultBefore")
    case True
    with e show ?thesis by (simp add: exec_auto_def Let_def t_def u_def)
  next
    case False
    with e run have w': "w' = (if deferred_ok (eff (db u)) then u\<lparr>db := eff (db u), seqs := sq\<rparr>
        else u\<lparr>seqs := sq\<rparr>)"
      by (auto simp: exec_auto_def Let_def t_def u_def split: if_splits)
    have "seqs_ok sq (eff (db u))" if "seqs_ok (seqs u) (db u)"
      using that ok(1) ok(2) [OF seqs_ok_nonneg [OF that]] unfolding ids_from_def
      by (meson seqs_le_refl seqs_ok_mono)
    with ok show ?thesis
      unfolding evolves_def w' world_ok_def db_ok_def rely_def
      by (auto simp: keeps_history_def intro: seqs_ok_mono)
  qed
  with evolves_arrive show ?thesis unfolding u_def by (rule evolves_trans)
qed

end

text \<open>An open transaction whose writes are as every statement's.\<close>

definition tx_ok :: "tx \<Rightarrow> bool" where
  "tx_ok x =
     (world_ok (tx_world x) \<and> immediate_ok (tx_view x)
      \<and> ids_from (seqs (tx_world x)) (tx_writes x) \<and> keeps_history (tx_writes x))"

definition tx_evolves :: "tx \<Rightarrow> tx \<Rightarrow> bool" where
  "tx_evolves x x' = (tx_ok x \<longrightarrow> tx_ok x' \<and> evolves (tx_world x) (tx_world x'))"

lemma tx_evolves_refl [simp]: "tx_evolves x x"
  by (simp add: tx_evolves_def)

lemma tx_evolves_trans [trans]: "tx_evolves a b \<Longrightarrow> tx_evolves b c \<Longrightarrow> tx_evolves a c"
  unfolding tx_evolves_def by (blast intro: evolves_trans)

lemma begin_tx_ok:
  assumes "begin_tx w = (r, x)" and "world_ok w"
  shows "tx_ok x" and "evolves w (tx_world x)"
proof -
  have x: "tx_world x = arrive w" "tx_writes x = id" using assms(1) by (auto simp: begin_tx_def)
  show "evolves w (tx_world x)" unfolding x by (rule evolves_arrive)
  then have "world_ok (arrive w)" using assms(2) unfolding x by (rule evolves_world_ok)
  then show "tx_ok x" by (simp add: tx_ok_def x tx_view_def world_ok_def db_ok_def)
qed

lemma tx_arrive_evolves: "tx_evolves x (tx_arrive x)"
  unfolding tx_evolves_def
proof
  assume ok: "tx_ok x"
  let ?w = "tx_world x" and ?w' = "arrive (tx_world x)"
  have w: "world_ok ?w" using ok by (simp add: tx_ok_def)
  have ev: "evolves ?w ?w'" by (rule evolves_arrive)
  with w have w': "world_ok ?w'" and le: "seqs_le (seqs ?w) (seqs ?w')" by (auto simp: evolves_def)
  show "tx_ok (tx_arrive x) \<and> evolves ?w (tx_world (tx_arrive x))"
  proof (cases "respects_locks (tx_writes x) (db ?w) (db ?w')")
    case True
    then show ?thesis
      using ok ev w' le
      by (auto simp: tx_arrive_def Let_def tx_ok_def tx_view_def respects_locks_def intro: ids_from_mono)
  next
    case False
    have "world_ok (?w'\<lparr>db := db ?w\<rparr>)"
      using w w' le by (auto simp: world_ok_def rely_def intro: seqs_ok_mono)
    with False show ?thesis
      using ok le
      by (auto simp: tx_arrive_def Let_def tx_ok_def tx_view_def evolves_def intro: ids_from_mono)
  qed
qed

context statement
begin

lemma exec_tx_evolves:
  assumes e: "exec_tx st x = (r, x')"
  shows "tx_evolves x x'"
proof -
  define u where "u = tx_arrive x"
  define t where "t = next_turn (tx_world x)"
  obtain r1 eff sq where run: "run_stmt st (tx_start x) (tx_view u) (seqs (tx_world u)) = (r1, eff, sq)"
    by (metis prod_cases3)
  note ok = run_stmt_ok [OF run]
  have "tx_evolves u x'"
  proof (cases "fault t = NoFault")
    case False
    with e have "x' = u\<lparr>tx_writes := id\<rparr>" by (simp add: exec_tx_def Let_def t_def u_def)
    then show ?thesis
      by (simp add: tx_evolves_def tx_ok_def tx_view_def world_ok_def db_ok_def)
  next
    case True
    with e run have x': "x' = u\<lparr>tx_world := (tx_world u)\<lparr>seqs := sq\<rparr>, tx_writes := eff \<circ> tx_writes u\<rparr>"
      by (simp add: exec_tx_def Let_def t_def u_def)
    show ?thesis
      using ok
      by (auto simp: tx_evolves_def tx_ok_def tx_view_def world_ok_def x' evolves_def rely_def
               intro: seqs_ok_mono ids_from_mono ids_from_comp keeps_history_comp)
  qed
  with tx_arrive_evolves show ?thesis unfolding u_def by (rule tx_evolves_trans)
qed

end

interpretation item_lock: statement "ItemLockSQL i" for i
  by unfold_locales (auto simp: ItemLockSQL_def)

lemma rollback_tx_evolves: "tx_evolves x x' \<Longrightarrow> tx_ok x \<Longrightarrow> evolves (tx_world x) (rollback_tx x')"
  by (simp add: rollback_tx_def tx_evolves_def)

lemma commit_tx_evolves:
  assumes c: "commit_tx x = (r, w')" and ok: "tx_ok x"
  shows "evolves (tx_world x) w'"
proof -
  define u where "u = tx_arrive x"
  have u: "tx_ok u" and ev: "evolves (tx_world x) (tx_world u)"
    using tx_arrive_evolves ok by (auto simp: tx_evolves_def u_def)
  have "w' = tx_world u \<or> w' = (tx_world u)\<lparr>db := tx_view u\<rparr> \<and> deferred_ok (tx_view u)"
    using c by (auto simp: commit_tx_def Let_def u_def split: if_splits)
  then have "evolves (tx_world u) w'"
    using u by (auto simp: evolves_def tx_ok_def world_ok_def db_ok_def ids_from_def rely_def
        keeps_history_def tx_view_def)
  with ev show ?thesis by (rule evolves_trans)
qed

section \<open>Calls in isolation\<close>

definition calm :: "world \<Rightarrow> bool" where
  "calm w = (isolated w \<and> no_faults w)"

definition tick :: "world \<Rightarrow> world" where
  "tick w = w\<lparr>turns := tl (turns w)\<rparr>"

lemma tick_simps [simp]:
  "db (tick w) = db w" "seqs (tick w) = seqs w" "turns (tick w) = tl (turns w)"
  by (simp_all add: tick_def)

lemma isolated_next: "isolated w \<Longrightarrow> others (next_turn w) = id"
  by (auto simp: isolated_def next_turn_def quiet_turn_def split: list.split)

lemma no_faults_next: "no_faults w \<Longrightarrow> fault (next_turn w) = NoFault"
  by (auto simp: no_faults_def next_turn_def quiet_turn_def split: list.split)

lemma arrive_isolated: "isolated w \<Longrightarrow> arrive w = tick w"
  by (simp add: arrive_def isolated_next tick_def)

lemma isolated_tl [simp]:
  "isolated w \<Longrightarrow> isolated (tick w)"
  "isolated (w\<lparr>db := d\<rparr>) = isolated w" "isolated (w\<lparr>seqs := sq\<rparr>) = isolated w"
  by (auto simp: isolated_def dest: in_set_tl)

lemma no_faults_tl [simp]:
  "no_faults w \<Longrightarrow> no_faults (tick w)"
  "no_faults (w\<lparr>db := d\<rparr>) = no_faults w" "no_faults (w\<lparr>seqs := sq\<rparr>) = no_faults w"
  by (auto simp: no_faults_def dest: in_set_tl)

lemma tx_arrive_isolated:
  "isolated (tx_world x) \<Longrightarrow> tx_arrive x = x\<lparr>tx_world := tick (tx_world x)\<rparr>"
  by (simp add: tx_arrive_def Let_def arrive_isolated)

lemma calm_simps [simp]:
  "calm w \<Longrightarrow> calm (tick w)" "calm (w\<lparr>db := d\<rparr>) = calm w" "calm (w\<lparr>seqs := sq\<rparr>) = calm w"
  by (simp_all add: calm_def)

lemma calm_next: "calm w \<Longrightarrow> fault (next_turn w) = NoFault"
  by (simp add: calm_def no_faults_next)

lemma calm_isolated: "calm w \<Longrightarrow> isolated w"
  by (simp add: calm_def)

text \<open>
  Without other sessions a statement of a transaction either fails without answer, or answers what
  it computes on the transaction's view; the committed tables stay.
\<close>

lemma exec_tx_isolated:
  assumes iso: "isolated (tx_world x)" and e: "exec_tx st x = (r, x')"
  shows "isolated (tx_world x')" and "db (tx_world x') = db (tx_world x)"
    and "tx_start x' = tx_start x"
    and "r = Inr v \<Longrightarrow> \<exists>eff sq. st (tx_start x) (tx_view x) (seqs (tx_world x)) = (Inr v, eff, sq)
           \<and> tx_view x' = eff (tx_view x) \<and> immediate_ok (tx_view x')"
  using iso e
  by (auto simp: exec_tx_def Let_def tx_arrive_isolated tx_view_def run_stmt_def
           split: if_splits prod.splits sum.splits)

lemma exec_tx_isolated_error:
  assumes "isolated (tx_world x)" and "exec_tx st x = (Inl e, x')"
  shows "tx_view x' = tx_view x \<or> tx_view x' = db (tx_world x')"
  using assms
  by (auto simp: exec_tx_def Let_def tx_arrive_isolated tx_view_def run_stmt_def
           split: if_splits prod.splits sum.splits)

lemma exec_tx_calm:
  assumes "calm (tx_world x)" and "st (tx_start x) (tx_view x) (seqs (tx_world x)) = (Inr v, eff, sq)"
    and "immediate_ok (eff (tx_view x))"
  shows "exec_tx st x =
    (Inr v, x\<lparr>tx_world := (tick (tx_world x))\<lparr>seqs := sq\<rparr>, tx_writes := eff \<circ> tx_writes x\<rparr>)"
  using assms
  by (simp add: exec_tx_def Let_def tx_arrive_isolated calm_isolated calm_next run_stmt_def
        tx_view_def)

lemma exec_tx_calm_error:
  assumes "calm (tx_world x)" and "st (tx_start x) (tx_view x) (seqs (tx_world x)) = (Inl e, eff, sq)"
  shows "exec_tx st x = (Inl e, x\<lparr>tx_world := (tick (tx_world x))\<lparr>seqs := sq\<rparr>\<rparr>)"
  using assms
  by (simp add: exec_tx_def Let_def tx_arrive_isolated calm_isolated calm_next run_stmt_def
        tx_view_def)

lemma begin_tx_calm:
  "calm w \<Longrightarrow> begin_tx w =
     (Inr (), \<lparr>tx_world = tick w, tx_writes = id, tx_start = clock (next_turn w)\<rparr>)"
  by (simp add: begin_tx_def answer_def calm_next arrive_isolated calm_isolated)

lemma commit_tx_calm:
  "calm (tx_world x) \<Longrightarrow> deferred_ok (tx_view x) \<Longrightarrow>
     commit_tx x = (Inr (), (tick (tx_world x))\<lparr>db := tx_view x\<rparr>)"
  by (simp add: commit_tx_def Let_def tx_arrive_isolated calm_isolated calm_next answer_def tx_view_def)

text \<open>Without other sessions, COMMIT installs the view or leaves the tables.\<close>

lemma commit_tx_isolated:
  assumes "isolated (tx_world x)" and "commit_tx x = (r, w')"
  shows "db w' = db (tx_world x) \<and> \<not> is_ok r \<or> db w' = tx_view x \<and> deferred_ok (tx_view x)"
  using assms
  by (auto simp: commit_tx_def Let_def tx_arrive_isolated tx_view_def answer_def split: if_splits)

text \<open>Without other sessions a single statement leaves the tables or has its effect.\<close>

lemma exec_auto_isolated:
  assumes "isolated w" and "exec_auto st w = (r, w')"
  shows "isolated w'"
    and "db w' = db w \<or>
      (\<exists>v eff sq. st (clock (next_turn w)) (db w) (seqs w) = (Inr v, eff, sq) \<and> db w' = eff (db w))"
    and "r = Inr v \<Longrightarrow>
      \<exists>eff sq. st (clock (next_turn w)) (db w) (seqs w) = (Inr v, eff, sq) \<and> db w' = eff (db w)"
  using assms
  by (auto simp: exec_auto_def Let_def arrive_isolated run_stmt_def answer_def
           split: if_splits prod.splits sum.splits)

lemma exec_auto_calm:
  assumes "calm w" and "st (clock (next_turn w)) (db w) (seqs w) = (Inr v, eff, sq)"
    and "immediate_ok (eff (db w))" and "deferred_ok (eff (db w))"
  shows "exec_auto st w = (Inr v, (tick w)\<lparr>db := eff (db w), seqs := sq\<rparr>)"
  using assms
  by (simp add: exec_auto_def Let_def arrive_isolated calm_isolated calm_next run_stmt_def answer_def)

lemma exec_auto_calm_error:
  assumes "calm w" and "st (clock (next_turn w)) (db w) (seqs w) = (Inl e, eff, sq)"
    and "deferred_ok (db w)"
  shows "exec_auto st w = (Inl e, (tick w)\<lparr>seqs := sq\<rparr>)"
  using assms
  by (simp add: exec_auto_def Let_def arrive_isolated calm_isolated calm_next run_stmt_def answer_def)

text \<open>
  A calm transaction at a point of its run: the committed tables, the sequences, the view, the
  start. Each call moves it to the next point.
\<close>

definition tx_at :: "database \<Rightarrow> sequences \<Rightarrow> database \<Rightarrow> timestamp \<Rightarrow> tx \<Rightarrow> bool" where
  "tx_at d sq v now x =
     (calm (tx_world x) \<and> db (tx_world x) = d \<and> seqs (tx_world x) = sq \<and> tx_view x = v
      \<and> tx_start x = now)"

lemma tx_at_begin:
  "calm w \<Longrightarrow> \<exists>x. begin_tx w = (Inr (), x) \<and> tx_at (db w) (seqs w) (db w) (clock (next_turn w)) x"
  by (simp add: begin_tx_calm tx_at_def tx_view_def)

lemma tx_at_exec:
  assumes "tx_at d sq v now x" and "st now v sq = (Inr r, eff, sq')" and "immediate_ok (eff v)"
  shows "\<exists>x'. exec_tx st x = (Inr r, x') \<and> tx_at d sq' (eff v) now x'"
proof -
  have "exec_tx st x =
      (Inr r, x\<lparr>tx_world := (tick (tx_world x))\<lparr>seqs := sq'\<rparr>, tx_writes := eff \<circ> tx_writes x\<rparr>)"
    using assms by (intro exec_tx_calm) (simp_all add: tx_at_def)
  with assms(1) show ?thesis by (auto simp: tx_at_def tx_view_def)
qed

lemma tx_at_exec_error:
  assumes "tx_at d sq v now x" and "st now v sq = (Inl e, eff, sq')"
  shows "\<exists>x'. exec_tx st x = (Inl e, x') \<and> tx_at d sq' v now x'"
proof -
  have "exec_tx st x = (Inl e, x\<lparr>tx_world := (tick (tx_world x))\<lparr>seqs := sq'\<rparr>\<rparr>)"
    using assms by (intro exec_tx_calm_error) (auto simp: tx_at_def)
  with assms(1) show ?thesis by (auto simp: tx_at_def tx_view_def)
qed

lemma tx_at_commit:
  assumes "tx_at d sq v now x" and "deferred_ok v"
  shows "\<exists>w'. commit_tx x = (Inr (), w') \<and> db w' = v \<and> seqs w' = sq \<and> calm w'"
  using assms commit_tx_calm [of x] by (simp add: tx_at_def)

lemma tx_at_rollback:
  "tx_at d sq v now x \<Longrightarrow> db (rollback_tx x) = d \<and> seqs (rollback_tx x) = sq \<and> calm (rollback_tx x)"
  by (simp add: rollback_tx_def tx_at_def)

section \<open>Calls among other sessions\<close>

text \<open>A statement that answers was executed on the tables of that moment.\<close>

lemma exec_auto_Inr:
  assumes "exec_auto st w = (Inr v, w')"
  shows "\<exists>eff sq. st (clock (next_turn w)) (db (arrive w)) (seqs (arrive w)) = (Inr v, eff, sq)
    \<and> w' = (arrive w)\<lparr>db := eff (db (arrive w)), seqs := sq\<rparr>"
  using assms
  by (auto simp: exec_auto_def Let_def run_stmt_def answer_def split: prod.splits sum.splits if_splits)

lemma exec_tx_Inr:
  assumes "exec_tx st x = (Inr v, x')"
  shows "\<exists>eff sq. st (tx_start x) (tx_view (tx_arrive x)) (seqs (tx_world (tx_arrive x))) = (Inr v, eff, sq)
    \<and> tx_writes x' = eff \<circ> tx_writes x \<and> db (tx_world x') = db (tx_world (tx_arrive x))
    \<and> tx_start x' = tx_start x"
  using assms
  by (auto simp: exec_tx_def Let_def run_stmt_def tx_arrive_def
           split: prod.splits sum.splits if_splits)

lemma commit_tx_Inr:
  "commit_tx x = (Inr (), w') \<Longrightarrow> db w' = tx_view (tx_arrive x) \<and> deferred_ok (db w')"
  by (auto simp: commit_tx_def Let_def answer_def split: if_splits)

text \<open>While a transaction waits for a call, its writes stay and the rows they changed are locked.\<close>

lemma tx_arrive_locks:
  "tx_writes (tx_arrive x) = tx_writes x
    \<and> (db (tx_world (tx_arrive x)) = db (tx_world x)
       \<or> respects_locks (tx_writes x) (db (tx_world x)) (db (tx_world (tx_arrive x))))"
  by (auto simp: tx_arrive_def Let_def)

text \<open>A statement of a transaction that only reads leaves the transaction without writes.\<close>

lemma exec_tx_reads:
  assumes "exec_tx st x = (r, x')" and "tx_writes x = id"
    and "\<And>now d sq v eff sq'. st now d sq = (Inr v, eff, sq') \<Longrightarrow> eff = id"
  shows "tx_writes x' = id"
proof -
  have "eff = id" if "run_stmt st now d sq = (q, eff, sq')" for now d sq q eff sq'
    using that assms(3) by (auto simp: run_stmt_def split: prod.splits sum.splits if_splits)
  with assms(1,2) tx_arrive_locks [of x] show ?thesis
    by (fastforce simp: exec_tx_def Let_def split: if_splits prod.splits)
qed

lemma unchanged_rowsD:
  "unchanged_rows key before own after \<Longrightarrow> row_at key own k = Some r \<Longrightarrow> row_at key before k \<noteq> Some r \<Longrightarrow>
     row_at key after k = row_at key before k"
  using row_at_Some_in [of key own k r] by (auto simp: unchanged_rows_def list_all_iff)

end
