(* ===== verification/WorkerStore.thy ===== *)
theory WorkerStore
  imports Session
begin

text \<open>
  \<open>worker/store.go\<close> and \<open>worker/complete.go\<close>: inspecting a processing job, recording a failed
  attempt, and the business completion (result, done item and succeeded job in one transaction).
\<close>

section \<open>Data\<close>

record worker_processing_job =
  wj_ID :: int64
  wj_WorkItemID :: int64
  wj_State :: string
  wj_AttemptCount :: int
  wj_LastError :: "string option"
  wj_FinishedAt :: "timestamp option"

definition completionApplied :: string where "completionApplied = ''completed_now''"
definition completionAlreadyTerminal :: string where "completionAlreadyTerminal = ''already_terminal''"

record processing_completion =
  pc_Disposition :: string
  pc_Job :: worker_processing_job

definition processingFailureRetryable :: string where "processingFailureRetryable = ''retryable''"
definition processingFailureTerminal :: string where "processingFailureTerminal = ''terminal''"
definition processingFailureAlreadyTerminal :: string where
  "processingFailureAlreadyTerminal = ''already_terminal''"

lemmas disposition_defs =
  completionApplied_def completionAlreadyTerminal_def processingFailureRetryable_def
  processingFailureTerminal_def processingFailureAlreadyTerminal_def

lemma dispositions_distinct [simp]:
  "processingFailureRetryable \<noteq> processingFailureTerminal"
  "processingFailureTerminal \<noteq> processingFailureRetryable"
  "processingFailureRetryable \<noteq> processingFailureAlreadyTerminal"
  "processingFailureAlreadyTerminal \<noteq> processingFailureRetryable"
  "processingFailureTerminal \<noteq> processingFailureAlreadyTerminal"
  "processingFailureAlreadyTerminal \<noteq> processingFailureTerminal"
  "completionApplied \<noteq> completionAlreadyTerminal" "completionAlreadyTerminal \<noteq> completionApplied"
  by (simp_all add: disposition_defs)

record processing_failure =
  pf_Disposition :: string
  pf_Job :: worker_processing_job

section \<open>Inspecting a job\<close>

definition select_job_stmt :: "int64 \<Rightarrow> processing_job_row stmt" where
  "select_job_stmt job_id now d sq =
     (query_row (select_where (\<lambda>r. pj_id r = job_id) (processing_jobs d)), id, sq)"

definition scan_worker_processing_job :: "processing_job_row \<Rightarrow> worker_processing_job" where
  "scan_worker_processing_job r =
     \<lparr>wj_ID = pj_id r, wj_WorkItemID = pj_work_item_id r, wj_State = pj_state r,
      wj_AttemptCount = pj_attempt_count r, wj_LastError = pj_last_error_code r,
      wj_FinishedAt = pj_finished_at r\<rparr>"

definition job_not_found :: go_error where
  "job_not_found = Wrap ''id'' (Sentinel WorkerErrProcessingJobNotFound)"

definition job_mismatch :: go_error where
  "job_mismatch = Wrap ''job_id'' (Sentinel WorkerErrProcessingJobMismatch)"

definition job_conflict :: go_error where
  "job_conflict = Wrap ''job_id'' (Sentinel WorkerErrProcessingJobConflict)"

text \<open>
  The store runs on the pool or on a transaction (\<open>workerQueryer\<close>): \<open>query\<close> is the one's or the
  other's \<open>QueryRow\<close>.
\<close>

definition get_processing_job ::
  "(processing_job_row stmt \<Rightarrow> 's \<Rightarrow> processing_job_row result \<times> 's)
     \<Rightarrow> int64 \<Rightarrow> int64 \<Rightarrow> 's \<Rightarrow> worker_processing_job result \<times> 's" where
  "get_processing_job query job_id work_item_id s =
     (case query (select_job_stmt job_id) s of
        (Inl e, s') \<Rightarrow>
          (if errors_is e PgxErrNoRows then (Inl job_not_found, s')
           else (Inl (Wrap ''inspect processing job'' e), s'))
      | (Inr row, s') \<Rightarrow>
          (let job = scan_worker_processing_job row in
           if wj_WorkItemID job \<noteq> work_item_id then (Inl job_mismatch, s') else (Inr job, s')))"

section \<open>Recording a failed attempt\<close>

definition open_job :: "int64 \<Rightarrow> int64 \<Rightarrow> processing_job_row \<Rightarrow> bool" where
  "open_job job_id work_item_id r =
     (pj_id r = job_id \<and> pj_work_item_id r = work_item_id \<and> pj_state r = Accepted)"

definition record_failure_row ::
  "string \<Rightarrow> int \<Rightarrow> timestamp \<Rightarrow> processing_job_row \<Rightarrow> processing_job_row" where
  "record_failure_row error_code max_attempts now r =
     r\<lparr>pj_attempt_count := pj_attempt_count r + 1,
       pj_last_error_code := Some error_code,
       pj_state := (if pj_attempt_count r + 1 \<ge> max_attempts then Failed else Accepted),
       pj_finished_at := (if pj_attempt_count r + 1 \<ge> max_attempts then Some now else None)\<rparr>"

definition record_failure_stmt ::
  "int64 \<Rightarrow> int64 \<Rightarrow> string \<Rightarrow> int \<Rightarrow> processing_job_row stmt" where
  "record_failure_stmt job_id work_item_id error_code max_attempts now d sq =
     (query_row (map (record_failure_row error_code max_attempts now)
        (select_where (open_job job_id work_item_id) (processing_jobs d))),
      (\<lambda>d. d\<lparr>processing_jobs :=
        update_where (open_job job_id work_item_id)
          (record_failure_row error_code max_attempts now) (processing_jobs d)\<rparr>),
      sq)"

text \<open>The second half, after the guarded update matched no row.\<close>

definition classify_unrecorded ::
  "int64 \<Rightarrow> worker_processing_job \<Rightarrow> processing_failure result" where
  "classify_unrecorded work_item_id job =
     (if wj_WorkItemID job \<noteq> work_item_id then Inl job_mismatch
      else if wj_State job = Succeeded \<or> wj_State job = Failed then
        Inr \<lparr>pf_Disposition = processingFailureAlreadyTerminal, pf_Job = job\<rparr>
      else Inl job_conflict)"

definition record_processing_failure ::
  "int64 \<Rightarrow> int64 \<Rightarrow> string \<Rightarrow> int \<Rightarrow> world \<Rightarrow> processing_failure result \<times> world" where
  "record_processing_failure job_id work_item_id error_code max_attempts w =
     (if max_attempts \<le> 0 then (Inl (Opaque ''max attempts must be positive''), w)
      else if error_code = [] then (Inl (Opaque ''error code must not be empty''), w)
      else case exec_auto (record_failure_stmt job_id work_item_id error_code max_attempts) w of
        (Inr row, w') \<Rightarrow>
          (let job = scan_worker_processing_job row in
           if wj_State job = Accepted then
             (Inr \<lparr>pf_Disposition = processingFailureRetryable, pf_Job = job\<rparr>, w')
           else if wj_State job = Failed then
             (Inr \<lparr>pf_Disposition = processingFailureTerminal, pf_Job = job\<rparr>, w')
           else (Inl job_conflict, w'))
      | (Inl e, w') \<Rightarrow>
          (if \<not> errors_is e PgxErrNoRows then (Inl (Wrap ''record processing failure'' e), w')
           else (case exec_auto (select_job_stmt job_id) w' of
             (Inl e2, w'') \<Rightarrow>
               (if errors_is e2 PgxErrNoRows then (Inl job_not_found, w'')
                else (Inl (Wrap ''inspect processing job after guarded failure recording'' e2), w''))
           | (Inr row, w'') \<Rightarrow>
               (classify_unrecorded work_item_id (scan_worker_processing_job row), w''))))"

section \<open>Title analysis\<close>

definition analyze_title :: "string \<Rightarrow> nat \<times> nat" where
  "analyze_title title = (rune_count title, length (strings_fields title))"

section \<open>Business completion\<close>

definition select_item_stmt :: "int64 \<Rightarrow> work_item_row stmt" where
  "select_item_stmt work_item_id now d sq =
     (query_row (select_where (\<lambda>r. wi_id r = work_item_id) (work_items d)), id, sq)"

definition insert_result_stmt :: "int64 \<Rightarrow> int64 \<Rightarrow> string \<Rightarrow> nat \<Rightarrow> nat \<Rightarrow> unit stmt" where
  "insert_result_stmt work_item_id job_id title characters words now d sq =
     (Inr (),
      (\<lambda>d. d\<lparr>work_item_results :=
        insert_row
          \<lparr>wr_work_item_id = work_item_id, wr_processing_job_id = job_id, wr_input_title = title,
           wr_analysis_version = 1, wr_character_count = int characters,
           wr_word_count = int words\<rparr>
          (work_item_results d)\<rparr>),
      sq)"

definition pending_item :: "int64 \<Rightarrow> work_item_row \<Rightarrow> bool" where
  "pending_item work_item_id r = (wi_id r = work_item_id \<and> wi_status r = Pending)"

definition finish_item_stmt :: "int64 \<Rightarrow> nat stmt" where
  "finish_item_stmt work_item_id now d sq =
     (Inr (rows_affected (pending_item work_item_id) (work_items d)),
      (\<lambda>d. d\<lparr>work_items :=
        update_where (pending_item work_item_id) (\<lambda>r. r\<lparr>wi_status := Done\<rparr>) (work_items d)\<rparr>),
      sq)"

definition succeed_row :: "timestamp \<Rightarrow> processing_job_row \<Rightarrow> processing_job_row" where
  "succeed_row now r =
     r\<lparr>pj_state := Succeeded, pj_attempt_count := pj_attempt_count r + 1,
       pj_last_error_code := None, pj_finished_at := Some now\<rparr>"

definition succeed_job_stmt :: "int64 \<Rightarrow> int64 \<Rightarrow> processing_job_row stmt" where
  "succeed_job_stmt job_id work_item_id now d sq =
     (query_row (map (succeed_row now)
        (select_where (open_job job_id work_item_id) (processing_jobs d))),
      (\<lambda>d. d\<lparr>processing_jobs :=
        update_where (open_job job_id work_item_id) (succeed_row now) (processing_jobs d)\<rparr>),
      sq)"

text \<open>
  The transaction from the item's row on: the result, the two guarded updates and the commit. Every
  early return runs the deferred rollback.
\<close>

definition complete_pending_item ::
  "int64 \<Rightarrow> int64 \<Rightarrow> tx \<Rightarrow> processing_completion result \<times> world" where
  "complete_pending_item job_id work_item_id x =
     (case exec_tx (select_item_stmt work_item_id) x of
        (Inl e, x) \<Rightarrow> (Inl e, rollback_tx x)
      | (Inr item, x) \<Rightarrow>
     if wi_status item \<noteq> Pending then
       (Inl (Sentinel WorkerErrWorkItemNotPending), rollback_tx x)
     else
     (case analyze_title (wi_title item) of (characters, words) \<Rightarrow>
     (case exec_tx (insert_result_stmt work_item_id job_id (wi_title item) characters words) x of
        (Inl e, x) \<Rightarrow> (Inl e, rollback_tx x)
      | (Inr _, x) \<Rightarrow>
     (case exec_tx (finish_item_stmt work_item_id) x of
        (Inl e, x) \<Rightarrow> (Inl e, rollback_tx x)
      | (Inr affected, x) \<Rightarrow>
     if affected \<noteq> 1 then (Inl (Sentinel WorkerErrProcessingJobConflict), rollback_tx x)
     else
     (case exec_tx (succeed_job_stmt job_id work_item_id) x of
        (Inl e, x) \<Rightarrow> (Inl (Wrap ''guarded job completion'' e), rollback_tx x)
      | (Inr row, x) \<Rightarrow>
     (case commit_tx x of
        (Inl e, w) \<Rightarrow> (Inl (Wrap ''commit business completion (outcome may be uncertain)'' e), w)
      | (Inr _, w) \<Rightarrow>
          (Inr \<lparr>pc_Disposition = completionApplied, pc_Job = scan_worker_processing_job row\<rparr>,
           w)))))))"

definition complete_processing_job ::
  "int64 \<Rightarrow> int64 \<Rightarrow> world \<Rightarrow> processing_completion result \<times> world" where
  "complete_processing_job job_id work_item_id w =
     (case begin_tx w of
        (Inl e, x) \<Rightarrow> (Inl (Wrap ''begin business completion'' e), rollback_tx x)
      | (Inr _, x) \<Rightarrow>
     (case exec_tx (ItemLockSQL work_item_id) x of
        (Inl e, x) \<Rightarrow> (Inl e, rollback_tx x)
      | (Inr _, x) \<Rightarrow>
     (case get_processing_job exec_tx job_id work_item_id x of
        (Inl e, x) \<Rightarrow> (Inl e, rollback_tx x)
      | (Inr job, x) \<Rightarrow>
     if wj_State job = Succeeded \<or> wj_State job = Failed then
       (Inr \<lparr>pc_Disposition = completionAlreadyTerminal, pc_Job = job\<rparr>, rollback_tx x)
     else complete_pending_item job_id work_item_id x)))"

section \<open>The statements keep their contract\<close>

lemma is_query_row_Inr: "query_row rs = Inr r \<Longrightarrow> r \<in> set rs"
  by (auto simp: query_row_def split: list.splits)

interpretation failure_update: row_history pj_id "record_failure_row c m now" job_continues "open_job j i"
  for c m now j i
  by unfold_locales
     (auto simp: record_failure_row_def job_continues_def open_job_def terminal_def)

interpretation success_update: row_history pj_id "succeed_row now" job_continues "open_job j i"
  for now j i
  by unfold_locales (auto simp: succeed_row_def job_continues_def open_job_def terminal_def)

interpretation done_update: row_history wi_id "wi_status_update (\<lambda>_. Done)" item_continues "pending_item i"
  for i
  by unfold_locales (auto simp: item_continues_def)

interpretation select_job: statement "select_job_stmt job_id" for job_id
  by unfold_locales (auto simp: select_job_stmt_def)

interpretation select_item: statement "select_item_stmt i" for i
  by unfold_locales (auto simp: select_item_stmt_def)

interpretation record_failure: statement "record_failure_stmt j i c m" for j i c m
  by unfold_locales
     (auto simp: record_failure_stmt_def ids_from_def seqs_ok_def failure_update.keys_kept
           intro!: keeps_history_jobs failure_update.update_continues)

interpretation insert_result: statement "insert_result_stmt i j t c n" for i j t c n
  by unfold_locales
     (auto simp: insert_result_stmt_def ids_from_def seqs_ok_def
           intro!: keeps_history_results table_continues_insert)

interpretation finish_item: statement "finish_item_stmt i" for i
  by unfold_locales
     (auto simp: finish_item_stmt_def ids_from_def seqs_ok_def done_update.keys_kept
           intro!: keeps_history_items done_update.update_continues)

interpretation succeed_job: statement "succeed_job_stmt j i" for j i
  by unfold_locales
     (auto simp: succeed_job_stmt_def ids_from_def seqs_ok_def success_update.keys_kept
           intro!: keeps_history_jobs success_update.update_continues)

section \<open>Every operation keeps the database valid and continues its history\<close>

lemma get_processing_job_evolves:
  "get_processing_job exec_auto j i w = (r, w') \<Longrightarrow> evolves w w'"
  by (auto simp: get_processing_job_def Let_def split: prod.splits sum.splits if_splits
           dest: select_job.exec_auto_evolves)

lemma get_processing_job_tx_evolves:
  "get_processing_job exec_tx j i x = (r, x') \<Longrightarrow> tx_evolves x x'"
  by (auto simp: get_processing_job_def Let_def split: prod.splits sum.splits if_splits
           dest: select_job.exec_tx_evolves)

lemma record_processing_failure_evolves:
  "record_processing_failure j i c m w = (r, w') \<Longrightarrow> evolves w w'"
  by (auto simp: record_processing_failure_def Let_def split: prod.splits sum.splits if_splits
           dest!: select_job.exec_auto_evolves record_failure.exec_auto_evolves
           intro: evolves_trans)

lemma complete_pending_item_evolves:
  assumes "complete_pending_item j i x = (r, w')" and "tx_ok x"
  shows "evolves (tx_world x) w'"
  using assms
  by (auto simp: complete_pending_item_def rollback_tx_def split: prod.splits sum.splits if_splits
           dest!: select_item.exec_tx_evolves insert_result.exec_tx_evolves
             finish_item.exec_tx_evolves succeed_job.exec_tx_evolves commit_tx_evolves
           simp: tx_evolves_def)
     (meson evolves_trans)+

lemma complete_processing_job_evolves:
  assumes "complete_processing_job j i w = (r, w')"
  shows "evolves w w'"
proof (cases "world_ok w")
  case True
  obtain r0 x where b: "begin_tx w = (r0, x)" by (metis surj_pair)
  note x = begin_tx_ok [OF b True]
  have "evolves (tx_world x) w'"
    using assms x(1)
    by (auto simp: complete_processing_job_def b rollback_tx_def
             split: prod.splits sum.splits if_splits
             dest!: item_lock.exec_tx_evolves get_processing_job_tx_evolves
             simp: tx_evolves_def)
       (meson evolves_trans complete_pending_item_evolves)+
  with x(2) show ?thesis by (rule evolves_trans)
qed (simp add: evolves_def)

end
