(* ===== verification/Json.thy ===== *)
theory Json
  imports JsonValue GoStrings
begin

text \<open>
  Go's \<open>encoding/json\<close> decoder, as far as the program uses it: \<open>Decoder.Decode\<close> of one value from
  a stream (RFC 8259 syntax, Go's replacement of invalid UTF-8 and lone surrogates, its nesting
  limit), and the assignment of an object's members to the fields of a struct with
  \<open>DisallowUnknownFields\<close>.
\<close>

section \<open>Lexical level\<close>

definition json_ws :: "char \<Rightarrow> bool" where
  "json_ws c = (byte c = 32 \<or> byte c = 9 \<or> byte c = 10 \<or> byte c = 13)"

definition skip_ws :: "bytes \<Rightarrow> bytes" where
  "skip_ws s = dropWhile json_ws s"

definition is_digit :: "char \<Rightarrow> bool" where
  "is_digit c = (48 \<le> byte c \<and> byte c \<le> 57)"

definition hex_value :: "char \<Rightarrow> nat option" where
  "hex_value c =
     (let b = byte c in
      if 48 \<le> b \<and> b \<le> 57 then Some (b - 48)
      else if 97 \<le> b \<and> b \<le> 102 then Some (b - 87)
      else if 65 \<le> b \<and> b \<le> 70 then Some (b - 55)
      else None)"

text \<open>\<open>utf8.AppendRune\<close>; a surrogate or a value beyond U+10FFFF is encoded as U+FFFD.\<close>

definition encode_rune :: "nat \<Rightarrow> bytes" where
  "encode_rune r =
     (let r = (if 55296 \<le> r \<and> r \<le> 57343 \<or> 1114111 < r then rune_error else r) in
      if r < 128 then [char_of r]
      else if r < 2048 then [char_of (192 + r div 64), char_of (128 + r mod 64)]
      else if r < 65536 then
        [char_of (224 + r div 4096), char_of (128 + r div 64 mod 64), char_of (128 + r mod 64)]
      else
        [char_of (240 + r div 262144), char_of (128 + r div 4096 mod 64),
         char_of (128 + r div 64 mod 64), char_of (128 + r mod 64)])"

text \<open>The four hexadecimal digits of a \<open>\u\<close> escape, and what follows them.\<close>

fun hex4 :: "bytes \<Rightarrow> (nat \<times> bytes) option" where
  "hex4 (a # b # c # d # t) =
     (case (hex_value a, hex_value b, hex_value c, hex_value d) of
        (Some w, Some x, Some y, Some z) \<Rightarrow> Some (w * 4096 + x * 256 + y * 16 + z, t)
      | _ \<Rightarrow> None)"
| "hex4 _ = None"

text \<open>
  After a high surrogate: the low surrogate of a second escape, the rune of the pair and what
  follows it.
\<close>

definition low_surrogate :: "nat \<Rightarrow> bytes \<Rightarrow> (nat \<times> bytes) option" where
  "low_surrogate hi s =
     (case s of
        b # u # t \<Rightarrow>
          (if 55296 \<le> hi \<and> hi \<le> 56319 \<and> byte b = 92 \<and> byte u = 117 then
             (case hex4 t of
                Some (lo, t') \<Rightarrow>
                  (if 56320 \<le> lo \<and> lo \<le> 57343
                   then Some (65536 + (hi - 55296) * 1024 + (lo - 56320), t') else None)
              | None \<Rightarrow> None)
           else None)
      | _ \<Rightarrow> None)"

text \<open>One simple escape.\<close>

definition simple_escape :: "char \<Rightarrow> char option" where
  "simple_escape c =
     (if c = CHR 0x22 \<or> c = CHR 0x5C \<or> c = CHR 0x2F then Some c
      else if c = CHR ''b'' then Some (CHR 0x08)
      else if c = CHR ''f'' then Some (CHR 0x0C)
      else if c = CHR ''n'' then Some (CHR 0x0A)
      else if c = CHR ''r'' then Some (CHR 0x0D)
      else if c = CHR ''t'' then Some (CHR 0x09)
      else None)"

text \<open>
  The next piece of a string's body: the bytes it stands for and what follows. \<open>None\<close> is a syntax
  error: a control character, a bad escape, the end of the input.
\<close>

definition string_piece :: "bytes \<Rightarrow> (bytes \<times> bytes) option" where
  "string_piece s =
     (case s of
        [] \<Rightarrow> None
      | c # t \<Rightarrow>
          (if byte c < 32 then None
           else if c = CHR 0x5C then
             (case t of
                [] \<Rightarrow> None
              | e # t' \<Rightarrow>
                  (if e = CHR ''u'' then
                     (case hex4 t' of
                        None \<Rightarrow> None
                      | Some (r, t'') \<Rightarrow>
                          (case low_surrogate r t'' of
                             Some (r', t3) \<Rightarrow> Some (encode_rune r', t3)
                           | None \<Rightarrow> Some (encode_rune r, t'')))
                   else map_option (\<lambda>x. ([x], t')) (simple_escape e)))
           else if byte c < 128 then Some ([c], t)
           else (case decode_rune s of (r, n) \<Rightarrow> Some (encode_rune r, drop n s))))"

lemma hex4_length: "hex4 s = Some (r, t) \<Longrightarrow> length t < length s"
  by (induction s rule: hex4.induct) (auto split: option.splits)

lemma low_surrogate_length: "low_surrogate r s = Some (r', t) \<Longrightarrow> length t < length s"
  by (auto simp: low_surrogate_def split: list.splits if_splits option.splits prod.splits
           dest!: hex4_length)

lemma string_piece_length: "string_piece s = Some (b, t) \<Longrightarrow> length t < length s"
proof (cases s)
  case (Cons c u)
  assume p: "string_piece s = Some (b, t)"
  have w: "1 \<le> snd (decode_rune s)" using decode_rune_width [of s] Cons by simp
  show ?thesis
    using p w Cons
    by (auto simp: string_piece_def split: if_splits list.splits option.splits prod.splits
             dest!: hex4_length low_surrogate_length)
qed (simp add: string_piece_def)

text \<open>The body of a string after its opening quote.\<close>

function string_body :: "bytes \<Rightarrow> (bytes \<times> bytes) option" where
  "string_body s =
     (case s of
        [] \<Rightarrow> None
      | c # t \<Rightarrow>
          (if c = CHR 0x22 then Some ([], t)
           else case string_piece s of
             None \<Rightarrow> None
           | Some (b, u) \<Rightarrow>
               (case string_body u of None \<Rightarrow> None | Some (bs, r) \<Rightarrow> Some (b @ bs, r))))"
  by pat_completeness auto
termination
  by (relation "measure length") (auto dest: string_piece_length)

declare string_body.simps [simp del]

lemma string_body_length: "string_body s = Some (b, t) \<Longrightarrow> length t < length s"
proof (induction s arbitrary: b t rule: string_body.induct)
  case (1 s)
  show ?case
  proof (cases s)
    case Nil
    with "1.prems" show ?thesis by (simp add: string_body.simps)
  next
    case (Cons c u)
    show ?thesis
    proof (cases "c = CHR 0x22")
      case True
      with "1.prems" Cons show ?thesis by (simp add: string_body.simps)
    next
      case False
      with "1.prems" Cons obtain b1 u1 bs where p: "string_piece s = Some (b1, u1)"
        and body: "string_body u1 = Some (bs, t)"
        by (auto simp: string_body.simps [of "c # u"] split: option.splits)
      from "1.IH" [OF Cons False p] body have "length t < length u1" by simp
      with string_piece_length [OF p] show ?thesis by simp
    qed
  qed
qed

text \<open>A number literal and what follows it.\<close>

definition span_digits :: "bytes \<Rightarrow> bytes \<times> bytes" where
  "span_digits s = (takeWhile is_digit s, dropWhile is_digit s)"

definition number_sign :: "bytes \<Rightarrow> bytes \<times> bytes" where
  "number_sign s = (case s of c # t \<Rightarrow> if c = CHR ''-'' then ([c], t) else ([], s) | [] \<Rightarrow> ([], []))"

definition number_int :: "bytes \<Rightarrow> (bytes \<times> bytes) option" where
  "number_int s =
     (case s of
        [] \<Rightarrow> None
      | c # t \<Rightarrow>
          (if \<not> is_digit c then None
           else if c = CHR ''0'' then Some ([c], t)
           else Some (span_digits s)))"

definition number_frac :: "bytes \<Rightarrow> (bytes \<times> bytes) option" where
  "number_frac s =
     (case s of
        c # t \<Rightarrow>
          (if c = CHR ''.'' then
             (case span_digits t of (ds, u) \<Rightarrow> if ds = [] then None else Some (c # ds, u))
           else Some ([], s))
      | [] \<Rightarrow> Some ([], []))"

definition exp_sign :: "bytes \<Rightarrow> bytes \<times> bytes" where
  "exp_sign s =
     (case s of
        c # t \<Rightarrow> if c = CHR ''-'' \<or> c = CHR ''+'' then ([c], t) else ([], s)
      | [] \<Rightarrow> ([], []))"

definition number_exp :: "bytes \<Rightarrow> (bytes \<times> bytes) option" where
  "number_exp s =
     (case s of
        c # t \<Rightarrow>
          (if c = CHR ''e'' \<or> c = CHR ''E'' then
             (case exp_sign t of (sg, t') \<Rightarrow>
              (case span_digits t' of (ds, u) \<Rightarrow> if ds = [] then None else Some (c # sg @ ds, u)))
           else Some ([], s))
      | [] \<Rightarrow> Some ([], []))"

definition number_literal :: "bytes \<Rightarrow> (bytes \<times> bytes) option" where
  "number_literal s =
     (case number_sign s of (sg, s1) \<Rightarrow>
      (case number_int s1 of None \<Rightarrow> None | Some (i, s2) \<Rightarrow>
       (case number_frac s2 of None \<Rightarrow> None | Some (f, s3) \<Rightarrow>
        (case number_exp s3 of None \<Rightarrow> None | Some (e, s4) \<Rightarrow> Some (sg @ i @ f @ e, s4)))))"

lemma number_sign_split: "number_sign s = (a, t) \<Longrightarrow> s = a @ t"
  by (auto simp: number_sign_def split: list.splits if_splits)

lemma number_int_split: "number_int s = Some (a, t) \<Longrightarrow> s = a @ t \<and> a \<noteq> []"
  by (auto simp: number_int_def span_digits_def split: list.splits if_splits)

lemma number_frac_split: "number_frac s = Some (a, t) \<Longrightarrow> s = a @ t"
  by (auto simp: number_frac_def span_digits_def split: list.splits if_splits)

lemma number_exp_split: "number_exp s = Some (a, t) \<Longrightarrow> s = a @ t"
  by (auto simp: number_exp_def span_digits_def exp_sign_def split: list.splits if_splits prod.splits)

lemma number_literal_split: "number_literal s = Some (l, t) \<Longrightarrow> s = l @ t \<and> l \<noteq> []"
  by (auto simp: number_literal_def split: option.splits prod.splits
           dest!: number_sign_split number_int_split number_frac_split number_exp_split)

lemma number_literal_length: "number_literal s = Some (l, t) \<Longrightarrow> length t < length s"
  by (drule number_literal_split) auto

section \<open>Values\<close>

text \<open>
  A literal, a number or a string: a value without parts, and what follows it.
\<close>

definition strip_prefix :: "bytes \<Rightarrow> bytes \<Rightarrow> bytes option" where
  "strip_prefix p s = (if take (length p) s = p then Some (drop (length p) s) else None)"

definition parse_scalar :: "bytes \<Rightarrow> (json \<times> bytes) option" where
  "parse_scalar s =
     (case s of
        [] \<Rightarrow> None
      | c # t \<Rightarrow>
          (if c = CHR 0x22 then map_option (\<lambda>(str, r). (JStr str, r)) (string_body t)
           else if c = CHR ''n'' then map_option (\<lambda>r. (JNull, r)) (strip_prefix ''null'' s)
           else if c = CHR ''t'' then map_option (\<lambda>r. (JBool True, r)) (strip_prefix ''true'' s)
           else if c = CHR ''f'' then map_option (\<lambda>r. (JBool False, r)) (strip_prefix ''false'' s)
           else map_option (\<lambda>(l, r). (JNum l, r)) (number_literal s)))"

lemma strip_prefix_length: "strip_prefix p s = Some t \<Longrightarrow> p \<noteq> [] \<Longrightarrow> s \<noteq> [] \<Longrightarrow> length t < length s"
  by (auto simp: strip_prefix_def split: if_splits)

lemma parse_scalar_length: "parse_scalar s = Some (v, t) \<Longrightarrow> length t < length s"
  by (auto simp: parse_scalar_def split: list.splits if_splits
           dest: string_body_length strip_prefix_length dest!: number_literal_length)

lemma skip_ws_length [simp]: "length (skip_ws s) \<le> length s"
  by (simp add: skip_ws_def length_dropWhile_le)

lemma skip_ws_ConsD: "skip_ws s = c # t \<Longrightarrow> length t < length s"
  using skip_ws_length [of s] by simp

text \<open>
  The arrays and objects begun and not ended, innermost first, as the decoder's scanner stacks
  them: the elements or members so far in reverse, and the name whose value is being read.
\<close>

datatype frame =
    FArr "json list"
  | FObj "(string \<times> json) list" string

definition max_nesting :: nat where
  "max_nesting = 10000"

text \<open>
  \<open>finish\<close> continues after a complete value, \<open>parse_name\<close> where a member's name must come,
  \<open>parse_value\<close> where a value must come. Each step consumes input.
\<close>

function finish :: "frame list \<Rightarrow> json \<Rightarrow> bytes \<Rightarrow> (json \<times> bytes) option"
  and parse_name :: "(string \<times> json) list \<Rightarrow> frame list \<Rightarrow> bytes \<Rightarrow> (json \<times> bytes) option"
  and parse_value :: "frame list \<Rightarrow> bytes \<Rightarrow> (json \<times> bytes) option" where
  "finish [] v s = Some (v, s)"
| "finish (FArr vs # k) v s =
     (case skip_ws s of
        [] \<Rightarrow> None
      | c # t \<Rightarrow>
          (if c = CHR '','' then parse_value (FArr (v # vs) # k) t
           else if c = CHR '']'' then finish k (JArr (rev (v # vs))) t
           else None))"
| "finish (FObj kvs nm # k) v s =
     (case skip_ws s of
        [] \<Rightarrow> None
      | c # t \<Rightarrow>
          (if c = CHR '','' then parse_name ((nm, v) # kvs) k t
           else if c = CHR ''}'' then finish k (JObj (rev ((nm, v) # kvs))) t
           else None))"
| "parse_name kvs k s =
     (case skip_ws s of
        [] \<Rightarrow> None
      | c # t \<Rightarrow>
          (if c = CHR 0x22 then
             (case string_body t of
                None \<Rightarrow> None
              | Some (nm, t2) \<Rightarrow>
                  (case skip_ws t2 of
                     [] \<Rightarrow> None
                   | d # t3 \<Rightarrow> if d = CHR '':'' then parse_value (FObj kvs nm # k) t3 else None))
           else None))"
| "parse_value k s =
     (case skip_ws s of
        [] \<Rightarrow> None
      | c # t \<Rightarrow>
          (if c = CHR ''['' then
             (if length k < max_nesting then
                (case skip_ws t of
                   [] \<Rightarrow> None
                 | d # u \<Rightarrow>
                     if d = CHR '']'' then finish k (JArr []) u else parse_value (FArr [] # k) t)
              else None)
           else if c = CHR ''{'' then
             (if length k < max_nesting then
                (case skip_ws t of
                   [] \<Rightarrow> None
                 | d # u \<Rightarrow>
                     if d = CHR ''}'' then finish k (JObj []) u else parse_name [] k t)
              else None)
           else (case parse_scalar (c # t) of None \<Rightarrow> None | Some (v, r) \<Rightarrow> finish k v r)))"
  by pat_completeness auto
termination
proof (relation "measure (\<lambda>x. case x of
    Inl (k, v, s) \<Rightarrow> length s | Inr (Inl (kvs, k, s)) \<Rightarrow> length s | Inr (Inr (k, s)) \<Rightarrow> length s)")
qed (auto dest!: skip_ws_ConsD string_body_length parse_scalar_length)

declare finish.simps [simp del] parse_name.simps [simp del] parse_value.simps [simp del]

section \<open>Streams\<close>

text \<open>
  \<open>Decoder.Decode\<close> up to the value: the next value of the stream and what follows it, \<open>io.EOF\<close>
  when only white space is left, another error when what is left is no value.
\<close>

definition json_next :: "bytes \<Rightarrow> (json \<times> bytes) result" where
  "json_next s =
     (if skip_ws s = [] then Inl (Sentinel IoEOF)
      else case parse_value [] s of
        None \<Rightarrow> Inl (Opaque ''invalid JSON'')
      | Some r \<Rightarrow> Inr r)"

section \<open>Assigning members to struct fields\<close>

text \<open>
  A member's name selects the field of that name, or the field whose name folds the same. The
  field names of the program are ASCII, so what folds matters only for ASCII letters and the two
  other runes that fold to some: the Kelvin sign (to K) and the long s (to S).
\<close>

fun fold_name :: "bytes \<Rightarrow> bytes" where
  "fold_name (a # b # c # t) =
     (if byte a = 226 \<and> byte b = 132 \<and> byte c = 170 then CHR ''K'' # fold_name t
      else if byte a = 197 \<and> byte b = 191 then CHR ''S'' # fold_name (c # t)
      else ascii_upper a # fold_name (b # c # t))"
| "fold_name [a, b] =
     (if byte a = 197 \<and> byte b = 191 then [CHR ''S''] else [ascii_upper a, ascii_upper b])"
| "fold_name [a] = [ascii_upper a]"
| "fold_name [] = []"

definition field_matches :: "string \<Rightarrow> string \<Rightarrow> bool" where
  "field_matches field nm = (nm = field \<or> fold_name nm = fold_name field)"

text \<open>
  Setting a \<open>string\<close> or an \<open>int64\<close> field: null leaves it as it is, a value of another type or a
  number that is no \<open>int64\<close> literal is an error (\<open>None\<close>).
\<close>

definition set_string :: "(string \<Rightarrow> 'm \<Rightarrow> 'm) \<Rightarrow> json \<Rightarrow> 'm \<Rightarrow> 'm option" where
  "set_string upd v m =
     (case v of JNull \<Rightarrow> Some m | JStr s \<Rightarrow> Some (upd s m) | _ \<Rightarrow> None)"

definition set_int64 :: "(int \<Rightarrow> 'm \<Rightarrow> 'm) \<Rightarrow> json \<Rightarrow> 'm \<Rightarrow> 'm option" where
  "set_int64 upd v m =
     (case v of
        JNull \<Rightarrow> Some m
      | JNum l \<Rightarrow> map_option (\<lambda>n. upd n m) (parse_int64 l)
      | _ \<Rightarrow> None)"

text \<open>
  A struct type is the list of its fields, each with its setter; with \<open>DisallowUnknownFields\<close> a
  member that selects none is an error. Members are assigned in the order of the text, so a later
  one overwrites an earlier one of the same field. A top-level null leaves the struct as it is.
\<close>

type_synonym 'm struct_fields = "(string \<times> (json \<Rightarrow> 'm \<Rightarrow> 'm option)) list"

definition set_member :: "'m struct_fields \<Rightarrow> string \<times> json \<Rightarrow> 'm \<Rightarrow> 'm option" where
  "set_member fs kv m =
     (case find (\<lambda>f. field_matches (fst f) (fst kv)) fs of
        None \<Rightarrow> None
      | Some f \<Rightarrow> snd f (snd kv) m)"

fun set_members :: "'m struct_fields \<Rightarrow> (string \<times> json) list \<Rightarrow> 'm \<Rightarrow> 'm option" where
  "set_members fs [] m = Some m"
| "set_members fs (kv # kvs) m =
     (case set_member fs kv m of None \<Rightarrow> None | Some m' \<Rightarrow> set_members fs kvs m')"

definition decode_struct :: "'m struct_fields \<Rightarrow> json \<Rightarrow> 'm \<Rightarrow> 'm option" where
  "decode_struct fs v m =
     (case v of JNull \<Rightarrow> Some m | JObj kvs \<Rightarrow> set_members fs kvs m | _ \<Rightarrow> None)"

end
