(* ===== verification/WorkerMessage.thy ===== *)
theory WorkerMessage
  imports WorkerStore Json
begin

text \<open>
  \<open>worker/message.go\<close> and \<open>worker/processor.go\<close>: decoding and validating a message, and the handler
  that turns a payload into store calls and a settlement.
\<close>

section \<open>The message\<close>

definition workItemProcessMessageType :: string where
  "workItemProcessMessageType = ''work_item.process''"

definition workItemProcessMessageVersion :: int where
  "workItemProcessMessageVersion = 1"

definition workerProcessingFailureCode :: string where
  "workerProcessingFailureCode = ''processing_failed''"

definition workerProcessingMaxAttempts :: int where
  "workerProcessingMaxAttempts = 3"

record worker_message =
  wm_Type :: string
  wm_Version :: int
  wm_JobID :: int64
  wm_WorkItemID :: int64

definition zero_message :: worker_message where
  "zero_message = \<lparr>wm_Type = [], wm_Version = 0, wm_JobID = 0, wm_WorkItemID = 0\<rparr>"

definition worker_message_fields :: "worker_message struct_fields" where
  "worker_message_fields =
     [(''type'', set_string (\<lambda>s m. m\<lparr>wm_Type := s\<rparr>)),
      (''version'', set_int64 (\<lambda>n m. m\<lparr>wm_Version := n\<rparr>)),
      (''job_id'', set_int64 (\<lambda>n m. m\<lparr>wm_JobID := n\<rparr>)),
      (''work_item_id'', set_int64 (\<lambda>n m. m\<lparr>wm_WorkItemID := n\<rparr>))]"

definition decode_worker_message :: "bytes \<Rightarrow> worker_message result" where
  "decode_worker_message payload =
     (case json_next payload of
        Inl e \<Rightarrow> Inl (Wrap ''decode worker message'' e)
      | Inr (v, rest) \<Rightarrow>
     (case decode_struct worker_message_fields v zero_message of
        None \<Rightarrow> Inl (Wrap ''decode worker message'' (Opaque ''json''))
      | Some message \<Rightarrow>
     (case json_next rest of
        Inr _ \<Rightarrow> Inl (Opaque ''decode worker message: trailing JSON value'')
      | Inl err \<Rightarrow>
          (if errors_is err IoEOF then Inr message
           else Inl (Wrap ''decode worker message trailing data'' err)))))"

definition validate_worker_message :: "worker_message \<Rightarrow> go_error option" where
  "validate_worker_message m =
     (if wm_Type m \<noteq> workItemProcessMessageType then Some (Opaque ''unsupported worker message type'')
      else if wm_Version m \<noteq> workItemProcessMessageVersion then
        Some (Opaque ''unsupported worker message version'')
      else if wm_JobID m \<le> 0 then Some (Opaque ''invalid worker message job_id'')
      else if wm_WorkItemID m \<le> 0 then Some (Opaque ''invalid worker message work_item_id'')
      else None)"

section \<open>The handler's collaborators\<close>

text \<open>The interface \<open>processingJobCompleter\<close> and the interface \<open>processingJobProcessor\<close>.\<close>

record 's job_completer =
  GetProcessingJob :: "int64 \<Rightarrow> int64 \<Rightarrow> 's \<Rightarrow> worker_processing_job result \<times> 's"
  CompleteProcessingJob :: "int64 \<Rightarrow> int64 \<Rightarrow> 's \<Rightarrow> processing_completion result \<times> 's"
  RecordProcessingFailure ::
    "int64 \<Rightarrow> int64 \<Rightarrow> string \<Rightarrow> int \<Rightarrow> 's \<Rightarrow> processing_failure result \<times> 's"

type_synonym 's processor = "worker_message \<Rightarrow> 's \<Rightarrow> go_error option \<times> 's"

definition successful_processor :: "'s processor" where
  "successful_processor m s = (None, s)"

section \<open>The handler\<close>

definition settlementAck :: string where "settlementAck = ''ack''"
definition settlementReject :: string where "settlementReject = ''reject_no_requeue''"
definition settlementNackRequeue :: string where "settlementNackRequeue = ''nack_requeue''"

lemmas settlement_defs = settlementAck_def settlementReject_def settlementNackRequeue_def

lemma settlements_distinct [simp]:
  "settlementAck \<noteq> settlementReject" "settlementReject \<noteq> settlementAck"
  "settlementAck \<noteq> settlementNackRequeue" "settlementNackRequeue \<noteq> settlementAck"
  "settlementReject \<noteq> settlementNackRequeue" "settlementNackRequeue \<noteq> settlementReject"
  by (simp_all add: settlement_defs)

type_synonym 's handling = "(string \<times> go_error option) \<times> 's"

text \<open>What a failed inspection of the job settles.\<close>

definition inspection_failed :: "go_error \<Rightarrow> string \<times> go_error option" where
  "inspection_failed err =
     (if errors_is err WorkerErrProcessingJobNotFound then
        (settlementReject, Some (Wrap ''reject unknown processing job'' err))
      else if errors_is err WorkerErrProcessingJobMismatch then
        (settlementReject, Some (Wrap ''reject processing job identity mismatch'' err))
      else (settlementNackRequeue, Some (Wrap ''processing job inspection unavailable'' err)))"

text \<open>The processor returned \<open>processing_err\<close>: record it, and settle by what was recorded.\<close>

definition handle_processing_failure ::
  "'s job_completer \<Rightarrow> worker_message \<Rightarrow> go_error \<Rightarrow> 's \<Rightarrow> 's handling" where
  "handle_processing_failure store message processing_err s =
     (case RecordProcessingFailure store (wm_JobID message) (wm_WorkItemID message)
             workerProcessingFailureCode workerProcessingMaxAttempts s of
        (Inl failure_err, s') \<Rightarrow>
          (if errors_is failure_err WorkerErrProcessingJobNotFound then
             ((settlementReject, errors_join
                [Some (Wrap ''process work item job'' processing_err),
                 Some (Wrap ''reject unknown processing job while recording failure'' failure_err)]), s')
           else if errors_is failure_err WorkerErrProcessingJobMismatch then
             ((settlementReject, errors_join
                [Some (Wrap ''process work item job'' processing_err),
                 Some (Wrap ''reject processing job identity mismatch while recording failure'' failure_err)]),
              s')
           else
             ((settlementNackRequeue, errors_join
                [Some (Wrap ''process work item job'' processing_err),
                 Some (Wrap ''record processing failure'' failure_err)]), s'))
      | (Inr failure, s') \<Rightarrow>
          (if pf_Disposition failure = processingFailureRetryable then
             ((settlementNackRequeue, Some (Wrap ''process work item job'' processing_err)), s')
           else if pf_Disposition failure = processingFailureTerminal
             \<or> pf_Disposition failure = processingFailureAlreadyTerminal then
             ((settlementAck, None), s')
           else ((settlementNackRequeue, Some (Opaque ''unexpected processing failure disposition'')), s')))"

text \<open>The processor succeeded: complete the job, and settle by the outcome.\<close>

definition handle_completion :: "'s job_completer \<Rightarrow> worker_message \<Rightarrow> 's \<Rightarrow> 's handling" where
  "handle_completion store message s =
     (case CompleteProcessingJob store (wm_JobID message) (wm_WorkItemID message) s of
        (Inl err, s') \<Rightarrow>
          (if errors_is err WorkerErrWorkItemNotPending then
             ((settlementReject, Some (Wrap ''reject inconsistent Work Item state'' err)), s')
           else if errors_is err WorkerErrProcessingJobNotFound then
             ((settlementReject, Some (Wrap ''reject unknown processing job'' err)), s')
           else if errors_is err WorkerErrProcessingJobMismatch then
             ((settlementReject, Some (Wrap ''reject processing job identity mismatch'' err)), s')
           else ((settlementNackRequeue, Some (Wrap ''processing job completion unavailable'' err)), s'))
      | (Inr completion, s') \<Rightarrow>
          (if pc_Disposition completion = completionApplied then ((settlementAck, None), s')
           else if pc_Disposition completion = completionAlreadyTerminal then ((settlementAck, None), s')
           else ((settlementNackRequeue, Some (Opaque ''unexpected processing completion disposition'')), s')))"

definition handle_worker_message_with_processor ::
  "'s job_completer \<Rightarrow> 's processor \<Rightarrow> bytes \<Rightarrow> 's \<Rightarrow> 's handling" where
  "handle_worker_message_with_processor store processor payload s =
     (case decode_worker_message payload of
        Inl err \<Rightarrow> ((settlementReject, Some err), s)
      | Inr message \<Rightarrow>
     (case validate_worker_message message of
        Some err \<Rightarrow> ((settlementReject, Some err), s)
      | None \<Rightarrow>
     (case GetProcessingJob store (wm_JobID message) (wm_WorkItemID message) s of
        (Inl err, s1) \<Rightarrow> (inspection_failed err, s1)
      | (Inr job, s1) \<Rightarrow>
          (if wj_State job = Succeeded \<or> wj_State job = Failed then ((settlementAck, None), s1)
           else if wj_State job \<noteq> Accepted then
             ((settlementNackRequeue, Some (Wrap ''unexpected_state'' (Sentinel WorkerErrProcessingJobConflict))),
              s1)
           else
             (case processor message s1 of
                (Some processing_err, s2) \<Rightarrow> handle_processing_failure store message processing_err s2
              | (None, s2) \<Rightarrow> handle_completion store message s2)))))"

definition handle_worker_message :: "'s job_completer \<Rightarrow> bytes \<Rightarrow> 's \<Rightarrow> 's handling" where
  "handle_worker_message store payload s =
     handle_worker_message_with_processor store successful_processor payload s"

text \<open>A message the worker accepts: decoded and valid.\<close>

definition accepted_message :: "bytes \<Rightarrow> worker_message \<Rightarrow> bool" where
  "accepted_message payload m =
     (decode_worker_message payload = Inr m \<and> validate_worker_message m = None)"

lemmas handler_defs =
  handle_worker_message_with_processor_def handle_processing_failure_def handle_completion_def
  inspection_failed_def

text \<open>Every path ends in one of the three settlements; only an acknowledgement comes without error.\<close>

lemma handler_settles:
  assumes "handle_worker_message_with_processor store processor payload s = ((st, err), s')"
  shows "st \<in> {settlementAck, settlementReject, settlementNackRequeue}"
    and "st = settlementAck \<longleftrightarrow> err = None"
  using assms
  by (auto simp: handler_defs split: sum.splits prod.splits option.splits if_splits)
     (metis not_None_eq)+

text \<open>A payload that is no accepted message is rejected before any store call.\<close>

lemma handler_rejects_unaccepted:
  assumes "\<nexists>m. accepted_message payload m"
  shows "\<exists>err. handle_worker_message_with_processor store processor payload s = ((settlementReject, Some err), s)"
proof (cases "decode_worker_message payload")
  case (Inl e)
  then show ?thesis by (simp add: handler_defs)
next
  case (Inr m)
  with assms obtain e where "validate_worker_message m = Some e"
    unfolding accepted_message_def by (metis not_None_eq)
  with Inr show ?thesis by (simp add: handler_defs)
qed

section \<open>The contract of the store\<close>

text \<open>
  What the handler relies on, for a store whose states carry jobs: \<open>settled s j i\<close> says job \<open>j\<close> of
  item \<open>i\<close> has reached a terminal state. An inspection that reports a terminal state, a recorded
  failure that reports a terminal one, and any reported completion leave the job settled; no
  operation of the store, and no run of the processor, unsettles a job.
\<close>

locale completer =
  fixes store :: "'s job_completer" and processor :: "'s processor"
    and inv :: "'s \<Rightarrow> bool" and settled :: "'s \<Rightarrow> int64 \<Rightarrow> int64 \<Rightarrow> bool"
  assumes inspect_settled:
      "inv s \<Longrightarrow> GetProcessingJob store j i s = (Inr job, s') \<Longrightarrow>
         wj_State job = Succeeded \<or> wj_State job = Failed \<Longrightarrow> settled s' j i"
    and complete_settled:
      "inv s \<Longrightarrow> CompleteProcessingJob store j i s = (Inr c, s') \<Longrightarrow> settled s' j i"
    and record_settled:
      "inv s \<Longrightarrow> RecordProcessingFailure store j i workerProcessingFailureCode workerProcessingMaxAttempts s = (Inr f, s') \<Longrightarrow>
         pf_Disposition f \<noteq> processingFailureRetryable \<Longrightarrow> settled s' j i"
    and inspect_keeps:
      "inv s \<Longrightarrow> GetProcessingJob store j i s = (r, s') \<Longrightarrow> inv s' \<and> (settled s j' i' \<longrightarrow> settled s' j' i')"
    and complete_keeps:
      "inv s \<Longrightarrow> CompleteProcessingJob store j i s = (r2, s') \<Longrightarrow>
         inv s' \<and> (settled s j' i' \<longrightarrow> settled s' j' i')"
    and record_keeps:
      "inv s \<Longrightarrow> RecordProcessingFailure store j i workerProcessingFailureCode workerProcessingMaxAttempts s = (r3, s') \<Longrightarrow>
         inv s' \<and> (settled s j' i' \<longrightarrow> settled s' j' i')"
    and process_keeps:
      "inv s \<Longrightarrow> processor msg s = (e, s') \<Longrightarrow> inv s' \<and> (settled s j' i' \<longrightarrow> settled s' j' i')"
begin

lemma handler_keeps:
  assumes "inv s" and "handle_worker_message_with_processor store processor payload s = (r, s')"
  shows "inv s'" and "settled s j i \<Longrightarrow> settled s' j i"
proof -
  have "inv s' \<and> (settled s j i \<longrightarrow> settled s' j i)"
    using assms
    by (auto simp: handler_defs split: sum.splits prod.splits option.splits if_splits
             dest: inspect_keeps complete_keeps record_keeps process_keeps)
  then show "inv s'" and "settled s j i \<Longrightarrow> settled s' j i" by blast+
qed

text \<open>An acknowledged message is an accepted one, and its job is settled.\<close>

lemma ack_settled:
  assumes "inv s"
    and "handle_worker_message_with_processor store processor payload s = ((settlementAck, err), s')"
  shows "\<exists>m. accepted_message payload m \<and> settled s' (wm_JobID m) (wm_WorkItemID m)"
  using assms
  by (auto simp: handler_defs accepted_message_def
           split: sum.splits prod.splits option.splits if_splits
           intro: inspect_settled complete_settled record_settled
           dest: inspect_keeps [THEN conjunct1, rotated] process_keeps [THEN conjunct1, rotated])

end

end
