(* ===== verification/Completion.thy ===== *)
theory Completion
  imports WorkerStore
begin

text \<open>
  What \<open>CompleteProcessingJob\<close> does: the committed effect as one function, the proof that no
  declared constraint refuses it, its result on every branch, and all-or-nothing under faults.
\<close>

section \<open>The completed database\<close>

definition result_row_for :: "int64 \<Rightarrow> int64 \<Rightarrow> string \<Rightarrow> result_row" where
  "result_row_for work_item_id job_id title =
     \<lparr>wr_work_item_id = work_item_id, wr_processing_job_id = job_id, wr_input_title = title,
      wr_analysis_version = 1, wr_character_count = int (fst (analyze_title title)),
      wr_word_count = int (snd (analyze_title title))\<rparr>"

definition with_result :: "int64 \<Rightarrow> int64 \<Rightarrow> string \<Rightarrow> database \<Rightarrow> database" where
  "with_result j i title d =
     d\<lparr>work_item_results := insert_row (result_row_for i j title) (work_item_results d)\<rparr>"

definition with_done_item :: "int64 \<Rightarrow> database \<Rightarrow> database" where
  "with_done_item i d =
     d\<lparr>work_items := update_where (pending_item i) (wi_status_update (\<lambda>_. Done)) (work_items d)\<rparr>"

definition with_succeeded_job :: "int64 \<Rightarrow> int64 \<Rightarrow> timestamp \<Rightarrow> database \<Rightarrow> database" where
  "with_succeeded_job j i now d =
     d\<lparr>processing_jobs := update_where (open_job j i) (succeed_row now) (processing_jobs d)\<rparr>"

definition completed :: "int64 \<Rightarrow> int64 \<Rightarrow> string \<Rightarrow> timestamp \<Rightarrow> database \<Rightarrow> database" where
  "completed j i title now d =
     with_succeeded_job j i now (with_done_item i (with_result j i title d))"

text \<open>A job the worker may complete: accepted, for a pending item, its counter not exhausted.\<close>

definition completable :: "int64 \<Rightarrow> int64 \<Rightarrow> database \<Rightarrow> bool" where
  "completable j i d =
     ((case row_at pj_id (processing_jobs d) j of
         Some r \<Rightarrow> pj_work_item_id r = i \<and> pj_state r = Accepted \<and> pj_attempt_count r < int32_max
       | None \<Rightarrow> False)
      \<and> (case row_at wi_id (work_items d) i of Some r \<Rightarrow> wi_status r = Pending | None \<Rightarrow> False))"

section \<open>No constraint refuses it\<close>

lemma analyze_title_bounds:
  "analyze_title t = (c, w) \<Longrightarrow> c \<le> length t \<and> 2 * w \<le> c + 1 \<and> length t \<le> 4 * c"
  using rune_count_le_length [of t] fields_count [of t] length_le_4_rune_count [of t]
  by (auto simp: analyze_title_def)

text \<open>A pending item has no result, and an accepted job has produced none.\<close>

lemma pending_no_result:
  assumes "db_ok d" and "row_at wi_id (work_items d) i = Some r" and "wi_status r = Pending"
  shows "i \<notin> wr_work_item_id ` set (work_item_results d)"
proof
  assume "i \<in> wr_work_item_id ` set (work_item_results d)"
  then obtain q where q: "q \<in> set (work_items d)" "wi_id q = i" "wi_status q = Done"
    using assms(1) by (auto simp: db_ok_def deferred_defs list_all_iff)
  moreover have "unique_key wi_id (work_items d)"
    using assms(1) by (simp add: db_ok_def constraint_defs)
  ultimately have "row_at wi_id (work_items d) i = Some q" by (auto simp: row_at_iff)
  with assms q show False by simp
qed

lemma accepted_no_result:
  assumes "db_ok d" and "row_at pj_id (processing_jobs d) j = Some r" and "pj_state r = Accepted"
  shows "j \<notin> wr_processing_job_id ` set (work_item_results d)"
proof
  assume "j \<in> wr_processing_job_id ` set (work_item_results d)"
  then obtain q where q: "q \<in> set (processing_jobs d)" "pj_id q = j" "pj_state q = Succeeded"
    using assms(1) by (auto simp: db_ok_def deferred_defs list_all_iff)
  moreover have "unique_key pj_id (processing_jobs d)"
    using assms(1) by (simp add: db_ok_def constraint_defs)
  ultimately have "row_at pj_id (processing_jobs d) j = Some q" by (auto simp: row_at_iff)
  with assms q show False by simp
qed

lemma result_row_for_ok:
  assumes "pg_text title"
  shows "result_row_ok (result_row_for i j title)"
proof -
  obtain c w where a: "analyze_title title = (c, w)" by (metis surj_pair)
  have "c < 1073741824" "w < 1073741824"
    using analyze_title_bounds [OF a] assms by (auto simp: pg_text_def)
  then show ?thesis
    using assms by (simp add: result_row_ok_def result_row_for_def a in_int32_def int32_max_def)
qed

lemma with_result_ok:
  assumes ok: "db_ok d" and c: "completable j i d"
    and item: "row_at wi_id (work_items d) i = Some ir"
  shows "immediate_ok (with_result j i (wi_title ir) d)"
proof -
  obtain jr where job: "row_at pj_id (processing_jobs d) j = Some jr" "pj_work_item_id jr = i"
      "pj_state jr = Accepted"
    using c by (auto simp: completable_def split: option.splits)
  have pend: "wi_status ir = Pending" using c item by (simp add: completable_def)
  have ir: "ir \<in> set (work_items d)" "wi_id ir = i" using row_at_Some_in [OF item] by auto
  have jr: "jr \<in> set (processing_jobs d)" "pj_id jr = j" using row_at_Some_in [OF job(1)] by auto
  have "pg_text (wi_title ir)"
    using ok ir by (auto simp: db_ok_def constraint_defs list_all_iff work_item_row_ok_def)
  then have "result_row_ok (result_row_for i j (wi_title ir))" by (rule result_row_for_ok)
  moreover have "i \<in> wi_id ` set (work_items d)" using ir by auto
  moreover have "(j, i) \<in> (\<lambda>j. (pj_id j, pj_work_item_id j)) ` set (processing_jobs d)"
    using jr job(2) by force
  ultimately show ?thesis
    using ok pending_no_result [OF ok item pend] accepted_no_result [OF ok job(1,3)]
    by (simp add: db_ok_def immediate_ok_def with_result_def results_ok_def result_row_for_def)
qed

lemma with_done_item_ok:
  assumes "immediate_ok d"
  shows "immediate_ok (with_done_item i d)"
proof -
  have "list_all work_item_row_ok (work_items (with_done_item i d))"
    using assms unfolding with_done_item_def
    by (auto simp: constraint_defs work_item_row_ok_def intro!: list_all_update_where)
  then show ?thesis
    using assms
    by (simp add: constraint_defs with_done_item_def done_update.unique_kept done_update.key_image)
qed

lemma map_filter_active_succeed:
  "map pj_work_item_id (filter active_or_successful (update_where (open_job j i) (succeed_row now) t))
     = map pj_work_item_id (filter active_or_successful t)"
  by (induction t) (auto simp: update_where_def active_or_successful_def open_job_def succeed_row_def)

lemma job_identities_succeed:
  "(\<lambda>j. (pj_id j, pj_work_item_id j)) ` set (update_where (open_job j i) (succeed_row now) t)
     = (\<lambda>j. (pj_id j, pj_work_item_id j)) ` set t"
  by (rule update_where_image) (simp add: succeed_row_def)

lemma with_succeeded_job_ok:
  assumes "immediate_ok d"
    and "\<And>r. r \<in> set (processing_jobs d) \<Longrightarrow> open_job j i r \<Longrightarrow> pj_attempt_count r < int32_max"
  shows "immediate_ok (with_succeeded_job j i now d)"
proof -
  let ?t = "update_where (open_job j i) (succeed_row now) (processing_jobs d)"
  have "list_all job_row_ok ?t"
    using assms unfolding list_all_iff
    by (fastforce simp: constraint_defs list_all_iff set_update_where job_row_ok_def succeed_row_def
          in_int32_def int32_max_def)
  moreover have "list_all (\<lambda>r. pj_work_item_id r \<in> wi_id ` set (work_items d)) ?t"
    using assms(1) by (auto simp: constraint_defs list_all_iff set_update_where succeed_row_def)
  moreover have "unique_key pj_work_item_id (filter active_or_successful ?t)"
    using assms(1) by (simp add: unique_key_def map_filter_active_succeed constraint_defs)
  ultimately show ?thesis
    using assms(1)
    by (simp add: immediate_ok_def jobs_ok_def outbox_ok_def results_ok_def with_succeeded_job_def
          success_update.unique_kept success_update.key_image job_identities_succeed)
qed

text \<open>The three writes together satisfy the deferred foreign keys.\<close>

lemma completed_deferred_ok:
  assumes ok: "db_ok d"
    and item: "row_at wi_id (work_items d) i = Some ir" "wi_status ir = Pending"
    and job: "row_at pj_id (processing_jobs d) j = Some jr" "pj_work_item_id jr = i" "pj_state jr = Accepted"
  shows "deferred_ok (completed j i title now d)"
proof -
  let ?items = "work_items (completed j i title now d)"
  let ?jobs = "processing_jobs (completed j i title now d)"
  let ?results = "work_item_results (completed j i title now d)"
  let ?new = "result_row_for i j title"
  have items: "?items = update_where (pending_item i) (wi_status_update (\<lambda>_. Done)) (work_items d)"
    and jobs: "?jobs = update_where (open_job j i) (succeed_row now) (processing_jobs d)"
    and results: "set ?results = insert ?new (set (work_item_results d))"
    by (simp_all add: completed_def with_succeeded_job_def with_done_item_def with_result_def)
  have u: "unique_key wi_id (work_items d)" "unique_key pj_id (processing_jobs d)"
    using ok by (simp_all add: db_ok_def constraint_defs)
  have ir: "ir \<in> set (work_items d)" "wi_id ir = i" using row_at_Some_in [OF item(1)] by auto
  have jr: "jr \<in> set (processing_jobs d)" "pj_id jr = j" using row_at_Some_in [OF job(1)] by auto
  have new: "wr_work_item_id ?new = i" "wr_processing_job_id ?new = j"
    by (simp_all add: result_row_for_def)
  have done_kept: "(k, Done) \<in> (\<lambda>i. (wi_id i, wi_status i)) ` set ?items"
    if "(k, Done) \<in> (\<lambda>i. (wi_id i, wi_status i)) ` set (work_items d)" for k
    using that in_update_where [of _ "work_items d" "pending_item i" "wi_status_update (\<lambda>_. Done)"]
    unfolding items by (fastforce simp: pending_item_def)
  have "ir\<lparr>wi_status := Done\<rparr> \<in> set ?items"
    using in_update_where [OF ir(1), of "pending_item i" "wi_status_update (\<lambda>_. Done)"] ir(2) item(2)
    unfolding items by (simp add: pending_item_def)
  then have item_done: "(i, Done) \<in> (\<lambda>i. (wi_id i, wi_status i)) ` set ?items"
    by (rule image_eqI [rotated]) (simp add: ir(2))
  have succ_kept: "q \<in> (\<lambda>j. (pj_id j, pj_work_item_id j, pj_state j)) ` set ?jobs"
    if "q \<in> (\<lambda>j. (pj_id j, pj_work_item_id j, pj_state j)) ` set (processing_jobs d)"
      and "snd (snd q) = Succeeded" for q
    using that in_update_where [of _ "processing_jobs d" "open_job j i" "succeed_row now"]
    unfolding jobs by (fastforce simp: open_job_def)
  have "succeed_row now jr \<in> set ?jobs"
    using in_update_where [OF jr(1), of "open_job j i" "succeed_row now"] jr(2) job(2,3)
    unfolding jobs by (simp add: open_job_def)
  then have job_succ: "(j, i, Succeeded) \<in> (\<lambda>j. (pj_id j, pj_work_item_id j, pj_state j)) ` set ?jobs"
    by (rule image_eqI [rotated]) (simp add: jr(2) job(2) succeed_row_def)
  have "result_completed_item_fk (completed j i title now d)"
    using ok done_kept item_done new
    by (auto simp: result_completed_item_fk_def results list_all_iff db_ok_def deferred_defs)
  moreover have "result_successful_job_fk (completed j i title now d)"
    using ok succ_kept job_succ new
    by (auto simp: result_successful_job_fk_def results list_all_iff db_ok_def deferred_defs)
  moreover have "completed_item_result_fk (completed j i title now d)"
    using ok new
    by (auto simp: completed_item_result_fk_def results items set_update_where list_all_iff db_ok_def
          deferred_defs pending_item_def)
  moreover have "successful_job_result_fk (completed j i title now d)"
    using ok new
    by (auto simp: successful_job_result_fk_def results jobs set_update_where list_all_iff db_ok_def
          deferred_defs open_job_def succeed_row_def)
  ultimately show ?thesis by (simp add: deferred_ok_def)
qed

section \<open>The successful run\<close>

lemma get_job_tx_at:
  assumes "tx_at d sq v now x" and "row_at pj_id (processing_jobs v) j = Some jr"
    and "immediate_ok v" and "pj_work_item_id jr = i"
  shows "\<exists>x'. get_processing_job exec_tx j i x = (Inr (scan_worker_processing_job jr), x')
    \<and> tx_at d sq v now x'"
proof -
  have "select_job_stmt j now v sq = (Inr jr, id, sq)"
    using assms(2) by (simp add: select_job_stmt_def query_row_by_key)
  from tx_at_exec [where st = "select_job_stmt j", OF assms(1) this] assms(3) obtain x' where
    "exec_tx (select_job_stmt j) x = (Inr jr, x')" "tx_at d sq v now x'" by auto
  with assms(4) show ?thesis
    by (simp add: get_processing_job_def scan_worker_processing_job_def)
qed

lemma complete_pending_item_calm:
  assumes at: "tx_at d sq d now x" and ok: "db_ok d" and c: "completable j i d"
    and item: "row_at wi_id (work_items d) i = Some ir"
    and job: "row_at pj_id (processing_jobs d) j = Some jr"
  shows "\<exists>w'. complete_pending_item j i x =
      (Inr \<lparr>pc_Disposition = completionApplied, pc_Job = scan_worker_processing_job (succeed_row now jr)\<rparr>, w')
    \<and> db w' = completed j i (wi_title ir) now d \<and> seqs w' = sq \<and> calm w'"
proof -
  have u: "unique_key wi_id (work_items d)" "unique_key pj_id (processing_jobs d)"
    and imm: "immediate_ok d"
    using ok by (simp_all add: db_ok_def constraint_defs)
  have pend: "wi_status ir = Pending" and j: "pj_work_item_id jr = i" "pj_state jr = Accepted"
    "pj_attempt_count jr < int32_max"
    using c item job by (auto simp: completable_def)
  let ?t = "wi_title ir"
  let ?d1 = "with_result j i ?t d" and ?d2 = "with_done_item i (with_result j i ?t d)"
  obtain cs ws where a: "analyze_title ?t = (cs, ws)" by (metis surj_pair)
  have "select_item_stmt i now d sq = (Inr ir, id, sq)"
    using item by (simp add: select_item_stmt_def query_row_by_key)
  from tx_at_exec [where st = "select_item_stmt i", OF at this] imm obtain x1 where
    x1: "exec_tx (select_item_stmt i) x = (Inr ir, x1)" "tx_at d sq d now x1" by auto
  have imm1: "immediate_ok ?d1" by (rule with_result_ok [OF ok c item])
  have "insert_result_stmt i j ?t cs ws now d sq = (Inr (), with_result j i ?t, sq)"
    by (auto simp: insert_result_stmt_def with_result_def result_row_for_def a)
  from tx_at_exec [where st = "insert_result_stmt i j ?t cs ws", OF x1(2) this imm1] obtain x2 where
    x2: "exec_tx (insert_result_stmt i j ?t cs ws) x1 = (Inr (), x2)" "tx_at d sq ?d1 now x2" by auto
  have imm2: "immediate_ok ?d2" by (rule with_done_item_ok [OF imm1])
  have "rows_affected (pending_item i) (work_items ?d1) = 1"
    using filter_unique_key [OF u(1), of i "\<lambda>r. wi_status r = Pending"] item pend
    by (simp add: rows_affected_def pending_item_def [abs_def] with_result_def)
  then have "finish_item_stmt i now ?d1 sq = (Inr 1, with_done_item i, sq)"
    by (auto simp: finish_item_stmt_def with_done_item_def)
  from tx_at_exec [where st = "finish_item_stmt i", OF x2(2) this imm2] obtain x3 where
    x3: "exec_tx (finish_item_stmt i) x2 = (Inr 1, x3)" "tx_at d sq ?d2 now x3" by auto
  have jobs2: "processing_jobs ?d2 = processing_jobs d"
    by (simp add: with_done_item_def with_result_def)
  have sel: "select_where (open_job j i) (processing_jobs ?d2) = [jr]"
    using filter_unique_key [OF u(2), of j "\<lambda>r. pj_work_item_id r = i \<and> pj_state r = Accepted"] job j
    by (simp add: select_where_def open_job_def [abs_def] jobs2)
  then have "succeed_job_stmt j i now ?d2 sq = (Inr (succeed_row now jr), with_succeeded_job j i now, sq)"
    by (auto simp: succeed_job_stmt_def with_succeeded_job_def query_row_def)
  moreover have "immediate_ok (with_succeeded_job j i now ?d2)"
  proof (rule with_succeeded_job_ok [OF imm2])
    fix r assume "r \<in> set (processing_jobs ?d2)" and "open_job j i r"
    then have "r \<in> set (select_where (open_job j i) (processing_jobs ?d2))" by (simp add: select_where_def)
    with sel j(3) show "pj_attempt_count r < int32_max" by simp
  qed
  ultimately obtain x4 where
    x4: "exec_tx (succeed_job_stmt j i) x3 = (Inr (succeed_row now jr), x4)"
      "tx_at d sq (completed j i ?t now d) now x4"
    using tx_at_exec [where st = "succeed_job_stmt j i", OF x3(2)] unfolding completed_def by blast
  from tx_at_commit [OF x4(2) completed_deferred_ok [OF ok item pend job j(1,2)]] obtain w' where
    w': "commit_tx x4 = (Inr (), w')" "db w' = completed j i ?t now d" "seqs w' = sq" "calm w'" by auto
  show ?thesis
    using w' by (simp add: complete_pending_item_def x1 x2 x3 x4 a pend)
qed

lemma complete_processing_job_calm:
  assumes calm: "calm w" and ok: "db_ok (db w)" and c: "completable j i (db w)"
    and item: "row_at wi_id (work_items (db w)) i = Some ir"
    and job: "row_at pj_id (processing_jobs (db w)) j = Some jr"
  shows "\<exists>w'. complete_processing_job j i w =
      (Inr \<lparr>pc_Disposition = completionApplied,
            pc_Job = scan_worker_processing_job (succeed_row (clock (next_turn w)) jr)\<rparr>, w')
    \<and> db w' = completed j i (wi_title ir) (clock (next_turn w)) (db w) \<and> seqs w' = seqs w \<and> calm w'"
proof -
  let ?now = "clock (next_turn w)"
  have imm: "immediate_ok (db w)" using ok by (simp add: db_ok_def)
  have j: "pj_work_item_id jr = i" "pj_state jr = Accepted" using c job by (auto simp: completable_def)
  from tx_at_begin [OF calm] obtain x0 where
    x0: "begin_tx w = (Inr (), x0)" "tx_at (db w) (seqs w) (db w) ?now x0" by auto
  have "ItemLockSQL i ?now (db w) (seqs w) = (Inr (), id, seqs w)" by (simp add: ItemLockSQL_def)
  from tx_at_exec [where st = "ItemLockSQL i", OF x0(2) this] imm obtain x1 where
    x1: "exec_tx (ItemLockSQL i) x0 = (Inr (), x1)" "tx_at (db w) (seqs w) (db w) ?now x1" by auto
  from get_job_tx_at [OF x1(2) job imm j(1)] obtain x2 where
    x2: "get_processing_job exec_tx j i x1 = (Inr (scan_worker_processing_job jr), x2)"
      "tx_at (db w) (seqs w) (db w) ?now x2" by auto
  have "wj_State (scan_worker_processing_job jr) = Accepted"
    using j by (simp add: scan_worker_processing_job_def)
  with complete_pending_item_calm [OF x2(2) ok c item job] show ?thesis
    by (simp add: complete_processing_job_def x0 x1 x2)
qed

section \<open>All or nothing\<close>

text \<open>The statements' effects on the view, as the completed database composes them.\<close>

lemma select_item_stmt_Inr:
  "select_item_stmt i now v sq = (Inr r, eff, sq') \<Longrightarrow> row_at wi_id (work_items v) i = Some r \<and> eff = id"
  by (auto simp: select_item_stmt_def query_row_by_key split: option.splits)

lemma insert_result_stmt_Inr:
  "insert_result_stmt i j t (fst (analyze_title t)) (snd (analyze_title t)) now v sq = (Inr r, eff, sq')
     \<Longrightarrow> eff = with_result j i t"
  by (auto simp: insert_result_stmt_def with_result_def result_row_for_def)

lemma finish_item_stmt_Inr: "finish_item_stmt i now v sq = (Inr r, eff, sq') \<Longrightarrow> eff = with_done_item i"
  by (auto simp: finish_item_stmt_def with_done_item_def)

lemma succeed_job_stmt_Inr:
  "succeed_job_stmt j i now v sq = (Inr r, eff, sq') \<Longrightarrow> eff = with_succeeded_job j i now"
  by (auto simp: succeed_job_stmt_def with_succeeded_job_def)

lemma complete_pending_item_isolated:
  assumes iso: "isolated (tx_world x)" and view: "tx_view x = db (tx_world x)"
    and run: "complete_pending_item j i x = (r, w')"
  shows "db w' = db (tx_world x) \<and> \<not> is_ok r \<or>
    (\<exists>ir. row_at wi_id (work_items (db (tx_world x))) i = Some ir \<and> wi_status ir = Pending
       \<and> db w' = completed j i (wi_title ir) (tx_start x) (db (tx_world x)))"
proof -
  define d where "d = db (tx_world x)"
  obtain r1 x1 where e1: "exec_tx (select_item_stmt i) x = (r1, x1)" by (metis surj_pair)
  note s1 = exec_tx_isolated [OF iso e1]
  show ?thesis
  proof (cases r1)
    case (Inl e)
    with run e1 s1 show ?thesis by (auto simp: complete_pending_item_def rollback_tx_def)
  next
    case r1: (Inr ir)
    from s1(4) [OF r1] view have ir: "row_at wi_id (work_items d) i = Some ir" and v1: "tx_view x1 = d"
      by (auto simp: d_def dest: select_item_stmt_Inr)
    show ?thesis
    proof (cases "wi_status ir = Pending")
      case False
      with run e1 r1 s1 show ?thesis by (auto simp: complete_pending_item_def rollback_tx_def)
    next
      case pend: True
      let ?t = "wi_title ir"
      define cs ws where "cs = fst (analyze_title ?t)" and "ws = snd (analyze_title ?t)"
      then have a: "analyze_title ?t = (cs, ws)" by simp
      obtain r2 x2 where e2: "exec_tx (insert_result_stmt i j ?t cs ws) x1 = (r2, x2)" by (metis surj_pair)
      note s2 = exec_tx_isolated [OF s1(1) e2]
      obtain r3 x3 where e3: "exec_tx (finish_item_stmt i) x2 = (r3, x3)" by (metis surj_pair)
      note s3 = exec_tx_isolated [OF s2(1) e3]
      obtain r4 x4 where e4: "exec_tx (succeed_job_stmt j i) x3 = (r4, x4)" by (metis surj_pair)
      note s4 = exec_tx_isolated [OF s3(1) e4]
      obtain r5 w5 where e5: "commit_tx x4 = (r5, w5)" by (metis surj_pair)
      note s5 = commit_tx_isolated [OF s4(1) e5]
      note dbs = s1(2) s2(2) s3(2) s4(2)
      note body = run [unfolded complete_pending_item_def] e1 e2 e3 e4 e5 r1 pend a dbs
      show ?thesis
      proof (cases "r2 = Inr () \<and> r3 = Inr 1 \<and> (\<exists>row. r4 = Inr row)")
        case False
        with body show ?thesis
          by (cases r2; cases r3; cases r4) (auto simp: rollback_tx_def split: if_splits)
      next
        case True
        then obtain row where r2: "r2 = Inr ()" and r3: "r3 = Inr 1" and r4: "r4 = Inr row" by blast
        have "tx_view x2 = with_result j i ?t d"
          using s2(4) [OF r2] v1 insert_result_stmt_Inr unfolding cs_def ws_def by metis
        moreover have "tx_view x3 = with_done_item i (tx_view x2)"
          using s3(4) [OF r3] finish_item_stmt_Inr by metis
        moreover have "tx_view x4 = with_succeeded_job j i (tx_start x) (tx_view x3)"
          using s4(4) [OF r4] succeed_job_stmt_Inr s3(3) s2(3) s1(3) by metis
        ultimately have "tx_view x4 = completed j i ?t (tx_start x) d" by (simp add: completed_def)
        then show ?thesis
          using body s5 r2 r3 r4 ir pend by (cases r5) (auto simp: d_def)
      qed
    qed
  qed
qed

lemma get_job_tx_isolated:
  assumes "isolated (tx_world x)" and "get_processing_job exec_tx j i x = (r, x')"
  shows "isolated (tx_world x')" and "db (tx_world x') = db (tx_world x)" and "tx_start x' = tx_start x"
    and "r = Inr job \<Longrightarrow> tx_view x' = tx_view x \<and>
          (\<exists>jr. row_at pj_id (processing_jobs (tx_view x)) j = Some jr \<and> job = scan_worker_processing_job jr
             \<and> pj_work_item_id jr = i)"
proof -
  obtain r1 x1 where e: "exec_tx (select_job_stmt j) x = (r1, x1)" by (metis surj_pair)
  note s = exec_tx_isolated [OF assms(1) e]
  have x': "x' = x1" using assms(2) e
    by (auto simp: get_processing_job_def Let_def split: sum.splits if_splits)
  show "isolated (tx_world x')" and "db (tx_world x') = db (tx_world x)" and "tx_start x' = tx_start x"
    using s by (simp_all add: x')
  show "tx_view x' = tx_view x \<and>
          (\<exists>jr. row_at pj_id (processing_jobs (tx_view x)) j = Some jr \<and> job = scan_worker_processing_job jr
             \<and> pj_work_item_id jr = i)" if r: "r = Inr job"
  proof -
    obtain jr where r1: "r1 = Inr jr" "job = scan_worker_processing_job jr" "pj_work_item_id jr = i"
      using r assms(2) e
      by (auto simp: get_processing_job_def Let_def scan_worker_processing_job_def
            split: sum.splits if_splits)
    then show ?thesis
      using s(4) [OF r1(1)]
      by (auto simp: x' select_job_stmt_def query_row_by_key split: option.splits)
  qed
qed

text \<open>
  Whatever calls fail, and wherever: alone on the database, the completion leaves the tables as
  they were, or installs the completed database; it reports \<open>completed_now\<close> only in the second
  case, and an accepted job's error only the uncertain commit can be of the second case.
\<close>

lemma complete_processing_job_isolated:
  assumes iso: "isolated w" and run: "complete_processing_job j i w = (r, w')"
  shows "db w' = db w
      \<and> (\<forall>c. r = Inr c \<longrightarrow> pc_Disposition c = completionAlreadyTerminal \<and> terminal (wj_State (pc_Job c)))
    \<or> (\<exists>ir jr now. row_at wi_id (work_items (db w)) i = Some ir \<and> wi_status ir = Pending
         \<and> row_at pj_id (processing_jobs (db w)) j = Some jr \<and> pj_work_item_id jr = i
         \<and> \<not> terminal (pj_state jr) \<and> db w' = completed j i (wi_title ir) now (db w))"
proof -
  obtain r0 x0 where e0: "begin_tx w = (r0, x0)" by (metis surj_pair)
  then have x0: "isolated (tx_world x0)" "db (tx_world x0) = db w" "tx_view x0 = db w"
    using iso by (auto simp: begin_tx_def arrive_isolated tx_view_def)
  obtain r1 x1 where e1: "exec_tx (ItemLockSQL i) x0 = (r1, x1)" by (metis surj_pair)
  note s1 = exec_tx_isolated [OF x0(1) e1]
  obtain r2 x2 where e2: "get_processing_job exec_tx j i x1 = (r2, x2)" by (metis surj_pair)
  note s2 = get_job_tx_isolated [OF s1(1) e2]
  note dbs = x0(2) s1(2) s2(2)
  note body = run [unfolded complete_processing_job_def] e0 e1 e2 dbs
  show ?thesis
  proof (cases "r0 = Inr () \<and> r1 = Inr () \<and> (\<exists>job. r2 = Inr job \<and> \<not> terminal (wj_State job))")
    case False
    with body show ?thesis
      by (cases r0; cases r1; cases r2) (auto simp: rollback_tx_def terminal_def split: if_splits)
  next
    case True
    then obtain job where r: "r0 = Inr ()" "r1 = Inr ()" "r2 = Inr job" and open_state: "\<not> terminal (wj_State job)"
      by blast
    have v1: "tx_view x1 = db w"
      using s1(4) [OF r(2)] x0(3) by (auto simp: ItemLockSQL_def)
    from s2(4) [OF r(3)] v1 obtain jr where v2: "tx_view x2 = db w"
      and jr: "row_at pj_id (processing_jobs (db w)) j = Some jr" "pj_work_item_id jr = i"
        "job = scan_worker_processing_job jr" by auto
    have "complete_pending_item j i x2 = (r, w')"
      using body r open_state by (simp add: terminal_def split: if_splits)
    from complete_pending_item_isolated [OF s2(1) _ this] v2 dbs
    have "db w' = db w \<and> \<not> is_ok r \<or> (\<exists>ir. row_at wi_id (work_items (db w)) i = Some ir \<and> wi_status ir = Pending
        \<and> db w' = completed j i (wi_title ir) (tx_start x2) (db w))" by simp
    then show ?thesis
      using jr open_state by (fastforce simp: is_ok_iff scan_worker_processing_job_def)
  qed
qed

end
