(* ===== verification/CompletionLocks.thy ===== *)
theory CompletionLocks
  imports Completion
begin

text \<open>
  Completion and failure recording among other sessions that commit at any point: what a reported
  outcome says of the committed database at the moment of the report.
\<close>

section \<open>Settled jobs\<close>

definition settled :: "world \<Rightarrow> int64 \<Rightarrow> int64 \<Rightarrow> bool" where
  "settled w j i =
     (case row_at pj_id (processing_jobs (db w)) j of
        Some r \<Rightarrow> pj_work_item_id r = i \<and> terminal (pj_state r)
      | None \<Rightarrow> False)"

lemma settled_evolves: "settled w j i \<Longrightarrow> world_ok w \<Longrightarrow> evolves w w' \<Longrightarrow> settled w' j i"
  by (fastforce simp: settled_def evolves_def continues_def table_continues_def job_continues_def
      split: option.splits)

section \<open>Inspecting and recording\<close>

lemma get_job_reads:
  assumes "get_processing_job exec_auto j i w = (Inr job, w')"
  shows "\<exists>r. row_at pj_id (processing_jobs (db w')) j = Some r \<and> job = scan_worker_processing_job r
           \<and> pj_work_item_id r = i"
  using assms
  by (auto simp: get_processing_job_def Let_def scan_worker_processing_job_def select_job_stmt_def
           query_row_by_key dest!: exec_auto_Inr split: prod.splits sum.splits if_splits option.splits)

lemma record_failure_update:
  assumes ok: "world_ok w" and e: "exec_auto (record_failure_stmt j i code m) w = (Inr row, w')"
  shows "\<exists>r now. row_at pj_id (processing_jobs (db (arrive w))) j = Some r \<and> open_job j i r
           \<and> row = record_failure_row code m now r \<and> row_at pj_id (processing_jobs (db w')) j = Some row"
proof -
  let ?jobs = "processing_jobs (db (arrive w))" and ?f = "record_failure_row code m (clock (next_turn w))"
  have "world_ok (arrive w)" by (rule evolves_world_ok [OF evolves_arrive ok])
  then have u: "unique_key pj_id ?jobs" by (simp add: world_ok_def db_ok_def constraint_defs)
  obtain r where q: "query_row (map ?f (select_where (open_job j i) ?jobs)) = Inr row"
      and w': "processing_jobs (db w') = update_where (open_job j i) ?f ?jobs"
    using exec_auto_Inr [OF e] by (auto simp: record_failure_stmt_def)
  then obtain r where r: "r \<in> set ?jobs" "open_job j i r" "row = ?f r"
    by (auto simp: select_where_def dest!: is_query_row_Inr)
  then have "row_at pj_id ?jobs j = Some r" using row_at_unique [OF u r(1)] by (simp add: open_job_def)
  with r show ?thesis by (auto simp: w' failure_update.row_at_update)
qed

lemma record_processing_failure_settled:
  assumes ok: "world_ok w" and run: "record_processing_failure j i code m w = (Inr f, w')"
    and disp: "pf_Disposition f \<noteq> processingFailureRetryable"
  shows "settled w' j i"
proof -
  obtain r1 w1 where e1: "exec_auto (record_failure_stmt j i code m) w = (r1, w1)" by (metis surj_pair)
  show ?thesis
  proof (cases r1)
    case (Inr row)
    with record_failure_update [OF ok] e1 obtain r now where
      row: "open_job j i r" "row = record_failure_row code m now r"
        "row_at pj_id (processing_jobs (db w1)) j = Some row" by blast
    with run e1 Inr disp show ?thesis
      by (auto simp: record_processing_failure_def Let_def settled_def scan_worker_processing_job_def
               record_failure_row_def open_job_def terminal_def split: if_splits)
  next
    case (Inl e)
    obtain r2 w2 where e2: "exec_auto (select_job_stmt j) w1 = (r2, w2)" by (metis surj_pair)
    from run e1 e2 Inl obtain row where r2: "r2 = Inr row" "w' = w2"
      "classify_unrecorded i (scan_worker_processing_job row) = Inr f"
      by (auto simp: record_processing_failure_def Let_def split: if_splits sum.splits)
    then have "row_at pj_id (processing_jobs (db w2)) j = Some row"
      using exec_auto_Inr [of "select_job_stmt j" w1 row w2] e2
      by (auto simp: select_job_stmt_def query_row_by_key split: option.splits)
    with r2 show ?thesis
      by (auto simp: classify_unrecorded_def scan_worker_processing_job_def settled_def terminal_def
               split: if_splits)
  qed
qed

section \<open>Completing\<close>

text \<open>The job's row is open when the transaction marks it, and held until COMMIT.\<close>

lemma held_job:
  assumes "\<And>d. processing_jobs (tx_writes x d) = update_where (open_job j i) (succeed_row now) (processing_jobs d)"
    and at: "row_at pj_id (processing_jobs (db (tx_world x))) j = Some r" and job: "open_job j i r"
  shows "row_at pj_id (processing_jobs (db (tx_world (tx_arrive x)))) j = Some r"
proof -
  have own: "row_at pj_id (processing_jobs (tx_writes x (db (tx_world x)))) j = Some (succeed_row now r)"
    using at job by (simp add: assms(1) success_update.row_at_update)
  have "r \<noteq> succeed_row now r"
    using job by (auto simp: open_job_def succeed_row_def dest: arg_cong [of _ _ pj_state])
  with tx_arrive_locks [of x] unchanged_rowsD [OF _ own] at show ?thesis by (auto simp: respects_locks_def)
qed

lemma succeeded_job_open:
  assumes ok: "tx_ok x" and e: "exec_tx (succeed_job_stmt j i) x = (Inr row, x')"
    and writes: "\<And>d. processing_jobs (tx_writes x d) = processing_jobs d"
  shows "\<exists>r. row_at pj_id (processing_jobs (db (tx_world x'))) j = Some r \<and> open_job j i r"
    and "tx_writes x' = with_succeeded_job j i (tx_start x) \<circ> tx_writes x"
    and "db (tx_world x') = db (tx_world (tx_arrive x))"
proof -
  let ?u = "tx_arrive x"
  have "tx_ok ?u" using tx_arrive_evolves [of x] ok unfolding tx_evolves_def by blast
  then have uk: "unique_key pj_id (processing_jobs (tx_view ?u))" by (simp add: tx_ok_def constraint_defs)
  have view: "processing_jobs (tx_view ?u) = processing_jobs (db (tx_world ?u))"
    using tx_arrive_locks [of x] by (simp add: tx_view_def writes)
  from exec_tx_Inr [OF e] have
    q: "query_row (map (succeed_row (tx_start x)) (select_where (open_job j i) (processing_jobs (tx_view ?u)))) = Inr row"
    and w: "tx_writes x' = with_succeeded_job j i (tx_start x) \<circ> tx_writes x" and d: "db (tx_world x') = db (tx_world ?u)"
    by (auto simp: succeed_job_stmt_def with_succeeded_job_def [abs_def])
  from q obtain r where r: "r \<in> set (processing_jobs (tx_view ?u))" "open_job j i r"
    by (auto simp: select_where_def dest!: is_query_row_Inr)
  then show "\<exists>r. row_at pj_id (processing_jobs (db (tx_world x'))) j = Some r \<and> open_job j i r"
    using row_at_unique [OF uk r(1)] by (auto simp: d view open_job_def)
  show "tx_writes x' = with_succeeded_job j i (tx_start x) \<circ> tx_writes x"
    and "db (tx_world x') = db (tx_world ?u)" by (rule w, rule d)
qed

text \<open>So the committed tables hold it succeeded.\<close>

lemma succeeded_at_commit:
  assumes ok: "tx_ok x" and e: "exec_tx (succeed_job_stmt j i) x = (Inr row, x')"
    and writes: "\<And>d. processing_jobs (tx_writes x d) = processing_jobs d"
    and c: "commit_tx x' = (Inr (), w')"
  shows "settled w' j i"
proof -
  note s = succeeded_job_open [OF ok e writes]
  have jobs: "processing_jobs (tx_writes x' d) =
      update_where (open_job j i) (succeed_row (tx_start x)) (processing_jobs d)" for d
    by (simp add: s(2) with_succeeded_job_def writes)
  from s(1) obtain r where r: "row_at pj_id (processing_jobs (db (tx_world x'))) j = Some r" "open_job j i r" by blast
  with held_job [OF jobs] have "row_at pj_id (processing_jobs (tx_view (tx_arrive x'))) j = Some (succeed_row (tx_start x) r)"
    using tx_arrive_locks [of x'] by (simp add: tx_view_def jobs success_update.row_at_update)
  then show ?thesis
    using commit_tx_Inr [OF c] r(2) by (simp add: settled_def succeed_row_def terminal_def open_job_def)
qed

lemma complete_pending_item_settled:
  assumes ok: "tx_ok x" and none: "tx_writes x = id"
    and run: "complete_pending_item j i x = (Inr c, w')"
  shows "settled w' j i"
proof -
  from run obtain item x1 cs ws x2 x3 row x4 where
    e1: "exec_tx (select_item_stmt i) x = (Inr item, x1)" and
    e2: "exec_tx (insert_result_stmt i j (wi_title item) cs ws) x1 = (Inr (), x2)" and
    e3: "exec_tx (finish_item_stmt i) x2 = (Inr 1, x3)" and
    e4: "exec_tx (succeed_job_stmt j i) x3 = (Inr row, x4)" and
    c: "commit_tx x4 = (Inr (), w')"
    by (auto simp: complete_pending_item_def split: prod.splits sum.splits if_splits)
  have w1: "tx_writes x1 = id"
    using exec_tx_Inr [OF e1] none by (auto simp: select_item_stmt_def)
  have w2: "\<And>d. processing_jobs (tx_writes x2 d) = processing_jobs d"
    using exec_tx_Inr [OF e2] w1 by (auto simp: insert_result_stmt_def)
  have w3: "\<And>d. processing_jobs (tx_writes x3 d) = processing_jobs d"
    using exec_tx_Inr [OF e3] w2 by (auto simp: finish_item_stmt_def)
  have "tx_ok x3"
    using ok select_item.exec_tx_evolves [OF e1] insert_result.exec_tx_evolves [OF e2]
      finish_item.exec_tx_evolves [OF e3] by (simp add: tx_evolves_def)
  then show ?thesis using e4 w3 c by (rule succeeded_at_commit)
qed

lemma complete_processing_job_settled:
  assumes ok: "world_ok w" and run: "complete_processing_job j i w = (Inr c, w')"
  shows "settled w' j i"
proof -
  from run obtain x0 x1 job x2 where
    e0: "begin_tx w = (Inr (), x0)" and e1: "exec_tx (ItemLockSQL i) x0 = (Inr (), x1)" and
    e2: "get_processing_job exec_tx j i x1 = (Inr job, x2)" and
    rest: "(if wj_State job = Succeeded \<or> wj_State job = Failed then
       (Inr \<lparr>pc_Disposition = completionAlreadyTerminal, pc_Job = job\<rparr>, rollback_tx x2)
     else complete_pending_item j i x2) = (Inr c, w')"
    by (auto simp: complete_processing_job_def split: prod.splits sum.splits)
  have ok1: "tx_ok x1"
    using begin_tx_ok [OF e0 ok] item_lock.exec_tx_evolves [OF e1] by (simp add: tx_evolves_def)
  then have ok2: "tx_ok x2" using get_processing_job_tx_evolves [OF e2] by (simp add: tx_evolves_def)
  have "tx_writes x0 = id" using e0 by (auto simp: begin_tx_def)
  then have w1: "tx_writes x1 = id" using exec_tx_Inr [OF e1] by (auto simp: ItemLockSQL_def)
  from e2 obtain r where g: "exec_tx (select_job_stmt j) x1 = (Inr r, x2)"
      and job: "job = scan_worker_processing_job r" "pj_work_item_id r = i"
    by (auto simp: get_processing_job_def Let_def scan_worker_processing_job_def
             split: prod.splits sum.splits if_splits)
  have w2: "tx_writes x2 = id" and row: "row_at pj_id (processing_jobs (db (tx_world x2))) j = Some r"
    using exec_tx_Inr [OF g] w1 tx_arrive_locks [of x1]
    by (auto simp: select_job_stmt_def query_row_by_key tx_view_def split: option.splits)
  show ?thesis
  proof (cases "wj_State job = Succeeded \<or> wj_State job = Failed")
    case True
    with rest have "w' = tx_world x2" by (simp add: rollback_tx_def)
    with row job True show ?thesis by (simp add: settled_def terminal_def scan_worker_processing_job_def)
  next
    case False
    with rest have "complete_pending_item j i x2 = (Inr c, w')" by simp
    then show ?thesis by (rule complete_pending_item_settled [OF ok2 w2])
  qed
qed

end
