(* ===== verification/Delivery.thy ===== *)
theory Delivery
  imports WorkerMessage CompletionLocks
begin

text \<open>
  \<open>worker/delivery.go\<close>, \<open>worker/process_delivery.go\<close> and \<open>worker/consumer_loop.go\<close>: settling one
  RabbitMQ delivery by the handler's verdict, and the loop over the delivery stream. The AMQP
  library's answers to the settlement calls, the stream and the context are an environment.
\<close>

section \<open>Deliveries\<close>

text \<open>The settlement methods of \<open>amqp.Delivery\<close>, with the arguments the code passes.\<close>

datatype amqp_call = Ack bool | Reject bool | Nack bool bool

record delivery =
  Body :: bytes
  acknowledger :: "amqp_call \<Rightarrow> go_error option"

text \<open>What the worker told the broker about which payload, in order.\<close>

type_synonym settlement_trace = "(bytes \<times> amqp_call) list"

definition settle_rabbitmq_delivery ::
  "delivery \<Rightarrow> string \<Rightarrow> go_error option \<times> settlement_trace" where
  "settle_rabbitmq_delivery delivery settlement =
     (if settlement = settlementAck then
        (map_option (Wrap ''ack RabbitMQ delivery'') (acknowledger delivery (Ack False)),
         [(Body delivery, Ack False)])
      else if settlement = settlementReject then
        (map_option (Wrap ''reject RabbitMQ delivery'') (acknowledger delivery (Reject False)),
         [(Body delivery, Reject False)])
      else if settlement = settlementNackRequeue then
        (map_option (Wrap ''nack RabbitMQ delivery for requeue'') (acknowledger delivery (Nack False True)),
         [(Body delivery, Nack False True)])
      else (Some (Opaque ''unknown delivery settlement''), []))"

record delivery_processing_result =
  Settlement :: string
  HandlingErr :: "go_error option"

text \<open>The result, the error of settling, and what was settled.\<close>

definition process_rabbitmq_delivery_with_processor ::
  "'s job_completer \<Rightarrow> 's processor \<Rightarrow> delivery \<Rightarrow> 's
     \<Rightarrow> (delivery_processing_result \<times> go_error option) \<times> settlement_trace \<times> 's" where
  "process_rabbitmq_delivery_with_processor store processor delivery s =
     (case handle_worker_message_with_processor store processor (Body delivery) s of
        ((settlement, handling_err), s') \<Rightarrow>
     (let result = \<lparr>Settlement = settlement, HandlingErr = handling_err\<rparr> in
     (case settle_rabbitmq_delivery delivery settlement of
        (Some err, tr) \<Rightarrow> ((result, Some (Wrap ''settle processed RabbitMQ delivery'' err)), tr, s')
      | (None, tr) \<Rightarrow> ((result, None), tr, s'))))"

definition process_rabbitmq_delivery ::
  "'s job_completer \<Rightarrow> delivery \<Rightarrow> 's
     \<Rightarrow> (delivery_processing_result \<times> go_error option) \<times> settlement_trace \<times> 's" where
  "process_rabbitmq_delivery store delivery s =
     process_rabbitmq_delivery_with_processor store successful_processor delivery s"

section \<open>The delivery loop\<close>

text \<open>
  One iteration's environment: whether the context is done at the top, and which case of the
  \<open>select\<close> fires. A closed stream comes with whether the context is done by then. When the turns
  run out the loop is still waiting in its \<open>select\<close>.
\<close>

datatype loop_event = CtxDone | Received delivery | StreamClosed bool

record loop_turn =
  ctx_err :: bool
  event :: loop_event

definition requeue_error :: "go_error option \<Rightarrow> go_error" where
  "requeue_error handling_err =
     (case handling_err of
        None \<Rightarrow> Sentinel WorkerErrDeliveryRequeued
      | Some err \<Rightarrow> Wrap ''leave worker session after requeue''
          (Joined [Sentinel WorkerErrDeliveryRequeued, err]))"

fun run_worker_delivery_loop ::
  "'s job_completer \<Rightarrow> loop_turn list \<Rightarrow> 's \<Rightarrow> loop_outcome \<times> settlement_trace \<times> 's" where
  "run_worker_delivery_loop store [] s = (Waiting, [], s)"
| "run_worker_delivery_loop store (t # ts) s =
     (if ctx_err t then (Returned None, [], s)
      else case event t of
        CtxDone \<Rightarrow> (Returned None, [], s)
      | StreamClosed ctx_err_now \<Rightarrow>
          (if ctx_err_now then (Returned None, [], s)
           else (Returned (Some (Sentinel WorkerErrDeliveryStreamClosed)), [], s))
      | Received delivery \<Rightarrow>
     (case process_rabbitmq_delivery store delivery s of
        ((result, Some err), tr, s') \<Rightarrow>
          (Returned (Some (Wrap ''process worker RabbitMQ delivery'' err)), tr, s')
      | ((result, None), tr, s') \<Rightarrow>
          (if Settlement result = settlementNackRequeue then
             (Returned (Some (requeue_error (HandlingErr result))), tr, s')
           else (case run_worker_delivery_loop store ts s' of
             (out, tr', s'') \<Rightarrow> (out, tr @ tr', s'')))))"

section \<open>One settlement per delivery\<close>

text \<open>The settlement call a verdict stands for.\<close>

definition call_of :: "string \<Rightarrow> amqp_call" where
  "call_of settlement =
     (if settlement = settlementAck then Ack False
      else if settlement = settlementReject then Reject False else Nack False True)"

lemma process_settles_once:
  assumes "process_rabbitmq_delivery store delivery s = ((result, err), tr, s')"
  shows "handle_worker_message store (Body delivery) s = ((Settlement result, HandlingErr result), s')"
    and "tr = [(Body delivery, call_of (Settlement result))]"
    and "err = None \<longleftrightarrow> acknowledger delivery (call_of (Settlement result)) = None"
proof -
  obtain st he s1 where h: "handle_worker_message store (Body delivery) s = ((st, he), s1)"
    by (metis prod_cases3 surj_pair)
  note h' = h [unfolded handle_worker_message_def]
  note all = assms [unfolded process_rabbitmq_delivery_def process_rabbitmq_delivery_with_processor_def]
  from all h' have r: "result = \<lparr>Settlement = st, HandlingErr = he\<rparr>" "s' = s1"
    by (auto simp: Let_def split: prod.splits option.splits)
  show "handle_worker_message store (Body delivery) s = ((Settlement result, HandlingErr result), s')"
    using h r by simp
  show "tr = [(Body delivery, call_of (Settlement result))]"
    and "err = None \<longleftrightarrow> acknowledger delivery (call_of (Settlement result)) = None"
    using all h' handler_settles(1) [OF h']
    by (auto simp: r Let_def settle_rabbitmq_delivery_def call_of_def split: option.splits if_splits)
qed

text \<open>The payloads the stream offers.\<close>

fun offered :: "loop_turn list \<Rightarrow> bytes list" where
  "offered [] = []"
| "offered (t # ts) = (case event t of Received d \<Rightarrow> Body d # offered ts | _ \<Rightarrow> offered ts)"

text \<open>The reference: payloads handled one after another, each settled by its verdict.\<close>

fun handle_all :: "'s job_completer \<Rightarrow> bytes list \<Rightarrow> 's \<Rightarrow> settlement_trace \<times> 's" where
  "handle_all store [] s = ([], s)"
| "handle_all store (p # ps) s =
     (case handle_worker_message store p s of
        ((settlement, err), s1) \<Rightarrow>
          (case handle_all store ps s1 of (tr, s2) \<Rightarrow> ((p, call_of settlement) # tr, s2)))"

text \<open>
  Why the loop is where it is after \<open>k\<close> deliveries: it waits for more turns; or the next turn ends it, by the
  context or the closed stream; or its last delivery was put back, or could not be settled.
\<close>

definition loop_stops :: "loop_outcome \<Rightarrow> loop_turn list \<Rightarrow> settlement_trace \<Rightarrow> nat \<Rightarrow> bool" where
  "loop_stops out ts tr k =
     (case out of
        Waiting \<Rightarrow> k = length ts
      | Returned r \<Rightarrow>
          k < length ts \<and> (ctx_err (ts ! k) \<or> (\<forall>d. event (ts ! k) \<noteq> Received d))
          \<or> (\<exists>d c. 0 < k \<and> event (ts ! (k - 1)) = Received d \<and> tr \<noteq> [] \<and> last tr = (Body d, c)
               \<and> (c = Nack False True \<or> acknowledger d c \<noteq> None)))"

lemma loop_stops_Cons:
  "loop_stops out ts tr k \<Longrightarrow> loop_stops out (t # ts) (e # tr) (Suc k)"
  by (cases k) (auto simp: loop_stops_def split: loop_outcome.splits)

lemma loop_handles:
  "run_worker_delivery_loop store ts s = (out, tr, s') \<Longrightarrow>
     \<exists>k \<le> length ts. (\<forall>t \<in> set (take k ts). \<not> ctx_err t \<and> (\<exists>d. event t = Received d))
       \<and> handle_all store (offered (take k ts)) s = (tr, s') \<and> loop_stops out ts tr k"
proof (induction ts arbitrary: s out tr s')
  case Nil
  then show ?case by (simp add: loop_stops_def)
next
  case (Cons t ts)
  show ?case
  proof (cases "ctx_err t \<or> (\<nexists>d. event t = Received d)")
    case True
    with Cons.prems have "tr = [] \<and> s' = s \<and> (\<exists>r. out = Returned r)" by (auto split: loop_event.splits if_splits)
    with True show ?thesis by (intro exI [of _ 0]) (auto simp: loop_stops_def)
  next
    case False
    then obtain d where ev: "event t = Received d" "\<not> ctx_err t" by blast
    obtain res err tr1 s1 where p: "process_rabbitmq_delivery store d s = ((res, err), tr1, s1)"
      by (metis prod_cases4 surj_pair)
    note one = process_settles_once [OF p]
    show ?thesis
    proof (cases "err = None \<and> Settlement res \<noteq> settlementNackRequeue")
      case True
      obtain out2 tr2 s2 where rec: "run_worker_delivery_loop store ts s1 = (out2, tr2, s2)"
        by (metis prod_cases3)
      have r: "out = out2" "tr = (Body d, call_of (Settlement res)) # tr2" "s' = s2"
        using Cons.prems ev p True rec one(2) by auto
      from Cons.IH [OF rec] obtain k where k: "k \<le> length ts"
        "\<forall>t \<in> set (take k ts). \<not> ctx_err t \<and> (\<exists>d. event t = Received d)"
        "handle_all store (offered (take k ts)) s1 = (tr2, s2)" "loop_stops out2 ts tr2 k" by blast
      show ?thesis
        using k ev one(1) loop_stops_Cons [OF k(4), of t "(Body d, call_of (Settlement res))"]
        by (intro exI [of _ "Suc k"]) (simp add: r)
    next
      case False
      have r: "tr = [(Body d, call_of (Settlement res))]" "s' = s1" "\<exists>e. out = Returned e"
        using Cons.prems ev p False one(2) by (cases err; auto split: if_splits)+
      have "call_of (Settlement res) = Nack False True \<or> acknowledger d (call_of (Settlement res)) \<noteq> None"
        using False one(3) by (auto simp: call_of_def)
      with r ev one(1) show ?thesis
        by (intro exI [of _ 1]) (auto simp: loop_stops_def)
    qed
  qed
qed

text \<open>
  After a delivery has been put back for redelivery, or could not be settled, the loop takes no
  further one.
\<close>

lemma nack_ends_loop:
  "run_worker_delivery_loop store ts s = (out, tr, s') \<Longrightarrow> Nack a b \<in> snd ` set (butlast tr) \<Longrightarrow> False"
proof (induction ts arbitrary: s out tr s')
  case Nil
  then show ?case by auto
next
  case (Cons t ts)
  show ?case
  proof (cases "ctx_err t \<or> (\<nexists>d. event t = Received d)")
    case True
    with Cons.prems show ?thesis by (auto split: loop_event.splits if_splits)
  next
    case False
    then obtain d where ev: "event t = Received d" "\<not> ctx_err t" by blast
    obtain res err tr1 s1 where p: "process_rabbitmq_delivery store d s = ((res, err), tr1, s1)"
      by (metis prod_cases4 surj_pair)
    note one = process_settles_once(1,2) [OF p]
    have st: "Settlement res \<in> {settlementAck, settlementReject, settlementNackRequeue}"
      using handler_settles(1) one(1) unfolding handle_worker_message_def by metis
    show ?thesis
    proof (cases "err = None \<and> Settlement res \<noteq> settlementNackRequeue")
      case True
      obtain out2 tr2 s2 where rec: "run_worker_delivery_loop store ts s1 = (out2, tr2, s2)"
        by (metis prod_cases3)
      then have "tr = (Body d, call_of (Settlement res)) # tr2"
        using Cons.prems(1) ev p True one by auto
      with Cons.prems(2) True st Cons.IH [OF rec] show ?thesis
        by (auto simp: call_of_def split: if_splits)
    next
      case False
      then have "tr = tr1" using Cons.prems ev p by (cases err) (auto split: if_splits)
      with Cons.prems(2) one show ?thesis by simp
    qed
  qed
qed

section \<open>What holds of every settlement\<close>

text \<open>
  A store and handler keep a property of settlements \<open>holds s payload call\<close> when each handled payload's
  settlement has it afterwards, and handling loses it for none. Then it holds of all settlements of a
  run, at the end.
\<close>

definition calls_hold :: "('s \<Rightarrow> bytes \<Rightarrow> amqp_call \<Rightarrow> bool) \<Rightarrow> settlement_trace \<Rightarrow> 's \<Rightarrow> bool" where
  "calls_hold holds tr s = (\<forall>(p, c) \<in> set tr. holds s p c)"

lemma calls_hold_simps [simp]:
  "calls_hold holds [] s" "calls_hold holds (tr @ tr') s \<longleftrightarrow> calls_hold holds tr s \<and> calls_hold holds tr' s"
  "calls_hold holds [(p, c)] s = holds s p c"
  by (auto simp: calls_hold_def)

locale delivery_contract =
  fixes store :: "'s job_completer" and inv :: "'s \<Rightarrow> bool" and holds :: "'s \<Rightarrow> bytes \<Rightarrow> amqp_call \<Rightarrow> bool"
  assumes handled_holds:
      "inv s \<Longrightarrow> handle_worker_message store payload s = ((st, err), s') \<Longrightarrow>
         inv s' \<and> holds s' payload (call_of st)"
    and handled_keeps:
      "inv s \<Longrightarrow> handle_worker_message store payload s = (r, s') \<Longrightarrow> holds s p c \<Longrightarrow> holds s' p c"
begin

lemma loop_holds:
  "run_worker_delivery_loop store ts s = (out, tr, s') \<Longrightarrow> inv s \<Longrightarrow>
     inv s' \<and> calls_hold holds tr s' \<and> (\<forall>p c. holds s p c \<longrightarrow> holds s' p c)"
proof (induction ts arbitrary: s out tr s')
  case Nil
  then show ?case by auto
next
  case (Cons t ts)
  show ?case
  proof (cases "ctx_err t \<or> (\<nexists>d. event t = Received d)")
    case True
    with Cons.prems have "tr = [] \<and> s' = s" by (auto split: loop_event.splits if_splits)
    with Cons.prems show ?thesis by simp
  next
    case False
    then obtain d where ev: "event t = Received d" "\<not> ctx_err t" by blast
    obtain res err tr1 s1 where p: "process_rabbitmq_delivery store d s = ((res, err), tr1, s1)"
      by (metis prod_cases4 surj_pair)
    note h = process_settles_once(1) [OF p]
    have one: "inv s1" "calls_hold holds tr1 s1" "\<And>p c. holds s p c \<Longrightarrow> holds s1 p c"
      using handled_holds [OF Cons.prems(2) h] handled_keeps [OF Cons.prems(2) h] process_settles_once(2) [OF p] by auto
    show ?thesis
    proof (cases "err = None \<and> Settlement res \<noteq> settlementNackRequeue")
      case True
      obtain out2 tr2 s2 where rec: "run_worker_delivery_loop store ts s1 = (out2, tr2, s2)"
        by (metis prod_cases3)
      note ih = Cons.IH [OF rec one(1)]
      have "tr = tr1 @ tr2" and "s' = s2" using Cons.prems(1) ev p True rec by auto
      moreover have "calls_hold holds tr1 s2" using one(2) ih by (auto simp: calls_hold_def)
      ultimately show ?thesis using ih one(3) by auto
    next
      case False
      then have "tr = tr1 \<and> s' = s1" using Cons.prems ev p by (cases err) (auto split: if_splits)
      with one show ?thesis by blast
    qed
  qed
qed

end

section \<open>Acknowledged means settled\<close>

definition ack_means :: "('s \<Rightarrow> int64 \<Rightarrow> int64 \<Rightarrow> bool) \<Rightarrow> 's \<Rightarrow> bytes \<Rightarrow> amqp_call \<Rightarrow> bool" where
  "ack_means done_in s payload c =
     (case c of Ack all \<Rightarrow> \<exists>m. accepted_message payload m \<and> done_in s (wm_JobID m) (wm_WorkItemID m) | _ \<Rightarrow> True)"

text \<open>The loop runs the worker's own processor, so its contract is over that one.\<close>

locale worker_completer = completer store successful_processor inv settled
  for store :: "'s job_completer" and inv :: "'s \<Rightarrow> bool" and settled :: "'s \<Rightarrow> int64 \<Rightarrow> int64 \<Rightarrow> bool"

sublocale worker_completer \<subseteq> acks: delivery_contract store inv "ack_means settled"
proof
  fix s payload st err s'
  assume inv: "inv s" and h: "handle_worker_message store payload s = ((st, err), s')"
  note h' = h [unfolded handle_worker_message_def]
  show "inv s' \<and> ack_means settled s' payload (call_of st)"
    using handler_keeps(1) [OF inv h'] ack_settled [OF inv, of payload err s'] h'
    by (auto simp: ack_means_def call_of_def)
next
  show "ack_means settled s' p c" if "inv s" "handle_worker_message store payload s = (r, s')" "ack_means settled s p c"
    for s payload r s' p c
    using that handler_keeps(2) [OF that(1) that(2) [unfolded handle_worker_message_def]]
    by (auto simp: ack_means_def split: amqp_call.splits)
qed

section \<open>The PostgreSQL store keeps the contract\<close>

text \<open>The worker's store on the connection pool (\<open>postgresWorkerStore\<close>).\<close>

definition postgres_worker_store :: "world job_completer" where
  "postgres_worker_store =
     \<lparr>GetProcessingJob = get_processing_job exec_auto,
      CompleteProcessingJob = complete_processing_job,
      RecordProcessingFailure = record_processing_failure\<rparr>"

lemma keeps_of_evolves:
  "evolves w w' \<Longrightarrow> world_ok w \<Longrightarrow> world_ok w' \<and> (settled w j i \<longrightarrow> settled w' j i)"
  using evolves_world_ok settled_evolves by blast

lemmas store_keeps =
  keeps_of_evolves [OF get_processing_job_evolves] keeps_of_evolves [OF complete_processing_job_evolves]
  keeps_of_evolves [OF record_processing_failure_evolves]

lemma get_job_settled:
  "get_processing_job exec_auto j i w = (Inr job, w') \<Longrightarrow> wj_State job = Succeeded \<or> wj_State job = Failed
     \<Longrightarrow> settled w' j i"
  by (drule get_job_reads) (auto simp: settled_def scan_worker_processing_job_def terminal_def)

interpretation pg: worker_completer postgres_worker_store world_ok settled
proof
  show "settled w' j i" if "GetProcessingJob postgres_worker_store j i w = (Inr job, w')"
      "wj_State job = Succeeded \<or> wj_State job = Failed" for w j i job w'
    using that by (simp add: postgres_worker_store_def get_job_settled)
  show "settled w' j i" if "world_ok w" "CompleteProcessingJob postgres_worker_store j i w = (Inr c, w')"
    for w j i c w'
    using that complete_processing_job_settled by (simp add: postgres_worker_store_def)
  show "settled w' j i" if "world_ok w"
      "RecordProcessingFailure postgres_worker_store j i code m w = (Inr f, w')"
      "pf_Disposition f \<noteq> processingFailureRetryable" for w j i code m f w'
    using that record_processing_failure_settled by (simp add: postgres_worker_store_def)
qed (auto simp: postgres_worker_store_def successful_processor_def dest: store_keeps)

end
