(* ===== verification/RuntimeConfig.thy ===== *)
theory RuntimeConfig
  imports GoStrings
begin

text \<open>
  \<open>internal/runtimeconfig/value.go\<close> and \<open>loadWorkerConfig\<close> of \<open>worker/main.go\<close>: settings taken from an
  environment variable or from the file another variable names. The environment is the \<open>lookup\<close>
  function of the code; the file system is a function from paths to contents or an error.
\<close>

definition Value :: "(string \<Rightarrow> string) \<Rightarrow> (string \<Rightarrow> bytes result) \<Rightarrow> string \<Rightarrow> string result" where
  "Value lookup read_file name =
     (let file_name = name @ ''_FILE''; direct = lookup name; path = lookup file_name in
      if direct \<noteq> [] \<and> path \<noteq> [] then
        Inl (Opaque (name @ '' and '' @ file_name @ '' are both set; set only one''))
      else if direct \<noteq> [] then Inr direct
      else if path = [] then Inl (Opaque (name @ '' is required (or set '' @ file_name @ '')''))
      else (case read_file path of
        Inl err \<Rightarrow> Inl (Wrap (''read '' @ file_name) err)
      | Inr contents \<Rightarrow>
          (let value = trim_right {CHR 0x0D, CHR 0x0A} contents in
           if value = [] then Inl (Opaque (file_name @ '' file '' @ path @ '' is empty''))
           else Inr value)))"

section \<open>Exactly one source\<close>

lemma Value_direct:
  "Value lookup read_file name = Inr v \<Longrightarrow> lookup name \<noteq> [] \<Longrightarrow> v = lookup name \<and> lookup (name @ ''_FILE'') = []"
  by (auto simp: Value_def Let_def split: if_splits)

lemma Value_file:
  assumes "Value lookup read_file name = Inr v" and "lookup name = []"
  shows "\<exists>contents. lookup (name @ ''_FILE'') \<noteq> [] \<and> read_file (lookup (name @ ''_FILE'')) = Inr contents
           \<and> v = trim_right {CHR 0x0D, CHR 0x0A} contents"
  using assms by (auto simp: Value_def Let_def split: if_splits sum.splits)

lemma Value_nonempty: "Value lookup read_file name = Inr v \<Longrightarrow> v \<noteq> []"
  by (auto simp: Value_def Let_def split: if_splits sum.splits)

text \<open>
  What an error says does not depend on the credential: two environments that set the same sources
  and whose files fail alike give the same error, whatever the values are.
\<close>

definition same_sources :: "(string \<Rightarrow> string) \<Rightarrow> (string \<Rightarrow> string) \<Rightarrow> string \<Rightarrow> bool" where
  "same_sources lookup lookup' name =
     ((lookup name = []) = (lookup' name = []) \<and> lookup (name @ ''_FILE'') = lookup' (name @ ''_FILE''))"

definition same_failures :: "(string \<Rightarrow> bytes result) \<Rightarrow> (string \<Rightarrow> bytes result) \<Rightarrow> string \<Rightarrow> bool" where
  "same_failures read_file read_file' path =
     (case (read_file path, read_file' path) of
        (Inl e, Inl e') \<Rightarrow> e = e'
      | (Inr c, Inr c') \<Rightarrow>
          (trim_right {CHR 0x0D, CHR 0x0A} c = []) = (trim_right {CHR 0x0D, CHR 0x0A} c' = [])
      | _ \<Rightarrow> False)"

lemma Value_error_same:
  assumes "same_sources lookup lookup' name" and "same_failures read_file read_file' (lookup (name @ ''_FILE''))"
    and "Value lookup read_file name = Inl e"
  shows "Value lookup' read_file' name = Inl e"
  using assms
  by (auto simp: Value_def Let_def same_sources_def same_failures_def split: if_splits sum.splits)

section \<open>The worker's configuration\<close>

definition defaultWorkerQueue :: string where
  "defaultWorkerQueue = ''work_item_processing''"

record worker_config =
  wc_DatabaseURL :: string
  wc_RabbitMQWorkerURL :: string
  wc_QueueName :: string

definition load_worker_config ::
  "(string \<Rightarrow> string) \<Rightarrow> (string \<Rightarrow> bytes result) \<Rightarrow> worker_config result" where
  "load_worker_config lookup read_file =
     (case Value lookup read_file ''DATABASE_URL'' of
        Inl err \<Rightarrow> Inl err
      | Inr database_url \<Rightarrow>
     (case Value lookup read_file ''RABBITMQ_WORKER_URL'' of
        Inl err \<Rightarrow> Inl err
      | Inr worker_url \<Rightarrow>
     (let queue = lookup ''RABBITMQ_QUEUE'' in
      Inr \<lparr>wc_DatabaseURL = database_url, wc_RabbitMQWorkerURL = worker_url,
           wc_QueueName = (if queue = [] then defaultWorkerQueue else queue)\<rparr>)))"

lemma load_worker_config_complete:
  assumes "load_worker_config lookup read_file = Inr c"
  shows "wc_DatabaseURL c \<noteq> []" and "wc_RabbitMQWorkerURL c \<noteq> []" and "wc_QueueName c \<noteq> []"
  using assms
  by (auto simp: load_worker_config_def Let_def defaultWorkerQueue_def split: sum.splits if_splits
           dest: Value_nonempty)

section \<open>Properties\<close>

text \<open>
  One source for a credential: a setting is taken only if exactly one of the variable and its file
  is set: from the variable unchanged, or from the file without its trailing line breaks; it is
  never empty, and both set, none set, an unreadable or an empty file are errors.
\<close>

lemma value_one_source:
  "(\<exists>v. Value lookup read_file name = Inr v) \<longleftrightarrow>
     (lookup name \<noteq> []) \<noteq> (lookup (name @ ''_FILE'') \<noteq> [])
     \<and> (if lookup name = [] then (case read_file (lookup (name @ ''_FILE'')) of
            Inl err \<Rightarrow> False | Inr contents \<Rightarrow> trim_right {CHR 0x0D, CHR 0x0A} contents \<noteq> []) else True)"
  by (auto simp: Value_def Let_def split: sum.splits)

text \<open>
  Errors do not show credentials: what an error of reading a setting says does not depend on the
  credential: two environments that set the same sources, with files that fail alike, give the same
  error, whatever the values are.
\<close>

lemma error_hides_value:
  assumes "same_sources lookup lookup' name" and "same_failures read_file read_file' (lookup (name @ ''_FILE''))"
    and "Value lookup read_file name = Inl e"
  shows "Value lookup' read_file' name = Inl e"
  using assms by (rule Value_error_same)

lemma error_hides_value_witness:
  "Value (\<lambda>k. if k = ''DATABASE_URL'' then ''other'' else ''/run/secret'') (\<lambda>_. Inr ''x'') ''DATABASE_URL''
   = Value (\<lambda>k. if k = ''DATABASE_URL'' then ''secret'' else ''/run/secret'') (\<lambda>_. Inr ''x'') ''DATABASE_URL''"
proof -
  let ?a = "\<lambda>k. if k = ''DATABASE_URL'' then ''secret'' else ''/run/secret''"
  let ?b = "\<lambda>k. if k = ''DATABASE_URL'' then ''other'' else ''/run/secret''"
  have e: "Value ?a (\<lambda>_. Inr ''x'') ''DATABASE_URL'' =
      Inl (Opaque ''DATABASE_URL and DATABASE_URL_FILE are both set; set only one'')"
    by (simp add: Value_def)
  have "Value ?b (\<lambda>_. Inr ''x'') ''DATABASE_URL'' =
      Inl (Opaque ''DATABASE_URL and DATABASE_URL_FILE are both set; set only one'')"
    by (rule error_hides_value [OF _ _ e]) (simp_all add: same_sources_def same_failures_def)
  with e show ?thesis by simp
qed

end
