(* ===== verification/WorkerRuntime.thy ===== *)
theory WorkerRuntime
  imports Delivery RuntimeConfig
begin

text \<open>
  \<open>worker/rabbitmq_consumer.go\<close>, \<open>rabbitmq_client.go\<close>, \<open>rabbitmq_session.go\<close>, \<open>worker_session.go\<close>,
  \<open>worker_lifecycle.go\<close>, \<open>store_runtime.go\<close> and \<open>runWorkerProcess\<close> of \<open>main.go\<close>: sessions on the
  broker, one after another until the context is done. The broker and the AMQP library are an
  environment that answers each call; the calls and settlements are kept in order as events.
\<close>

section \<open>The broker's side\<close>

definition workerConsumerTag :: string where
  "workerConsumerTag = ''zero-to-prod-worker''"

definition rabbitMQWorkerSessionCloseTimeout :: duration where
  "rabbitMQWorkerSessionCloseTimeout = 2 * Second"

definition workerSessionRetryDelay :: duration where
  "workerSessionRetryDelay = 1 * Second"

text \<open>The answers of one channel and one connection; \<open>consume\<close> answers with the delivery stream.\<close>

record consumer_channel =
  Qos :: "int \<Rightarrow> int \<Rightarrow> bool \<Rightarrow> go_error option"
  ConsumeWithContext :: "string \<Rightarrow> string \<Rightarrow> bool \<Rightarrow> bool \<Rightarrow> bool \<Rightarrow> bool \<Rightarrow> loop_turn list result"

record worker_connection =
  OpenChannel :: "consumer_channel result"
  CloseWithin :: "duration \<Rightarrow> go_error option"

type_synonym worker_dialer = "string \<Rightarrow> worker_connection result"

text \<open>A call with its arguments and whether it succeeded, a settlement, or the process's own steps.\<close>

datatype worker_event =
    Dialled string bool
  | ChannelOpened bool
  | QosSet int int bool bool
  | Consumed string string bool bool bool bool bool
  | Settled bytes amqp_call
  | ClosedWithin duration
  | ExitReported "go_error option"
  | StoreClosed

section \<open>Opening a session\<close>

definition start_rabbitmq_consumer ::
  "consumer_channel \<Rightarrow> string \<Rightarrow> loop_turn list result \<times> worker_event list" where
  "start_rabbitmq_consumer channel queue_name =
     (case Qos channel 1 0 False of
        Some err \<Rightarrow> (Inl (Wrap ''configure RabbitMQ worker QoS'' err), [QosSet 1 0 False False])
      | None \<Rightarrow>
     (case ConsumeWithContext channel queue_name workerConsumerTag False False False False of
        Inl err \<Rightarrow>
          (Inl (Wrap ''start RabbitMQ worker consumer'' err),
           [QosSet 1 0 False True, Consumed queue_name workerConsumerTag False False False False False])
      | Inr deliveries \<Rightarrow>
          (Inr deliveries,
           [QosSet 1 0 False True, Consumed queue_name workerConsumerTag False False False False True])))"

record worker_session =
  connection :: "worker_connection option"
  Deliveries :: "loop_turn list"

definition close_session :: "worker_session \<Rightarrow> go_error option \<times> worker_event list" where
  "close_session session =
     (case connection session of
        None \<Rightarrow> (None, [])
      | Some c \<Rightarrow>
          ((case CloseWithin c rabbitMQWorkerSessionCloseTimeout of
              None \<Rightarrow> None
            | Some err \<Rightarrow>
                (if errors_is err AmqpErrClosed then None
                 else Some (Wrap ''close RabbitMQ worker connection'' err))),
           [ClosedWithin rabbitMQWorkerSessionCloseTimeout]))"

definition new_rabbitmq_worker_session_with_dialer ::
  "worker_dialer \<Rightarrow> string \<Rightarrow> string \<Rightarrow> worker_session result \<times> worker_event list" where
  "new_rabbitmq_worker_session_with_dialer dialer connection_url queue_name =
     (case dialer connection_url of
        Inl err \<Rightarrow> (Inl (Wrap ''connect to RabbitMQ worker broker'' err), [Dialled connection_url False])
      | Inr c \<Rightarrow>
     (case OpenChannel c of
        Inl err \<Rightarrow>
          (let open_err = Wrap ''open RabbitMQ worker channel'' err;
               events = [Dialled connection_url True, ChannelOpened False,
                         ClosedWithin rabbitMQWorkerSessionCloseTimeout] in
           (case CloseWithin c rabbitMQWorkerSessionCloseTimeout of
              Some close_err \<Rightarrow>
                (if errors_is close_err AmqpErrClosed then (Inl open_err, events)
                 else
                   (Inl (Joined [open_err,
                      Wrap ''close RabbitMQ worker connection after channel-open failure'' close_err]),
                    events))
            | None \<Rightarrow> (Inl open_err, events)))
      | Inr channel \<Rightarrow>
     (case start_rabbitmq_consumer channel queue_name of
        (Inl err, events) \<Rightarrow>
          (let setup_err = Wrap ''configure RabbitMQ worker consumer'' err in
           (case close_session \<lparr>connection = Some c, Deliveries = []\<rparr> of
              (Some close_err, close_events) \<Rightarrow>
                (Inl (Joined [setup_err, close_err]),
                 [Dialled connection_url True, ChannelOpened True] @ events @ close_events)
            | (None, close_events) \<Rightarrow>
                (Inl setup_err,
                 [Dialled connection_url True, ChannelOpened True] @ events @ close_events)))
      | (Inr deliveries, events) \<Rightarrow>
          (Inr \<lparr>connection = Some c, Deliveries = deliveries\<rparr>,
           [Dialled connection_url True, ChannelOpened True] @ events))))"

text \<open>
  \<open>dialRabbitMQWorker\<close> over the library's connection: its \<open>Channel\<close> and its \<open>CloseDeadline\<close>, which
  takes a point in time.
\<close>

record amqp_connection =
  Channel :: "consumer_channel result"
  CloseDeadline :: "timestamp \<Rightarrow> go_error option"

definition amqp_worker_connection :: "timestamp \<Rightarrow> amqp_connection \<Rightarrow> worker_connection" where
  "amqp_worker_connection now c =
     \<lparr>OpenChannel =
        (case Channel c of
           Inl err \<Rightarrow> Inl (Wrap ''open AMQP worker channel'' err)
         | Inr channel \<Rightarrow> Inr channel),
      CloseWithin = (\<lambda>timeout. CloseDeadline c (now + timeout))\<rparr>"

definition dial_rabbitmq_worker ::
  "(string \<Rightarrow> amqp_connection result) \<Rightarrow> timestamp \<Rightarrow> worker_dialer" where
  "dial_rabbitmq_worker amqp_dial now connection_url =
     (case amqp_dial connection_url of
        Inl err \<Rightarrow> Inl (Wrap ''dial RabbitMQ worker'' err)
      | Inr c \<Rightarrow> Inr (amqp_worker_connection now c))"

definition new_rabbitmq_worker_session ::
  "(string \<Rightarrow> amqp_connection result) \<Rightarrow> timestamp \<Rightarrow> string \<Rightarrow> string
     \<Rightarrow> worker_session result \<times> worker_event list" where
  "new_rabbitmq_worker_session amqp_dial now =
     new_rabbitmq_worker_session_with_dialer (dial_rabbitmq_worker amqp_dial now)"

section \<open>Running a session\<close>

definition session_result :: "go_error option \<Rightarrow> go_error option \<Rightarrow> go_error option" where
  "session_result loop_err close_err =
     (case (loop_err, close_err) of
        (Some l, Some c) \<Rightarrow>
          errors_join [Some (Wrap ''run worker delivery loop'' l),
                       Some (Wrap ''close worker delivery session'' c)]
      | (Some l, None) \<Rightarrow> Some (Wrap ''run worker delivery loop'' l)
      | (None, Some c) \<Rightarrow> Some (Wrap ''close worker delivery session'' c)
      | (None, None) \<Rightarrow> None)"

text \<open>The session is closed when the loop returns, whatever it returned.\<close>

definition run_worker_session ::
  "'s job_completer \<Rightarrow> worker_session result \<times> worker_event list \<Rightarrow> 's
     \<Rightarrow> loop_outcome \<times> worker_event list \<times> 's" where
  "run_worker_session store new_session s =
     (case new_session of
        (Inl err, events) \<Rightarrow> (Returned (Some (Wrap ''open worker delivery session'' err)), events, s)
      | (Inr session, events) \<Rightarrow>
     (case run_worker_delivery_loop store (Deliveries session) s of
        (Waiting, tr, s') \<Rightarrow> (Waiting, events @ map (\<lambda>(p, c). Settled p c) tr, s')
      | (Returned loop_err, tr, s') \<Rightarrow>
          (case close_session session of
             (close_err, close_events) \<Rightarrow>
               (Returned (session_result loop_err close_err),
                events @ map (\<lambda>(p, c). Settled p c) tr @ close_events, s'))))"

section \<open>The lifecycle\<close>

text \<open>
  With no delay the \<open>select\<close> falls through unless the context is done; with one it waits for the
  first of the two.
\<close>

definition wait_for_worker_retry_delay :: "wait_event \<Rightarrow> duration \<Rightarrow> bool" where
  "wait_for_worker_retry_delay ev delay =
     (if delay \<le> 0 then (case ev of ContextDone \<Rightarrow> False | _ \<Rightarrow> True)
      else (case ev of ContextDone \<Rightarrow> False | DelayElapsed \<Rightarrow> True))"

text \<open>
  One round of the lifecycle: whether the context is done before the session and after it, the
  answers the broker will give in it, and how the delay ends.
\<close>

record 'e lifecycle_turn =
  lt_before :: bool
  lt_session :: 'e
  lt_after :: bool
  lt_wait :: wait_event

fun run_worker_lifecycle_with_reporter ::
  "('e \<Rightarrow> 's \<Rightarrow> loop_outcome \<times> worker_event list \<times> 's) \<Rightarrow> duration
     \<Rightarrow> (go_error option \<Rightarrow> worker_event list) option \<Rightarrow> 'e lifecycle_turn list \<Rightarrow> 's
     \<Rightarrow> loop_outcome \<times> worker_event list \<times> 's" where
  "run_worker_lifecycle_with_reporter run_session retry_delay report_exit [] s = (Waiting, [], s)"
| "run_worker_lifecycle_with_reporter run_session retry_delay report_exit (t # ts) s =
     (if lt_before t then (Returned None, [], s)
      else case run_session (lt_session t) s of
        (Waiting, events, s') \<Rightarrow> (Waiting, events, s')
      | (Returned session_err, events, s') \<Rightarrow>
          (if lt_after t then (Returned None, events, s')
           else
             (let reported = (case report_exit of None \<Rightarrow> [] | Some f \<Rightarrow> f session_err) in
              if \<not> wait_for_worker_retry_delay (lt_wait t) retry_delay then
                (Returned None, events @ reported, s')
              else
                (case run_worker_lifecycle_with_reporter run_session retry_delay report_exit ts s' of
                   (out, events', s'') \<Rightarrow> (out, events @ reported @ events', s'')))))"

definition run_worker_lifecycle ::
  "('e \<Rightarrow> 's \<Rightarrow> loop_outcome \<times> worker_event list \<times> 's) \<Rightarrow> duration
     \<Rightarrow> 'e lifecycle_turn list \<Rightarrow> 's \<Rightarrow> loop_outcome \<times> worker_event list \<times> 's" where
  "run_worker_lifecycle run_session retry_delay ts s =
     run_worker_lifecycle_with_reporter run_session retry_delay None ts s"

section \<open>The process\<close>

text \<open>\<open>newPostgresWorkerStore\<close>: parsing the URL and creating the pool are pgxpool's.\<close>

definition new_postgres_worker_store ::
  "(string \<Rightarrow> 'cfg result) \<Rightarrow> ('cfg \<Rightarrow> 'pool result) \<Rightarrow> string \<Rightarrow> world job_completer result" where
  "new_postgres_worker_store parse_config new_pool database_url =
     (case parse_config database_url of
        Inl err \<Rightarrow> Inl (Wrap ''parse worker PostgreSQL configuration'' err)
      | Inr config \<Rightarrow>
     (case new_pool config of
        Inl err \<Rightarrow> Inl (Wrap ''create worker PostgreSQL pool'' err)
      | Inr pool \<Rightarrow> Inr postgres_worker_store))"

text \<open>
  \<open>runWorkerProcess\<close>. The environment of a session is the dialer it meets; \<open>new_session\<close> is given
  it with the configured URL and queue.
\<close>

definition run_worker_process ::
  "worker_config \<Rightarrow> (string \<Rightarrow> 's job_completer result)
     \<Rightarrow> ('e \<Rightarrow> string \<Rightarrow> string \<Rightarrow> worker_session result \<times> worker_event list)
     \<Rightarrow> 'e lifecycle_turn list \<Rightarrow> 's \<Rightarrow> loop_outcome \<times> worker_event list \<times> 's" where
  "run_worker_process config new_store new_session ts s =
     (case new_store (wc_DatabaseURL config) of
        Inl err \<Rightarrow> (Returned (Some (Wrap ''initialize worker PostgreSQL store'' err)), [], s)
      | Inr store \<Rightarrow>
     (case run_worker_lifecycle_with_reporter
             (\<lambda>e. run_worker_session store
                    (new_session e (wc_RabbitMQWorkerURL config) (wc_QueueName config)))
             workerSessionRetryDelay (Some (\<lambda>err. [ExitReported err])) ts s of
        (Waiting, events, s') \<Rightarrow> (Waiting, events, s')
      | (Returned err, events, s') \<Rightarrow> (Returned err, events @ [StoreClosed], s')))"

section \<open>The order of the calls\<close>

text \<open>
  The protocol a worker follows on the broker: dial, open a channel, set the prefetch limit to one,
  only then consume with manual acknowledgement; settle deliveries only while consuming; after a
  failure or a requeue nothing but the close; close the store last, with no connection open.
\<close>

datatype phase = Disconnected | Connected | Opened | Limited | Consuming | Draining | Stopped

fun phase_step :: "phase \<Rightarrow> worker_event \<Rightarrow> phase option" where
  "phase_step Disconnected (Dialled url ok) = Some (if ok then Connected else Disconnected)"
| "phase_step Disconnected (ExitReported err) = Some Disconnected"
| "phase_step Disconnected StoreClosed = Some Stopped"
| "phase_step Connected (ChannelOpened ok) = Some (if ok then Opened else Draining)"
| "phase_step Opened (QosSet count bytes_limit global ok) =
     (if count = 1 \<and> bytes_limit = 0 \<and> \<not> global then Some (if ok then Limited else Draining) else None)"
| "phase_step Limited (Consumed queue tag auto_ack exclusive no_local no_wait ok) =
     (if auto_ack then None else Some (if ok then Consuming else Draining))"
| "phase_step Consuming (Settled payload call) =
     Some (case call of Nack _ _ \<Rightarrow> Draining | _ \<Rightarrow> Consuming)"
| "phase_step Consuming (ClosedWithin timeout) =
     (if timeout = rabbitMQWorkerSessionCloseTimeout then Some Disconnected else None)"
| "phase_step Draining (ClosedWithin timeout) =
     (if timeout = rabbitMQWorkerSessionCloseTimeout then Some Disconnected else None)"
| "phase_step _ _ = None"

fun phases :: "phase \<Rightarrow> worker_event list \<Rightarrow> phase option" where
  "phases p [] = Some p"
| "phases p (e # es) = (case phase_step p e of None \<Rightarrow> None | Some p' \<Rightarrow> phases p' es)"

lemma phases_append: "phases p (es @ es') = (case phases p es of None \<Rightarrow> None | Some p' \<Rightarrow> phases p' es')"
  by (induction es arbitrary: p) (auto split: option.split)

lemma phases_open:
  assumes "new_rabbitmq_worker_session_with_dialer dialer url queue = (r, events)"
  shows "phases Disconnected events = Some (if is_ok r then Consuming else Disconnected)"
  using assms
  by (auto simp: new_rabbitmq_worker_session_with_dialer_def start_rabbitmq_consumer_def
           close_session_def Let_def split: sum.splits option.splits if_splits)

lemma session_connected:
  "new_rabbitmq_worker_session_with_dialer dialer url queue = (Inr session, events) \<Longrightarrow>
     connection session \<noteq> None"
  by (auto simp: new_rabbitmq_worker_session_with_dialer_def close_session_def Let_def
           split: sum.splits option.splits if_splits prod.splits)

lemma close_session_events:
  "connection session \<noteq> None \<Longrightarrow> close_session session = (err, events) \<Longrightarrow>
     events = [ClosedWithin rabbitMQWorkerSessionCloseTimeout]"
  by (auto simp: close_session_def)

lemma phases_settlements:
  "run_worker_delivery_loop store ts s = (out, tr, s') \<Longrightarrow>
     \<exists>p \<in> {Consuming, Draining}. phases Consuming (map (\<lambda>(b, c). Settled b c) tr) = Some p
       \<and> (out = Waiting \<longrightarrow> p = Consuming)"
proof (induction ts arbitrary: s out tr s')
  case Nil
  then show ?case by simp
next
  case (Cons t ts)
  show ?case
  proof (cases "ctx_err t \<or> (\<nexists>d. event t = Received d)")
    case True
    with Cons.prems show ?thesis by (auto split: loop_event.splits if_splits)
  next
    case False
    then obtain d where ev: "event t = Received d" "\<not> ctx_err t" by blast
    obtain res err tr1 s1 where p: "process_rabbitmq_delivery store d s = ((res, err), tr1, s1)"
      by (metis prod_cases4 surj_pair)
    note one = process_settles_once(2) [OF p]
    show ?thesis
    proof (cases "err = None \<and> Settlement res \<noteq> settlementNackRequeue")
      case True
      obtain out2 tr2 s2 where rec: "run_worker_delivery_loop store ts s1 = (out2, tr2, s2)"
        by (metis prod_cases3)
      have st: "Settlement res \<in> {settlementAck, settlementReject, settlementNackRequeue}"
        using handler_settles(1) process_settles_once(1) [OF p] unfolding handle_worker_message_def by metis
      have "tr = tr1 @ tr2" "out = out2" using Cons.prems ev p True rec by auto
      with Cons.IH [OF rec] one True st show ?thesis by (auto simp: call_of_def)
    next
      case False
      then have "tr = tr1" "out \<noteq> Waiting"
        using Cons.prems ev p by (cases err; auto split: if_splits)+
      with one show ?thesis by (auto simp: call_of_def)
    qed
  qed
qed

lemma phases_session:
  assumes "run_worker_session store (new_rabbitmq_worker_session_with_dialer dialer url queue) s = (out, events, s')"
  shows "phases Disconnected events = Some (if out = Waiting then Consuming else Disconnected)"
proof -
  obtain r started where n: "new_rabbitmq_worker_session_with_dialer dialer url queue = (r, started)"
    by (metis surj_pair)
  note o = phases_open [OF n]
  show ?thesis
  proof (cases r)
    case (Inl e)
    with assms n o show ?thesis by (auto simp: run_worker_session_def)
  next
    case r: (Inr session)
    obtain out1 tr s1 where l: "run_worker_delivery_loop store (Deliveries session) s = (out1, tr, s1)"
      by (metis prod_cases3)
    obtain cerr final where c: "close_session session = (cerr, final)" by (metis surj_pair)
    have closing: "final = [ClosedWithin rabbitMQWorkerSessionCloseTimeout]"
      using close_session_events [OF session_connected c] n r by blast
    from phases_settlements [OF l] obtain p where p: "p \<in> {Consuming, Draining}"
      "phases Consuming (map (\<lambda>(b, c). Settled b c) tr) = Some p" "out1 = Waiting \<longrightarrow> p = Consuming" by blast
    show ?thesis
      using assms n r l c o p closing
      by (cases out1) (auto simp: run_worker_session_def phases_append split: prod.splits)
  qed
qed

text \<open>What the lifecycle runs need only keep to the protocol session by session.\<close>

lemma phases_lifecycle:
  assumes session: "\<And>e s out events s'. run_session e s = (out, events, s') \<Longrightarrow>
      phases Disconnected events = Some (if out = Waiting then Consuming else Disconnected)"
    and report: "\<And>f err. report = Some f \<Longrightarrow> phases Disconnected (f err) = Some Disconnected"
  shows "run_worker_lifecycle_with_reporter run_session delay report ts s = (out, events, s') \<Longrightarrow>
    phases Disconnected events \<in> Some ` {Disconnected, Consuming}
      \<and> (out \<noteq> Waiting \<longrightarrow> out = Returned None \<and> phases Disconnected events = Some Disconnected)"
proof (induction ts arbitrary: s out events s')
  case Nil
  then show ?case by simp
next
  case (Cons t ts)
  obtain out1 ev1 s1 where r: "run_session (lt_session t) s = (out1, ev1, s1)" by (metis prod_cases3)
  obtain out2 ev2 s2 where rec: "run_worker_lifecycle_with_reporter run_session delay report ts s1 = (out2, ev2, s2)"
    by (metis prod_cases3)
  define rep where "rep err = (case report of None \<Rightarrow> [] | Some f \<Rightarrow> f err)" for err
  have rp: "phases Disconnected (rep err) = Some Disconnected" for err
    using report by (simp add: rep_def split: option.split)
  note step = Cons.prems [simplified, unfolded r rec Let_def, simplified] session [OF r] Cons.IH [OF rec]
  show ?case
  proof (cases out1)
    case Waiting
    with step show ?thesis by (auto split: if_splits)
  next
    case (Returned err)
    with step rp [of err] show ?thesis
      by (auto simp: phases_append rec rep_def [symmetric] split: if_splits)
  qed
qed

section \<open>Settlements over the life of a process\<close>

definition events_hold :: "('s \<Rightarrow> bytes \<Rightarrow> amqp_call \<Rightarrow> bool) \<Rightarrow> worker_event list \<Rightarrow> 's \<Rightarrow> bool" where
  "events_hold holds events s = (\<forall>p c. Settled p c \<in> set events \<longrightarrow> holds s p c)"

lemma events_hold_simps [simp]:
  "events_hold holds [] s" "events_hold holds (es @ es') s \<longleftrightarrow> events_hold holds es s \<and> events_hold holds es' s"
  "events_hold holds [ExitReported err] s" "events_hold holds [StoreClosed] s"
  "events_hold holds (map (\<lambda>(p, c). Settled p c) tr) s = calls_hold holds tr s"
  by (auto simp: events_hold_def calls_hold_def image_iff split: prod.splits) force+

lemma events_hold_mono:
  "events_hold holds es s \<Longrightarrow> (\<And>p c. holds s p c \<Longrightarrow> holds s' p c) \<Longrightarrow> events_hold holds es s'"
  unfolding events_hold_def by blast

text \<open>Opening and closing a session settles nothing.\<close>

lemma opening_holds:
  "new_rabbitmq_worker_session_with_dialer dialer url queue = (r, events) \<Longrightarrow> events_hold holds events s"
  by (auto simp: events_hold_def new_rabbitmq_worker_session_with_dialer_def
           start_rabbitmq_consumer_def close_session_def Let_def
           split: sum.splits option.splits if_splits)

lemma closing_holds: "close_session session = (r, events) \<Longrightarrow> events_hold holds events s"
  by (auto simp: events_hold_def close_session_def split: option.splits)

context delivery_contract
begin

lemma session_holds:
  assumes inv: "inv s"
    and run: "run_worker_session store (new_rabbitmq_worker_session_with_dialer dialer url queue) s =
      (out, events, s')"
  shows "inv s' \<and> events_hold holds events s' \<and> (\<forall>p c. holds s p c \<longrightarrow> holds s' p c)"
proof -
  obtain r started where n: "new_rabbitmq_worker_session_with_dialer dialer url queue = (r, started)"
    by (metis surj_pair)
  show ?thesis
  proof (cases r)
    case (Inl e)
    with run n inv opening_holds [OF n, of holds s] show ?thesis
      by (auto simp: run_worker_session_def)
  next
    case r: (Inr session)
    obtain out1 tr s1 where l: "run_worker_delivery_loop store (Deliveries session) s = (out1, tr, s1)"
      by (metis prod_cases3)
    obtain cerr final where c: "close_session session = (cerr, final)" by (metis surj_pair)
    show ?thesis
      using run n r l c loop_holds [OF l inv] opening_holds [OF n, of holds s1]
        closing_holds [OF c, of holds s1]
      by (cases out1) (auto simp: run_worker_session_def)
  qed
qed

lemma lifecycle_holds:
  assumes report: "\<And>f err s. report = Some f \<Longrightarrow> events_hold holds (f err) s"
  shows "run_worker_lifecycle_with_reporter
      (\<lambda>e. run_worker_session store (new_rabbitmq_worker_session_with_dialer (dialer e) url queue))
      delay report ts s = (out, events, s') \<Longrightarrow> inv s \<Longrightarrow>
    inv s' \<and> events_hold holds events s' \<and> (\<forall>p c. holds s p c \<longrightarrow> holds s' p c)"
proof (induction ts arbitrary: s out events s')
  case Nil
  then show ?case by simp
next
  case (Cons t ts)
  let ?run = "\<lambda>e. run_worker_session store (new_rabbitmq_worker_session_with_dialer (dialer e) url queue)"
  obtain out1 ev1 s1 where r: "?run (lt_session t) s = (out1, ev1, s1)" by (metis prod_cases3)
  note one = session_holds [OF Cons.prems(2) r]
  obtain out2 ev2 s2 where rec: "run_worker_lifecycle_with_reporter ?run delay report ts s1 = (out2, ev2, s2)"
    by (metis prod_cases3)
  define rep where "rep err = (case report of None \<Rightarrow> [] | Some f \<Rightarrow> f err)" for err
  have rp: "events_hold holds (rep err) u" for err u
    using report by (simp add: rep_def split: option.split)
  have two: "inv s2" "events_hold holds ev2 s2" "\<And>p c. holds s1 p c \<Longrightarrow> holds s2 p c"
    using Cons.IH [OF rec] one by blast+
  have ev1: "events_hold holds ev1 s2" using one two(3) by (blast intro: events_hold_mono)
  show ?case
    using Cons.prems r rec one two ev1 rp
    by (cases out1) (auto simp: Let_def rep_def [symmetric] split: if_splits)
qed

lemma process_holds:
  assumes run: "run_worker_process config (\<lambda>url. Inr store)
      (\<lambda>e. new_rabbitmq_worker_session_with_dialer (dialer e)) ts s = (out, events, s')"
    and inv: "inv s"
  shows "inv s' \<and> events_hold holds events s'"
proof -
  obtain out1 ev1 s1 where l: "run_worker_lifecycle_with_reporter
      (\<lambda>e. run_worker_session store (new_rabbitmq_worker_session_with_dialer (dialer e)
         (wc_RabbitMQWorkerURL config) (wc_QueueName config)))
      workerSessionRetryDelay (Some (\<lambda>err. [ExitReported err])) ts s = (out1, ev1, s1)"
    by (metis prod_cases3)
  then have "inv s1 \<and> events_hold holds ev1 s1" using lifecycle_holds [OF _ l inv] by fastforce
  with run l show ?thesis by (cases out1) (auto simp: run_worker_process_def)
qed

end

text \<open>The process that could not create its store does nothing.\<close>

lemma process_without_store:
  "new_store (wc_DatabaseURL config) = Inl err \<Longrightarrow>
     run_worker_process config new_store new_session ts s =
       (Returned (Some (Wrap ''initialize worker PostgreSQL store'' err)), [], s)"
  by (simp add: run_worker_process_def)

lemma process_with_store:
  "new_store (wc_DatabaseURL config) = Inr store \<Longrightarrow>
     run_worker_process config new_store new_session ts s =
     run_worker_process config (\<lambda>url. Inr store) new_session ts s"
  by (simp add: run_worker_process_def)

lemma new_postgres_store:
  "new_postgres_worker_store parse_config new_pool url = Inr store \<Longrightarrow> store = postgres_worker_store"
  by (auto simp: new_postgres_worker_store_def split: sum.splits)

end
