(* ===== verification/FailureRecording.thy ===== *)
theory FailureRecording
  imports Completion
begin

text \<open>
  What \<open>RecordProcessingFailure\<close> does on every branch when the store answers: the counted attempt,
  the terminal one, the classification when the guarded update matched nothing, and how many
  failures a job survives.
\<close>

section \<open>An update of jobs that no constraint refuses\<close>

lemma map_filter_update_subset:
  assumes "\<And>r. P r \<Longrightarrow> Q (f r) \<Longrightarrow> Q r" and "\<And>r. g (f r) = g r" and "distinct (map g (filter Q t))"
  shows "distinct (map g (filter Q (update_where P f t)))"
  using assms(3)
proof (induction t)
  case (Cons a t)
  let ?b = "if P a then f a else a" and ?u = "filter Q (update_where P f t)"
  have b: "Q ?b \<Longrightarrow> Q a" "g ?b = g a" using assms(1,2) by (auto split: if_splits)
  have "g ` set ?u \<subseteq> g ` set (filter Q t)"
    using assms(1,2) by (auto simp: update_where_def)
  moreover have "distinct (map g (filter Q t))" using Cons.prems by (auto split: if_splits)
  ultimately have "distinct (map g ?u)" and "Q a \<Longrightarrow> g a \<notin> g ` set ?u"
    using Cons by auto
  with b have "distinct (map g (filter Q [?b] @ ?u))" by (auto simp del: if_image_distrib)
  then show ?case by (simp add: update_where_def split: if_splits)
qed (simp add: update_where_def)

lemma update_jobs_ok:
  assumes ok: "immediate_ok d"
    and rows: "\<And>r. r \<in> set (processing_jobs d) \<Longrightarrow> P r \<Longrightarrow> job_row_ok r \<Longrightarrow> job_row_ok (f r)"
    and keys: "\<And>r. pj_id (f r) = pj_id r" "\<And>r. pj_work_item_id (f r) = pj_work_item_id r"
    and active: "\<And>r. P r \<Longrightarrow> active_or_successful (f r) \<Longrightarrow> active_or_successful r"
  shows "immediate_ok (d\<lparr>processing_jobs := update_where P f (processing_jobs d)\<rparr>)"
proof -
  let ?t = "update_where P f (processing_jobs d)"
  have "list_all job_row_ok ?t"
    using ok rows by (auto simp: constraint_defs list_all_iff set_update_where)
  moreover have "list_all (\<lambda>r. pj_work_item_id r \<in> wi_id ` set (work_items d)) ?t"
    using ok by (auto simp: constraint_defs list_all_iff set_update_where keys)
  moreover have "unique_key pj_work_item_id (filter active_or_successful ?t)"
    using ok map_filter_update_subset [where Q = active_or_successful and f = f and g = pj_work_item_id and P = P,
        OF active keys(2)] by (simp add: unique_key_def constraint_defs)
  moreover have "unique_key pj_id ?t"
    using ok by (auto simp: constraint_defs unique_key_def update_where_def keys o_def
      intro: back_subst [where P = distinct] cong: map_cong)
  moreover have "pj_id ` set ?t = pj_id ` set (processing_jobs d)"
    by (rule update_where_image) (rule keys)
  moreover have "(\<lambda>j. (pj_id j, pj_work_item_id j)) ` set ?t
      = (\<lambda>j. (pj_id j, pj_work_item_id j)) ` set (processing_jobs d)"
    by (rule update_where_image) (simp add: keys)
  ultimately show ?thesis
    using ok by (simp add: immediate_ok_def jobs_ok_def outbox_ok_def results_ok_def)
qed

section \<open>The counted attempt\<close>

definition with_failed_attempt :: "int64 \<Rightarrow> int64 \<Rightarrow> string \<Rightarrow> int \<Rightarrow> timestamp \<Rightarrow> database \<Rightarrow> database" where
  "with_failed_attempt j i code m now d =
     d\<lparr>processing_jobs := update_where (open_job j i) (record_failure_row code m now) (processing_jobs d)\<rparr>"

lemma with_failed_attempt_ok:
  assumes ok: "db_ok d"
    and count: "\<And>r. r \<in> set (processing_jobs d) \<Longrightarrow> open_job j i r \<Longrightarrow> pj_attempt_count r < int32_max"
  shows "db_ok (with_failed_attempt j i code m now d)"
proof -
  have "immediate_ok (with_failed_attempt j i code m now d)"
    unfolding with_failed_attempt_def
  proof (rule update_jobs_ok)
    show "immediate_ok d" using ok by (simp add: db_ok_def)
    show "job_row_ok (record_failure_row code m now r)"
      if "r \<in> set (processing_jobs d)" "open_job j i r" "job_row_ok r" for r
      using that count [OF that(1,2)]
      by (auto simp: job_row_ok_def record_failure_row_def in_int32_def int32_max_def)
  qed (auto simp: record_failure_row_def active_or_successful_def open_job_def split: if_splits)
  moreover have "deferred_ok (with_failed_attempt j i code m now d)"
  proof -
    let ?t = "update_where (open_job j i) (record_failure_row code m now) (processing_jobs d)"
    have kept: "r \<in> set ?t \<longleftrightarrow> r \<in> set (processing_jobs d)" if "pj_state r = Succeeded" for r
      using that in_update_where [of r "processing_jobs d" "open_job j i" "record_failure_row code m now"]
      by (auto simp: set_update_where open_job_def record_failure_row_def split: if_splits)
    have "q \<in> (\<lambda>j. (pj_id j, pj_work_item_id j, pj_state j)) ` set ?t"
      if "q \<in> (\<lambda>j. (pj_id j, pj_work_item_id j, pj_state j)) ` set (processing_jobs d)"
        "snd (snd q) = Succeeded" for q
      using that kept by (auto simp: image_iff)
    then show ?thesis
      using ok kept
      by (auto simp: db_ok_def deferred_ok_def with_failed_attempt_def result_completed_item_fk_def
          result_successful_job_fk_def completed_item_result_fk_def successful_job_result_fk_def list_all_iff)
  qed
  ultimately show ?thesis by (simp add: db_ok_def)
qed

lemma record_processing_failure_counts:
  assumes calm: "calm w" and ok: "db_ok (db w)" and "0 < m" and "code \<noteq> []"
    and job: "row_at pj_id (processing_jobs (db w)) j = Some r" and r: "open_job j i r"
    and count: "pj_attempt_count r < int32_max"
  shows "\<exists>w'. record_processing_failure j i code m w =
      (Inr \<lparr>pf_Disposition = (if pj_attempt_count r + 1 < m then processingFailureRetryable
                              else processingFailureTerminal),
            pf_Job = scan_worker_processing_job (record_failure_row code m (clock (next_turn w)) r)\<rparr>, w')
    \<and> db w' = with_failed_attempt j i code m (clock (next_turn w)) (db w) \<and> seqs w' = seqs w \<and> calm w'"
proof -
  let ?now = "clock (next_turn w)"
  let ?row = "record_failure_row code m ?now r"
  have u: "unique_key pj_id (processing_jobs (db w))" using ok by (simp add: db_ok_def constraint_defs)
  have sel: "select_where (open_job j i) (processing_jobs (db w)) = [r]"
    using filter_unique_key [OF u, of j "\<lambda>r. pj_work_item_id r = i \<and> pj_state r = Accepted"] job r
    by (simp add: select_where_def open_job_def [abs_def])
  then have st: "record_failure_stmt j i code m ?now (db w) (seqs w) =
      (Inr ?row, with_failed_attempt j i code m ?now, seqs w)"
    by (auto simp: record_failure_stmt_def with_failed_attempt_def query_row_def)
  have "db_ok (with_failed_attempt j i code m ?now (db w))"
  proof (rule with_failed_attempt_ok [OF ok])
    fix q assume "q \<in> set (processing_jobs (db w))" and "open_job j i q"
    then have "q \<in> set (select_where (open_job j i) (processing_jobs (db w)))" by (simp add: select_where_def)
    with sel count show "pj_attempt_count q < int32_max" by simp
  qed
  then have "exec_auto (record_failure_stmt j i code m) w =
      (Inr ?row, (tick w)\<lparr>db := with_failed_attempt j i code m ?now (db w), seqs := seqs w\<rparr>)"
    by (intro exec_auto_calm [where st = "record_failure_stmt j i code m", OF calm st]) (simp_all add: db_ok_def)
  then show ?thesis
    using assms(3,4) calm
    by (auto simp: record_processing_failure_def scan_worker_processing_job_def record_failure_row_def)
qed

section \<open>When the guarded update matched nothing\<close>

text \<open>Closed jobs, jobs of another item and unknown jobs are told apart, and nothing is written.\<close>

lemma record_processing_failure_closed:
  assumes calm: "calm w" and ok: "db_ok (db w)" and "0 < m" and "code \<noteq> []"
    and closed: "case row_at pj_id (processing_jobs (db w)) j of Some r \<Rightarrow> \<not> open_job j i r | None \<Rightarrow> True"
  shows "\<exists>w'. record_processing_failure j i code m w =
      (case row_at pj_id (processing_jobs (db w)) j of
         None \<Rightarrow> Inl job_not_found
       | Some r \<Rightarrow>
           (if pj_work_item_id r \<noteq> i then Inl job_mismatch
            else Inr \<lparr>pf_Disposition = processingFailureAlreadyTerminal,
                      pf_Job = scan_worker_processing_job r\<rparr>), w')
    \<and> db w' = db w \<and> calm w'"
proof -
  have u: "unique_key pj_id (processing_jobs (db w))" and d: "deferred_ok (db w)" "immediate_ok (db w)"
    using ok by (simp_all add: db_ok_def constraint_defs)
  have "select_where (open_job j i) (processing_jobs (db w)) = []"
    using filter_unique_key [OF u, of j "\<lambda>r. pj_work_item_id r = i \<and> pj_state r = Accepted"] closed
    by (auto simp: select_where_def open_job_def [abs_def] dest: row_at_Some_in split: option.splits)
  then obtain eff where st: "record_failure_stmt j i code m (clock (next_turn w)) (db w) (seqs w) =
      (Inl (Sentinel PgxErrNoRows), eff, seqs w)"
    by (simp add: record_failure_stmt_def query_row_def)
  have e1: "exec_auto (record_failure_stmt j i code m) w = (Inl (Sentinel PgxErrNoRows), (tick w)\<lparr>seqs := seqs w\<rparr>)"
    by (rule exec_auto_calm_error [where st = "record_failure_stmt j i code m", OF calm st d(1)])
  let ?w1 = "(tick w)\<lparr>seqs := seqs w\<rparr>"
  show ?thesis
  proof (cases "row_at pj_id (processing_jobs (db w)) j")
    case None
    then have s2: "select_job_stmt j (clock (next_turn ?w1)) (db ?w1) (seqs ?w1) =
        (Inl (Sentinel PgxErrNoRows), id, seqs w)"
      by (simp add: select_job_stmt_def query_row_by_key)
    have e2: "exec_auto (select_job_stmt j) ?w1 = (Inl (Sentinel PgxErrNoRows), (tick ?w1)\<lparr>seqs := seqs w\<rparr>)"
      by (rule exec_auto_calm_error [where st = "select_job_stmt j", OF _ s2]) (use calm d in simp_all)
    show ?thesis using e1 e2 None assms(3,4) calm by (simp add: record_processing_failure_def)
  next
    case (Some r)
    then have s2: "select_job_stmt j (clock (next_turn ?w1)) (db ?w1) (seqs ?w1) = (Inr r, id, seqs w)"
      by (simp add: select_job_stmt_def query_row_by_key)
    have e2: "exec_auto (select_job_stmt j) ?w1 = (Inr r, (tick ?w1)\<lparr>db := id (db ?w1), seqs := seqs w\<rparr>)"
      by (rule exec_auto_calm [where st = "select_job_stmt j", OF _ s2]) (use calm d in simp_all)
    have "job_row_ok r" using Some ok
      by (auto simp: db_ok_def constraint_defs list_all_iff dest!: row_at_Some_in)
    then have "pj_work_item_id r = i \<Longrightarrow> pj_state r = Succeeded \<or> pj_state r = Failed"
      using closed Some by (auto simp: job_row_ok_def open_job_def dest: row_at_Some_in)
    then show ?thesis
      using e1 e2 Some assms(3,4) calm
      by (auto simp: record_processing_failure_def classify_unrecorded_def scan_worker_processing_job_def)
  qed
qed

end
