(* ===== verification/ApiStore.thy ===== *)
theory ApiStore
  imports Session
begin

text \<open>
  \<open>api/store.go\<close>: creating and listing items, reading a job, accepting processing (the job and its
  outbox message in one transaction), and the three outbox operations of the publisher.
\<close>

section \<open>Data\<close>

record title_analysis =
  ta_ProcessingJobID :: int64
  ta_InputTitle :: string
  ta_AnalysisVersion :: int
  ta_CharacterCount :: int
  ta_WordCount :: int

record work_item =
  it_ID :: int64
  it_Title :: string
  it_Status :: string
  it_CreatedAt :: timestamp
  it_Result :: "title_analysis option"

record processing_job =
  jb_ID :: int64
  jb_WorkItemID :: int64
  jb_State :: string
  jb_AttemptCount :: int
  jb_CreatedAt :: timestamp

definition no_job :: processing_job where
  "no_job = \<lparr>jb_ID = 0, jb_WorkItemID = 0, jb_State = [], jb_AttemptCount = 0, jb_CreatedAt = 0\<rparr>"

text \<open>\<open>outboxMessage\<close> of \<open>api/outbox_publisher.go\<close>.\<close>

record outbox_message =
  om_ID :: int64
  om_ProcessingJobID :: int64
  om_EventType :: string
  om_Payload :: bytes
  om_PublishAttempts :: int

text \<open>A sequence of type BIGINT that has handed out its last value.\<close>

definition sequence_error :: go_error where
  "sequence_error = Opaque ''nextval: reached maximum value of sequence''"

section \<open>Readiness\<close>

text \<open>
  The four probes select known columns of each table with \<open>LIMIT 0\<close>: they return no row. Only the error of
  \<open>Query\<close> itself is looked at: when the server has executed the statement and the answer fails
  (\<open>FaultAfter\<close>), pgx reports that through \<open>rows.Err()\<close>, which the code does not read.
\<close>

definition probe_stmt :: "unit stmt" where
  "probe_stmt now d sq = (Inr (), id, sq)"

fun probe_all :: "nat \<Rightarrow> world \<Rightarrow> go_error option \<times> world" where
  "probe_all 0 w = (None, w)"
| "probe_all (Suc n) w =
     (case exec_auto probe_stmt w of
        (Inl err, w') \<Rightarrow>
          (if fault (next_turn w) = FaultAfter then probe_all n w'
           else (Some (Wrap ''check PostgreSQL readiness'' err), w'))
      | (Inr _, w') \<Rightarrow> probe_all n w')"

definition Ready :: "world \<Rightarrow> go_error option \<times> world" where
  "Ready w = probe_all 4 w"

section \<open>Items\<close>

definition create_item_stmt :: "string \<Rightarrow> work_item_row stmt" where
  "create_item_stmt title now d sq =
     (if seq_work_items sq \<ge> int64_max then (Inl sequence_error, id, sq)
      else
        (let r = \<lparr>wi_id = seq_work_items sq + 1, wi_title = title, wi_status = Pending,
                  wi_created_at = now\<rparr> in
         (Inr r, (\<lambda>d. d\<lparr>work_items := insert_row r (work_items d)\<rparr>),
          sq\<lparr>seq_work_items := seq_work_items sq + 1\<rparr>)))"

definition scan_new_item :: "work_item_row \<Rightarrow> work_item" where
  "scan_new_item r =
     \<lparr>it_ID = wi_id r, it_Title = wi_title r, it_Status = wi_status r, it_CreatedAt = wi_created_at r,
      it_Result = None\<rparr>"

definition create_work_item :: "string \<Rightarrow> string \<Rightarrow> world \<Rightarrow> work_item result \<times> world" where
  "create_work_item title status w =
     (if status \<noteq> Pending then (Inl (Sentinel ErrInvalidWorkItemStatus), w)
      else case exec_auto (create_item_stmt title) w of
        (Inl err, w') \<Rightarrow> (Inl (Wrap ''insert work item'' err), w')
      | (Inr r, w') \<Rightarrow> (Inr (scan_new_item r), w'))"

text \<open>The subquery of the list: the analysis stored for an item, or NULL.\<close>

definition analysis_of :: "database \<Rightarrow> int64 \<Rightarrow> title_analysis option" where
  "analysis_of d i =
     map_option
       (\<lambda>r. \<lparr>ta_ProcessingJobID = wr_processing_job_id r, ta_InputTitle = wr_input_title r,
             ta_AnalysisVersion = wr_analysis_version r, ta_CharacterCount = wr_character_count r,
             ta_WordCount = wr_word_count r\<rparr>)
       (row_at wr_work_item_id (work_item_results d) i)"

definition list_items_stmt :: "work_item list stmt" where
  "list_items_stmt now d sq =
     (Inr (map (\<lambda>r. \<lparr>it_ID = wi_id r, it_Title = wi_title r, it_Status = wi_status r,
                     it_CreatedAt = wi_created_at r, it_Result = analysis_of d (wi_id r)\<rparr>)
             (sort_key wi_id (work_items d))),
      id, sq)"

text \<open>
  A failing answer to an executed query shows while its rows are read. Scanning a row cannot fail here, the
  columns having the types of their targets.
\<close>

definition list_work_items :: "world \<Rightarrow> work_item list result \<times> world" where
  "list_work_items w =
     (case exec_auto list_items_stmt w of
        (Inl err, w') \<Rightarrow>
          (Inl (Wrap (if fault (next_turn w) = FaultAfter then ''iterate work items'' else ''query work items'') err), w')
      | (Inr items, w') \<Rightarrow> (Inr items, w'))"

section \<open>Processing jobs\<close>

definition scan_processing_job :: "processing_job_row \<Rightarrow> processing_job" where
  "scan_processing_job r =
     \<lparr>jb_ID = pj_id r, jb_WorkItemID = pj_work_item_id r, jb_State = pj_state r,
      jb_AttemptCount = pj_attempt_count r, jb_CreatedAt = pj_created_at r\<rparr>"

definition api_select_job_stmt :: "int64 \<Rightarrow> processing_job_row stmt" where
  "api_select_job_stmt job_id now d sq =
     (query_row (select_where (\<lambda>r. pj_id r = job_id) (processing_jobs d)), id, sq)"

definition api_get_processing_job :: "int64 \<Rightarrow> world \<Rightarrow> processing_job result \<times> world" where
  "api_get_processing_job job_id w =
     (case exec_auto (api_select_job_stmt job_id) w of
        (Inl err, w') \<Rightarrow>
          (if errors_is err PgxErrNoRows then (Inl (Sentinel ErrProcessingJobNotFound), w')
           else (Inl (Wrap ''query processing job'' err), w'))
      | (Inr r, w') \<Rightarrow> (Inr (scan_processing_job r), w'))"

section \<open>Accepting processing\<close>

definition select_status_stmt :: "int64 \<Rightarrow> string stmt" where
  "select_status_stmt work_item_id now d sq =
     (query_row (map wi_status (select_where (\<lambda>r. wi_id r = work_item_id) (work_items d))), id, sq)"

definition active_job :: "int64 \<Rightarrow> processing_job_row \<Rightarrow> bool" where
  "active_job work_item_id r = (pj_work_item_id r = work_item_id \<and> pj_state r = Accepted)"

definition select_active_stmt :: "int64 \<Rightarrow> int64 stmt" where
  "select_active_stmt work_item_id now d sq =
     (query_row (map pj_id (select_where (active_job work_item_id) (processing_jobs d))), id, sq)"

text \<open>
  \<open>INSERT ... SELECT id FROM work_items WHERE id = $1\<close>: the defaults of migration 4, one row for the
  one item of that id, none without it.
\<close>

definition new_job_row :: "int64 \<Rightarrow> int64 \<Rightarrow> timestamp \<Rightarrow> processing_job_row" where
  "new_job_row job_id work_item_id now =
     \<lparr>pj_id = job_id, pj_work_item_id = work_item_id, pj_state = Accepted, pj_attempt_count = 0,
      pj_last_error_code = None, pj_created_at = now, pj_finished_at = None\<rparr>"

definition insert_job_stmt :: "int64 \<Rightarrow> processing_job_row stmt" where
  "insert_job_stmt work_item_id now d sq =
     (case row_at wi_id (work_items d) work_item_id of
        None \<Rightarrow> (Inl (Sentinel PgxErrNoRows), id, sq)
      | Some item \<Rightarrow>
          (if seq_processing_jobs sq \<ge> int64_max then (Inl sequence_error, id, sq)
           else
             (let r = new_job_row (seq_processing_jobs sq + 1) (wi_id item) now in
              (Inr r, (\<lambda>d. d\<lparr>processing_jobs := insert_row r (processing_jobs d)\<rparr>),
               sq\<lparr>seq_processing_jobs := seq_processing_jobs sq + 1\<rparr>))))"

definition process_payload :: "int64 \<Rightarrow> int64 \<Rightarrow> json" where
  "process_payload job_id work_item_id =
     JObj [(''type'', JStr ''work_item.process''), (''version'', JNum ''1''),
           (''job_id'', JNum (format_int job_id)), (''work_item_id'', JNum (format_int work_item_id))]"

definition new_outbox_row :: "int64 \<Rightarrow> int64 \<Rightarrow> int64 \<Rightarrow> timestamp \<Rightarrow> outbox_row" where
  "new_outbox_row message_id job_id work_item_id now =
     \<lparr>ob_id = message_id, ob_processing_job_id = job_id, ob_event_type = ''work_item.process'',
      ob_payload = process_payload job_id work_item_id, ob_publish_attempts = 0,
      ob_last_error_code = None, ob_created_at = now, ob_published_at = None\<rparr>"

definition insert_outbox_stmt :: "int64 \<Rightarrow> int64 \<Rightarrow> unit stmt" where
  "insert_outbox_stmt job_id work_item_id now d sq =
     (if seq_outbox_messages sq \<ge> int64_max then (Inl sequence_error, id, sq)
      else
        (let r = new_outbox_row (seq_outbox_messages sq + 1) job_id work_item_id now in
         (Inr (), (\<lambda>d. d\<lparr>outbox_messages := insert_row r (outbox_messages d)\<rparr>),
          sq\<lparr>seq_outbox_messages := seq_outbox_messages sq + 1\<rparr>)))"

text \<open>
  Go returns a job and an error; the job is the zero value with every error but
  \<open>errProcessingAlreadyActive\<close>, which carries the active job's id.
\<close>

type_synonym acceptance = "processing_job \<times> go_error option"

text \<open>The two inserts and the commit, after the checks.\<close>

definition insert_acceptance :: "int64 \<Rightarrow> tx \<Rightarrow> acceptance \<times> world" where
  "insert_acceptance work_item_id x =
     (case exec_tx (insert_job_stmt work_item_id) x of
        (Inl err, x) \<Rightarrow>
          (if errors_is err PgxErrNoRows then ((no_job, Some (Sentinel ErrWorkItemNotFound)), rollback_tx x)
           else ((no_job, Some (Wrap ''insert processing job'' err)), rollback_tx x))
      | (Inr row, x) \<Rightarrow>
     (let job = scan_processing_job row in
     (case exec_tx (insert_outbox_stmt (jb_ID job) (jb_WorkItemID job)) x of
        (Inl err, x) \<Rightarrow> ((no_job, Some (Wrap ''insert processing outbox message'' err)), rollback_tx x)
      | (Inr _, x) \<Rightarrow>
     (case commit_tx x of
        (Inl err, w) \<Rightarrow> ((no_job, Some (Wrap ''commit processing acceptance transaction'' err)), w)
      | (Inr _, w) \<Rightarrow> ((job, None), w)))))"

definition accept_processing_job :: "int64 \<Rightarrow> world \<Rightarrow> acceptance \<times> world" where
  "accept_processing_job work_item_id w =
     (case begin_tx w of
        (Inl err, x) \<Rightarrow> ((no_job, Some (Wrap ''begin processing acceptance transaction'' err)), rollback_tx x)
      | (Inr _, x) \<Rightarrow>
     (case exec_tx (ItemLockSQL work_item_id) x of
        (Inl err, x) \<Rightarrow> ((no_job, Some err), rollback_tx x)
      | (Inr _, x) \<Rightarrow>
     (case exec_tx (select_status_stmt work_item_id) x of
        (Inl err, x) \<Rightarrow>
          (if errors_is err PgxErrNoRows then ((no_job, Some (Sentinel ErrWorkItemNotFound)), rollback_tx x)
           else ((no_job, Some err), rollback_tx x))
      | (Inr status, x) \<Rightarrow>
     if status = Done then ((no_job, Some (Sentinel ErrWorkItemDone)), rollback_tx x)
     else
     (case exec_tx (select_active_stmt work_item_id) x of
        (Inr active_id, x) \<Rightarrow>
          ((no_job\<lparr>jb_ID := active_id\<rparr>, Some (Sentinel ErrProcessingAlreadyActive)), rollback_tx x)
      | (Inl err, x) \<Rightarrow>
          (if \<not> errors_is err PgxErrNoRows then ((no_job, Some err), rollback_tx x)
           else insert_acceptance work_item_id x)))))"

section \<open>The outbox\<close>

text \<open>
  The next message: the lowest id among the unpublished rows that no other session has locked
  (\<open>FOR UPDATE SKIP LOCKED\<close>); \<open>locked\<close> are the rows others hold at that moment. \<open>jsonb_text\<close> is
  PostgreSQL's text of a jsonb value.
\<close>

definition attempt_row :: "outbox_row \<Rightarrow> outbox_row" where
  "attempt_row r = r\<lparr>ob_publish_attempts := ob_publish_attempts r + 1\<rparr>"

definition unpublished :: "outbox_row \<Rightarrow> bool" where
  "unpublished r = (ob_published_at r = None)"

definition next_message :: "(int64 \<Rightarrow> bool) \<Rightarrow> outbox_row list \<Rightarrow> outbox_row option" where
  "next_message locked t =
     (case sort_key ob_id (select_where (\<lambda>r. unpublished r \<and> \<not> locked (ob_id r)) t) of
        [] \<Rightarrow> None
      | r # _ \<Rightarrow> Some r)"

definition begin_attempt_stmt :: "(int64 \<Rightarrow> bool) \<Rightarrow> outbox_row stmt" where
  "begin_attempt_stmt locked now d sq =
     (case next_message locked (outbox_messages d) of
        None \<Rightarrow> (Inl (Sentinel PgxErrNoRows), id, sq)
      | Some r \<Rightarrow>
          (Inr (attempt_row r),
           (\<lambda>d. d\<lparr>outbox_messages := update_where (\<lambda>q. ob_id q = ob_id r) attempt_row (outbox_messages d)\<rparr>),
           sq))"

definition scan_outbox_message :: "(json \<Rightarrow> bytes) \<Rightarrow> outbox_row \<Rightarrow> outbox_message" where
  "scan_outbox_message jsonb_text r =
     \<lparr>om_ID = ob_id r, om_ProcessingJobID = ob_processing_job_id r, om_EventType = ob_event_type r,
      om_Payload = jsonb_text (ob_payload r), om_PublishAttempts = ob_publish_attempts r\<rparr>"

definition begin_outbox_publish_attempt ::
  "(json \<Rightarrow> bytes) \<Rightarrow> (int64 \<Rightarrow> bool) \<Rightarrow> world \<Rightarrow> outbox_message result \<times> world" where
  "begin_outbox_publish_attempt jsonb_text locked w =
     (case exec_auto (begin_attempt_stmt locked) w of
        (Inl err, w') \<Rightarrow>
          (if errors_is err PgxErrNoRows then (Inl (Sentinel ErrNoOutboxMessage), w')
           else (Inl (Wrap ''begin outbox publish attempt'' err), w'))
      | (Inr r, w') \<Rightarrow> (Inr (scan_outbox_message jsonb_text r), w'))"

definition unpublished_message :: "int64 \<Rightarrow> outbox_row \<Rightarrow> bool" where
  "unpublished_message message_id r = (ob_id r = message_id \<and> unpublished r)"

definition published_row :: "timestamp \<Rightarrow> outbox_row \<Rightarrow> outbox_row" where
  "published_row now r = r\<lparr>ob_published_at := Some now, ob_last_error_code := None\<rparr>"

definition mark_published_stmt :: "int64 \<Rightarrow> nat stmt" where
  "mark_published_stmt message_id now d sq =
     (Inr (rows_affected (unpublished_message message_id) (outbox_messages d)),
      (\<lambda>d. d\<lparr>outbox_messages :=
        update_where (unpublished_message message_id) (published_row now) (outbox_messages d)\<rparr>),
      sq)"

definition mark_outbox_published :: "int64 \<Rightarrow> world \<Rightarrow> go_error option \<times> world" where
  "mark_outbox_published message_id w =
     (case exec_auto (mark_published_stmt message_id) w of
        (Inl err, w') \<Rightarrow> (Some (Wrap ''mark outbox message published'' err), w')
      | (Inr affected, w') \<Rightarrow>
          (if affected \<noteq> 1 then (Some (Opaque ''mark outbox message published: expected 1 row''), w')
           else (None, w')))"

definition publish_failure_row :: "string \<Rightarrow> outbox_row \<Rightarrow> outbox_row" where
  "publish_failure_row error_code r = r\<lparr>ob_last_error_code := Some error_code\<rparr>"

definition publish_failure_stmt :: "int64 \<Rightarrow> string \<Rightarrow> nat stmt" where
  "publish_failure_stmt message_id error_code now d sq =
     (Inr (rows_affected (unpublished_message message_id) (outbox_messages d)),
      (\<lambda>d. d\<lparr>outbox_messages :=
        update_where (unpublished_message message_id) (publish_failure_row error_code) (outbox_messages d)\<rparr>),
      sq)"

definition record_outbox_publish_failure :: "int64 \<Rightarrow> string \<Rightarrow> world \<Rightarrow> go_error option \<times> world" where
  "record_outbox_publish_failure message_id error_code w =
     (case exec_auto (publish_failure_stmt message_id error_code) w of
        (Inl err, w') \<Rightarrow> (Some (Wrap ''record outbox publish failure'' err), w')
      | (Inr affected, w') \<Rightarrow>
          (if affected \<noteq> 1 then (Some (Opaque ''record outbox publish failure: expected 1 row''), w')
           else (None, w')))"

section \<open>The statements keep their contract\<close>

interpretation attempt_update: row_history ob_id attempt_row outbox_continues "\<lambda>q. ob_id q = k" for k
  by unfold_locales (auto simp: attempt_row_def outbox_continues_def)

interpretation publish_update: row_history ob_id "published_row now" outbox_continues "unpublished_message k"
  for now k
  by unfold_locales
     (auto simp: published_row_def outbox_continues_def unpublished_message_def unpublished_def)

interpretation publish_failure_update:
  row_history ob_id "publish_failure_row c" outbox_continues "unpublished_message k" for c k
  by unfold_locales (auto simp: publish_failure_row_def outbox_continues_def)

lemma ids_from_insert:
  "wi_id i = seq_work_items sq \<Longrightarrow> 1 \<le> wi_id i \<Longrightarrow> wi_id i \<le> int64_max \<Longrightarrow>
     ids_from sq (\<lambda>d. d\<lparr>work_items := insert_row i (work_items d)\<rparr>)"
  "pj_id j = seq_processing_jobs sq \<Longrightarrow> 1 \<le> pj_id j \<Longrightarrow> pj_id j \<le> int64_max \<Longrightarrow>
     ids_from sq (\<lambda>d. d\<lparr>processing_jobs := insert_row j (processing_jobs d)\<rparr>)"
  "ob_id m = seq_outbox_messages sq \<Longrightarrow> 1 \<le> ob_id m \<Longrightarrow> ob_id m \<le> int64_max \<Longrightarrow>
     ids_from sq (\<lambda>d. d\<lparr>outbox_messages := insert_row m (outbox_messages d)\<rparr>)"
  by (auto simp: ids_from_def seqs_ok_def seqs_le_def insert_row_def)

interpretation probe: statement probe_stmt
  by unfold_locales (auto simp: probe_stmt_def)

interpretation list_items: statement list_items_stmt
  by unfold_locales (auto simp: list_items_stmt_def)

interpretation api_select_job: statement "api_select_job_stmt j" for j
  by unfold_locales (auto simp: api_select_job_stmt_def)

interpretation select_status: statement "select_status_stmt i" for i
  by unfold_locales (auto simp: select_status_stmt_def)

interpretation select_active: statement "select_active_stmt i" for i
  by unfold_locales (auto simp: select_active_stmt_def)

interpretation create_item: statement "create_item_stmt t" for t
  by unfold_locales
     (auto simp: create_item_stmt_def Let_def seqs_le_def seqs_nonneg_def split: if_splits
           intro!: ids_from_insert keeps_history_items table_continues_insert)

interpretation insert_job: statement "insert_job_stmt i" for i
  by unfold_locales
     (auto simp: insert_job_stmt_def new_job_row_def Let_def seqs_le_def seqs_nonneg_def
           split: option.splits if_splits
           intro!: ids_from_insert keeps_history_jobs table_continues_insert)

interpretation insert_outbox: statement "insert_outbox_stmt j i" for j i
  by unfold_locales
     (auto simp: insert_outbox_stmt_def new_outbox_row_def Let_def seqs_le_def seqs_nonneg_def
           split: if_splits
           intro!: ids_from_insert keeps_history_outbox table_continues_insert)

interpretation begin_attempt: statement "begin_attempt_stmt locked" for locked
  by unfold_locales
     (auto simp: begin_attempt_stmt_def ids_from_def seqs_ok_def attempt_update.keys_kept
           split: option.splits intro!: keeps_history_outbox attempt_update.update_continues)

interpretation mark_published: statement "mark_published_stmt k" for k
  by unfold_locales
     (auto simp: mark_published_stmt_def ids_from_def seqs_ok_def publish_update.keys_kept
           intro!: keeps_history_outbox publish_update.update_continues)

interpretation publish_failure: statement "publish_failure_stmt k c" for k c
  by unfold_locales
     (auto simp: publish_failure_stmt_def ids_from_def seqs_ok_def publish_failure_update.keys_kept
           intro!: keeps_history_outbox publish_failure_update.update_continues)

section \<open>Readiness does not read the answers\<close>

text \<open>The probes succeed although every one of them loses its answer.\<close>

lemma probe_all_lost_answers:
  "n \<le> length (turns w) \<Longrightarrow> \<forall>t \<in> set (take n (turns w)). fault t = FaultAfter \<Longrightarrow> \<exists>w'. probe_all n w = (None, w')"
proof (induction n arbitrary: w)
  case (Suc n)
  then obtain t ts where ts: "turns w = t # ts" by (cases "turns w") auto
  obtain r w1 where e: "exec_auto probe_stmt w = (r, w1)" by (metis surj_pair)
  then have "turns w1 = ts" by (auto simp: exec_auto_def Let_def ts split: if_splits prod.splits)
  with Suc.IH [of w1] Suc.prems e show ?case by (cases r) (auto simp: ts next_turn_def)
qed simp

lemma Ready_ignores_lost_answers:
  assumes "4 \<le> length (turns w)" and "\<forall>t \<in> set (take 4 (turns w)). fault t = FaultAfter"
  shows "\<exists>w'. Ready w = (None, w')"
  unfolding Ready_def by (rule probe_all_lost_answers [OF assms])

section \<open>Every operation keeps the database valid and continues its history\<close>

lemma probe_all_evolves: "probe_all n w = (r, w') \<Longrightarrow> evolves w w'"
  by (induction n arbitrary: w)
     (auto split: prod.splits sum.splits if_splits dest: probe.exec_auto_evolves intro: evolves_trans)

lemma Ready_evolves: "Ready w = (r, w') \<Longrightarrow> evolves w w'"
  by (simp add: Ready_def probe_all_evolves)

lemma create_work_item_evolves: "create_work_item t st w = (r, w') \<Longrightarrow> evolves w w'"
  by (auto simp: create_work_item_def split: prod.splits sum.splits if_splits
           dest: create_item.exec_auto_evolves)

lemma list_work_items_evolves: "list_work_items w = (r, w') \<Longrightarrow> evolves w w'"
  by (auto simp: list_work_items_def split: prod.splits sum.splits dest: list_items.exec_auto_evolves)

lemma api_get_processing_job_evolves: "api_get_processing_job j w = (r, w') \<Longrightarrow> evolves w w'"
  by (auto simp: api_get_processing_job_def split: prod.splits sum.splits if_splits
           dest: api_select_job.exec_auto_evolves)

lemma begin_outbox_publish_attempt_evolves:
  "begin_outbox_publish_attempt jt locked w = (r, w') \<Longrightarrow> evolves w w'"
  by (auto simp: begin_outbox_publish_attempt_def split: prod.splits sum.splits if_splits
           dest: begin_attempt.exec_auto_evolves)

lemma mark_outbox_published_evolves: "mark_outbox_published k w = (r, w') \<Longrightarrow> evolves w w'"
  by (auto simp: mark_outbox_published_def split: prod.splits sum.splits if_splits
           dest: mark_published.exec_auto_evolves)

lemma record_outbox_publish_failure_evolves:
  "record_outbox_publish_failure k c w = (r, w') \<Longrightarrow> evolves w w'"
  by (auto simp: record_outbox_publish_failure_def split: prod.splits sum.splits if_splits
           dest: publish_failure.exec_auto_evolves)

lemma insert_acceptance_evolves:
  assumes "insert_acceptance i x = (r, w')" and "tx_ok x"
  shows "evolves (tx_world x) w'"
  using assms
  by (auto simp: insert_acceptance_def rollback_tx_def Let_def split: prod.splits sum.splits if_splits
           dest!: insert_job.exec_tx_evolves insert_outbox.exec_tx_evolves commit_tx_evolves
           simp: tx_evolves_def)
     (meson evolves_trans)+

lemma accept_processing_job_evolves:
  assumes "accept_processing_job i w = (r, w')"
  shows "evolves w w'"
proof (cases "world_ok w")
  case True
  obtain r0 x where b: "begin_tx w = (r0, x)" by (metis surj_pair)
  note x = begin_tx_ok [OF b True]
  have "evolves (tx_world x) w'"
    using assms x(1)
    by (auto simp: accept_processing_job_def b rollback_tx_def
             split: prod.splits sum.splits if_splits
             dest!: item_lock.exec_tx_evolves select_status.exec_tx_evolves select_active.exec_tx_evolves
             simp: tx_evolves_def)
       (meson evolves_trans insert_acceptance_evolves)+
  with x(2) show ?thesis by (rule evolves_trans)
qed (simp add: evolves_def)

end
