(* ===== verification/JsonEncoder.thy ===== *)
theory JsonEncoder
  imports Json
begin

text \<open>
  Go's \<open>encoding/json\<close> encoder, as \<open>Encoder.Encode\<close> uses it: no white space, HTML characters escaped.
  What the decoder of \<open>Json\<close> reads back from its text is the value, with invalid UTF-8 replaced.
\<close>

section \<open>Strings\<close>

definition hex_digit :: "nat \<Rightarrow> char" where
  "hex_digit d = (if d < 10 then char_of (48 + d) else char_of (87 + d))"

text \<open>
  One rune of a string, with the bytes it was decoded from: quotes, backslashes, control characters, the
  HTML characters, invalid bytes and the two line separators of JavaScript are escaped.
\<close>

definition encode_piece :: "nat \<times> bytes \<Rightarrow> bytes" where
  "encode_piece x =
     (case x of (r, b) \<Rightarrow>
       if r < 128 then
         (if r = 34 \<or> r = 92 then CHR 0x5C # b
          else if r = 8 then [CHR 0x5C, CHR ''b'']
          else if r = 12 then [CHR 0x5C, CHR ''f'']
          else if r = 10 then [CHR 0x5C, CHR ''n'']
          else if r = 13 then [CHR 0x5C, CHR ''r'']
          else if r = 9 then [CHR 0x5C, CHR ''t'']
          else if r < 32 \<or> r = 60 \<or> r = 62 \<or> r = 38 then
            CHR 0x5C # ''u00'' @ [hex_digit (r div 16), hex_digit (r mod 16)]
          else b)
       else if r = rune_error \<and> length b = 1 then CHR 0x5C # ''ufffd''
       else if r = 8232 \<or> r = 8233 then CHR 0x5C # ''u202'' @ [hex_digit (r mod 16)]
       else b)"

definition encode_string :: "bytes \<Rightarrow> bytes" where
  "encode_string s = CHR 0x22 # concat (map encode_piece (runes s)) @ [CHR 0x22]"

section \<open>Values\<close>

fun commas :: "bytes list \<Rightarrow> bytes" where
  "commas [] = []"
| "commas [x] = x"
| "commas (x # y # xs) = x @ CHR '','' # commas (y # xs)"

fun encode_json :: "json \<Rightarrow> bytes" where
  "encode_json JNull = ''null''"
| "encode_json (JBool b) = (if b then ''true'' else ''false'')"
| "encode_json (JNum l) = l"
| "encode_json (JStr s) = encode_string s"
| "encode_json (JArr vs) = CHR ''['' # commas (map encode_json vs) @ '']''"
| "encode_json (JObj kvs) =
     CHR ''{'' # commas (map (\<lambda>(k, v). encode_string k @ CHR '':'' # encode_json v) kvs) @ ''}''"

section \<open>Numbers are read back\<close>

lemma is_digit_format_nat: "c \<in> set (format_nat n) \<Longrightarrow> is_digit c"
  using format_nat_digits [of c n] by (simp add: is_digit_def)

lemma format_nat_leading: "0 < n \<Longrightarrow> hd (format_nat n) \<noteq> CHR ''0''"
proof (induction n rule: format_nat.induct)
  case (1 n)
  show ?case
  proof (cases "n < 10")
    case True
    then have "byte (digit_char n) \<noteq> byte (CHR ''0'')" using "1.prems" by (simp add: byte_digit_char) (simp add: byte_def)
    then have "digit_char n \<noteq> CHR ''0''" by metis
    with True show ?thesis by (simp add: format_nat.simps [of n])
  next
    case False
    then have "hd (format_nat (n div 10)) \<noteq> CHR ''0''" using 1 by simp
    with False show ?thesis by (simp add: format_nat.simps [of n])
  qed
qed

text \<open>What may follow a number in an object.\<close>

definition ends_number :: "bytes \<Rightarrow> bool" where
  "ends_number t = (case t of [] \<Rightarrow> True
     | c # _ \<Rightarrow> \<not> is_digit c \<and> c \<noteq> CHR ''.'' \<and> c \<noteq> CHR ''e'' \<and> c \<noteq> CHR ''E'')"

lemma number_int_format_nat:
  assumes "ends_number t"
  shows "number_int (format_nat n @ t) = Some (format_nat n, t)"
proof -
  obtain c ds where f: "format_nat n = c # ds" by (meson format_nat_nonempty neq_Nil_conv)
  have digits: "\<forall>x \<in> set (format_nat n). is_digit x" using is_digit_format_nat by blast
  have stop: "takeWhile is_digit t = []" "dropWhile is_digit t = t"
    using assms by (auto simp: ends_number_def split: list.splits)
  have span: "span_digits (format_nat n @ t) = (format_nat n, t)"
    using digits stop by (simp add: span_digits_def takeWhile_append2 dropWhile_append2)
  show ?thesis
  proof (cases "n = 0")
    case True
    moreover have "format_nat 0 = ''0''" by code_simp
    ultimately have "format_nat n = ''0''" by simp
    then show ?thesis by (simp add: number_int_def is_digit_def byte_def)
  next
    case False
    then have "c \<noteq> CHR ''0''" using format_nat_leading [of n] f by simp
    moreover have "is_digit c" using digits f by simp
    ultimately show ?thesis using span by (simp add: number_int_def f)
  qed
qed

lemma number_tail: "ends_number t \<Longrightarrow> number_frac t = Some ([], t) \<and> number_exp t = Some ([], t)"
  by (auto simp: ends_number_def number_frac_def number_exp_def split: list.splits)

lemma number_literal_format_int:
  assumes t: "ends_number t"
  shows "number_literal (format_int v @ t) = Some (format_int v, t)"
proof (cases "v < 0")
  case True
  have "number_sign (CHR ''-'' # format_nat (nat (- v)) @ t) = (''-'', format_nat (nat (- v)) @ t)"
    by (simp add: number_sign_def)
  with number_int_format_nat [OF t] number_tail [OF t] True show ?thesis
    by (simp add: number_literal_def format_int_def)
next
  case False
  obtain c ds where f: "format_nat (nat v) = c # ds" by (meson format_nat_nonempty neq_Nil_conv)
  have "is_digit c" using is_digit_format_nat f by (metis list.set_intros(1))
  then have "c \<noteq> CHR ''-''" by (auto simp: is_digit_def byte_def)
  then have "number_sign (format_nat (nat v) @ t) = ([], format_nat (nat v) @ t)"
    by (simp add: number_sign_def f)
  with number_int_format_nat [OF t] number_tail [OF t] False show ?thesis
    by (simp add: number_literal_def format_int_def)
qed

lemma format_int_head: "\<exists>c ds. format_int v = c # ds \<and> (is_digit c \<or> c = CHR ''-'')"
proof (cases "v < 0")
  case False
  obtain c ds where f: "format_nat (nat v) = c # ds" by (meson format_nat_nonempty neq_Nil_conv)
  then have "is_digit c" using is_digit_format_nat by (metis list.set_intros(1))
  with False f show ?thesis by (simp add: format_int_def)
qed (simp add: format_int_def)

section \<open>Strings are read back\<close>

text \<open>The bytes of a rune: the decoder takes all of them.\<close>

definition rune_block :: "nat \<times> bytes \<Rightarrow> bool" where
  "rune_block x = (snd x \<noteq> [] \<and> decode_rune (snd x) = (fst x, length (snd x)))"

lemma runes_blocks: "x \<in> set (runes s) \<Longrightarrow> rune_block x"
proof (induction s rule: runes.induct)
  case (1 s)
  show ?case
  proof (cases "s = []")
    case True
    with "1.prems" show ?thesis by simp
  next
    case False
    let ?n = "snd (decode_rune s)" and ?p = "take (snd (decode_rune s)) s"
    note w = decode_rune_width [OF False]
    then have "?p \<noteq> []" "?p @ drop ?n s = s" "length ?p = ?n" using False by auto
    with decode_rune_prefix [of ?p "drop ?n s"] have "rune_block (fst (decode_rune s), ?p)"
      by (simp add: rune_block_def)
    with 1 False show ?thesis by (auto simp: runes_ne)
  qed
qed

lemma rune_block_append:
  assumes "rune_block (r, b)" and "r \<noteq> rune_error \<or> length b \<noteq> 1"
  shows "decode_rune (b @ t) = (r, length b)"
proof -
  obtain c cs where b: "b = c # cs" using assms(1) by (cases b) (auto simp: rune_block_def)
  show ?thesis
  proof (cases "byte c < 128")
    case True
    with assms(1) b show ?thesis by (auto simp: rune_block_def)
  next
    case False
    with assms b obtain sz lo hi where l: "lead_info (byte c) = Some (sz, lo, hi)" and ok: "tail_ok (sz - 1) lo hi cs"
      by (auto simp: rune_block_def split: option.splits if_splits)
    have "1 \<le> sz - 1" "sz - 1 \<le> length cs" using lead_info_size [OF l] ok by (auto simp: tail_ok_def)
    with tail_ok_append ok have "tail_ok (sz - 1) lo hi (cs @ t)" by blast
    with False l ok b assms(1) show ?thesis by (auto simp: rune_block_def)
  qed
qed

text \<open>The four sizes of a rune, and an invalid byte.\<close>

lemma lead_info_cases:
  assumes "lead_info n = Some (sz, lo, hi)"
  shows "sz = 2 \<and> 194 \<le> n \<and> n \<le> 223 \<and> lo = 128 \<and> hi = 191
    \<or> sz = 3 \<and> 224 \<le> n \<and> n \<le> 239 \<and> 128 \<le> lo \<and> hi \<le> 191 \<and> (n = 224 \<longrightarrow> lo = 160) \<and> (n = 237 \<longrightarrow> hi = 159)
    \<or> sz = 4 \<and> 240 \<le> n \<and> n \<le> 244 \<and> 128 \<le> lo \<and> hi \<le> 191 \<and> (n = 240 \<longrightarrow> lo = 144) \<and> (n = 244 \<longrightarrow> hi = 143)"
  using assms by (auto simp: lead_info_def split: if_splits)

lemma mod_in_block: "m * q \<le> n \<Longrightarrow> n < m * q + m \<Longrightarrow> n mod m = n - m * (q :: nat)"
  by (metis add_diff_inverse_nat linorder_not_less mod_less mod_mult_self4 nat_add_left_cancel_less)

lemma rune_block_cases:
  assumes "rune_block (r, b)"
  obtains (ascii) c where "b = [c]" "byte c = r" "r < 128"
  | (invalid) c where "b = [c]" "r = rune_error"
  | (two) c d where "b = [c, d]" "194 \<le> byte c" "byte c \<le> 223" "cont d" "r = (byte c - 192) * 64 + (byte d - 128)"
  | (three) c d e where "b = [c, d, e]" "224 \<le> byte c" "byte c \<le> 239" "cont d" "cont e"
      "byte c = 224 \<longrightarrow> 160 \<le> byte d" "byte c = 237 \<longrightarrow> byte d \<le> 159"
      "r = (byte c - 224) * 4096 + (byte d - 128) * 64 + (byte e - 128)"
  | (four) c d e f where "b = [c, d, e, f]" "240 \<le> byte c" "byte c \<le> 244" "cont d" "cont e" "cont f"
      "byte c = 240 \<longrightarrow> 144 \<le> byte d" "byte c = 244 \<longrightarrow> byte d \<le> 143"
      "r = (byte c - 240) * 262144 + (byte d - 128) * 4096 + (byte e - 128) * 64 + (byte f - 128)"
proof -
  obtain c cs where b: "b = c # cs" and d: "decode_rune (c # cs) = (r, Suc (length cs))"
    using assms by (cases b) (auto simp: rune_block_def)
  have m: "cont x \<Longrightarrow> byte x mod 64 = byte x - 128" for x
    using mod_in_block [of 64 2 "byte x"] by (simp add: cont_def)
  consider (short) "cs = []" "byte c < 128 \<or> r = rune_error"
    | (long) sz lo hi where "\<not> byte c < 128" "lead_info (byte c) = Some (sz, lo, hi)" "tail_ok (sz - 1) lo hi cs"
        "r = rune_value c (take (sz - 1) cs)" "sz = Suc (length cs)"
    using d by (fastforce split: if_splits option.splits)
  then show thesis
  proof cases
    case short
    with d b show thesis by (auto intro: ascii invalid)
  next
    case (long sz lo hi)
    from lead_info_cases [OF long(2)] show thesis
    proof (elim disjE conjE)
      assume sz: "sz = 2" and c: "194 \<le> byte c" "byte c \<le> 223" and lh: "lo = 128" "hi = 191"
      obtain d where cs: "cs = [d]" using long(5) sz by (auto simp: Suc_length_conv length_Suc_conv eval_nat_numeral)
      have "cont d" using long(3) sz lh by (simp add: tail_ok_def cs cont_def)
      moreover have "byte c mod 32 = byte c - 192" using c mod_in_block [of 32 6 "byte c"] by simp
      ultimately show thesis using long(4) sz m c b by (auto simp: cs rune_value_def intro: two)
    next
      assume sz: "sz = 3" and c: "224 \<le> byte c" "byte c \<le> 239" and lh: "128 \<le> lo" "hi \<le> 191"
        "byte c = 224 \<longrightarrow> lo = 160" "byte c = 237 \<longrightarrow> hi = 159"
      obtain d e where cs: "cs = [d, e]" using long(5) sz by (auto simp: Suc_length_conv length_Suc_conv eval_nat_numeral)
      have "cont d" "cont e" "lo \<le> byte d" "byte d \<le> hi"
        using long(3) sz lh by (auto simp: tail_ok_def cs cont_def)
      moreover have "byte c mod 16 = byte c - 224" using c mod_in_block [of 16 14 "byte c"] by simp
      ultimately show thesis using long(4) sz m c b lh
        by (intro three [of c d e]) (auto simp: cs rune_value_def algebra_simps)
    next
      assume sz: "sz = 4" and c: "240 \<le> byte c" "byte c \<le> 244" and lh: "128 \<le> lo" "hi \<le> 191"
        "byte c = 240 \<longrightarrow> lo = 144" "byte c = 244 \<longrightarrow> hi = 143"
      obtain d e f where cs: "cs = [d, e, f]" using long(5) sz by (auto simp: Suc_length_conv length_Suc_conv eval_nat_numeral)
      have "cont d" "cont e" "cont f" "lo \<le> byte d" "byte d \<le> hi"
        using long(3) sz lh by (auto simp: tail_ok_def cs cont_def)
      moreover have "byte c mod 8 = byte c - 240" using c mod_in_block [of 8 30 "byte c"] by simp
      ultimately show thesis using long(4) sz m c b lh
        by (intro four [of c d e f]) (auto simp: cs rune_value_def algebra_simps)
    qed
  qed
qed

text \<open>Encoding such a rune again gives its bytes.\<close>

lemma contE:
  assumes "cont d"
  obtains y where "byte d = 128 + y" "y < 64"
proof
  show "byte d = 128 + (byte d - 128)" "byte d - 128 < 64" using assms by (auto simp: cont_def)
qed

lemma char_of_byte: "byte c = n \<Longrightarrow> char_of n = c"
  by (auto simp: byte_def)

lemma encode_rune_two:
  assumes "194 \<le> byte c" "byte c \<le> 223" "cont d"
  shows "encode_rune ((byte c - 192) * 64 + (byte d - 128)) = [c, d]"
proof -
  define x where "x = byte c - 192"
  have x: "byte c = 192 + x" "2 \<le> x" "x < 32" using assms by (simp_all add: x_def)
  obtain y where y: "byte d = 128 + y" "y < 64" using assms(3) by (rule contE)
  have "(x * 64 + y) div 64 = x" "(x * 64 + y) mod 64 = y" using y by simp_all
  with x y show ?thesis
    by (auto simp: encode_rune_def Let_def rune_error_def char_of_byte)
qed

lemma horner: "b < 64 \<Longrightarrow> (a * 64 + b) div 64 = a" "b < 64 \<Longrightarrow> (a * 64 + b) mod 64 = (b :: nat)"
  by simp_all

lemma three_range:
  assumes "x < 16" "y < 64" "z < 64" "x = 0 \<Longrightarrow> 32 \<le> y" "x = 13 \<Longrightarrow> y < 32"
  shows "2048 \<le> x * 4096 + y * 64 + z"
    "\<not> (55296 \<le> x * 4096 + y * 64 + z \<and> x * 4096 + y * 64 + z \<le> 57343)" "x * 4096 + y * 64 + z < (65536::nat)"
proof -
  consider "x = 0" | "1 \<le> x" "x \<le> 12" | "x = 13" | "14 \<le> x" by linarith
  then have "2048 \<le> x * 4096 + y * 64 + z \<and>
    (x * 4096 + y * 64 + z < 55296 \<or> 57343 < x * 4096 + y * 64 + z) \<and> x * 4096 + y * 64 + z < 65536"
  proof cases
    case 1
    with assms(4) assms(2,3) show ?thesis by simp
  next
    case 2
    with assms(2,3) show ?thesis by simp
  next
    case 3
    with assms(5) assms(2,3) show ?thesis by simp
  next
    case 4
    with assms(1,2,3) show ?thesis by simp
  qed
  then show "2048 \<le> x * 4096 + y * 64 + z"
    "\<not> (55296 \<le> x * 4096 + y * 64 + z \<and> x * 4096 + y * 64 + z \<le> 57343)" "x * 4096 + y * 64 + z < (65536::nat)" by auto
qed

lemma four_range:
  assumes "x < 5" "y < 64" "z < 64" "w < 64" "x = 0 \<Longrightarrow> 16 \<le> y" "x = 4 \<Longrightarrow> y < 16"
  shows "65536 \<le> x * 262144 + y * 4096 + z * 64 + w" "x * 262144 + y * 4096 + z * 64 + w \<le> (1114111::nat)"
proof -
  consider "x = 0" | "1 \<le> x" "x \<le> 3" | "x = 4" using assms(1) by linarith
  then have "65536 \<le> x * 262144 + y * 4096 + z * 64 + w \<and> x * 262144 + y * 4096 + z * 64 + w \<le> 1114111"
  proof cases
    case 1
    with assms(5) assms(2-4) show ?thesis by simp
  next
    case 2
    with assms(2-4) show ?thesis by simp
  next
    case 3
    with assms(6) assms(2-4) show ?thesis by simp
  qed
  then show "65536 \<le> x * 262144 + y * 4096 + z * 64 + w" "x * 262144 + y * 4096 + z * 64 + w \<le> (1114111::nat)" by auto
qed

lemma encode_rune_three:
  assumes "224 \<le> byte c" "byte c \<le> 239" "cont d" "cont e"
      "byte c = 224 \<longrightarrow> 160 \<le> byte d" "byte c = 237 \<longrightarrow> byte d \<le> 159"
  shows "encode_rune ((byte c - 224) * 4096 + (byte d - 128) * 64 + (byte e - 128)) = [c, d, e]"
proof -
  define x where "x = byte c - 224"
  have x: "byte c = 224 + x" "x < 16" using assms by (simp_all add: x_def)
  obtain y where y: "byte d = 128 + y" "y < 64" using assms(3) by (rule contE)
  obtain z where z: "byte e = 128 + z" "z < 64" using assms(4) by (rule contE)
  let ?r = "x * 4096 + y * 64 + z"
  have e: "?r = (x * 64 + y) * 64 + z" by simp
  have h: "?r div 64 = x * 64 + y" "?r mod 64 = z" using z(2) by (simp_all only: e horner)
  then have r: "?r div 4096 = x" "?r div 64 mod 64 = y" "?r mod 64 = z"
    using y(2) div_mult2_eq [of ?r 64 64] by (simp_all add: horner)
  have "x = 0 \<Longrightarrow> 32 \<le> y" "x = 13 \<Longrightarrow> y < 32" using assms(5,6) x(1) y(1) by auto
  from three_range [OF x(2) y(2) z(2) this]
  x y z r show ?thesis
    by (auto simp add: encode_rune_def Let_def char_of_byte)
qed

lemma encode_rune_four:
  assumes "240 \<le> byte c" "byte c \<le> 244" "cont d" "cont e" "cont f"
      "byte c = 240 \<longrightarrow> 144 \<le> byte d" "byte c = 244 \<longrightarrow> byte d \<le> 143"
  shows "encode_rune ((byte c - 240) * 262144 + (byte d - 128) * 4096 + (byte e - 128) * 64 + (byte f - 128)) = [c, d, e, f]"
proof -
  define x where "x = byte c - 240"
  have x: "byte c = 240 + x" "x < 5" using assms by (simp_all add: x_def)
  obtain y where y: "byte d = 128 + y" "y < 64" using assms(3) by (rule contE)
  obtain z where z: "byte e = 128 + z" "z < 64" using assms(4) by (rule contE)
  obtain w where w: "byte f = 128 + w" "w < 64" using assms(5) by (rule contE)
  let ?r = "x * 262144 + y * 4096 + z * 64 + w"
  have e: "?r = ((x * 64 + y) * 64 + z) * 64 + w" by simp
  have h: "?r div 64 = (x * 64 + y) * 64 + z" "?r mod 64 = w" using w(2) by (simp_all only: e horner)
  then have h2: "?r div 4096 = x * 64 + y" "?r div 64 mod 64 = z"
    using z(2) div_mult2_eq [of ?r 64 64, unfolded h(1)] horner [of z "x * 64 + y"] by (simp_all only: h(1))
  then have r: "?r div 262144 = x" "?r div 4096 mod 64 = y" "?r div 64 mod 64 = z" "?r mod 64 = w"
    using y(2) h div_mult2_eq [of ?r 4096 64] by (simp_all add: horner)
  have "x = 0 \<Longrightarrow> 16 \<le> y" "x = 4 \<Longrightarrow> y < 16" using assms(6,7) x(1) y(1) by auto
  from four_range [OF x(2) y(2) z(2) w(2) this]
  x y z w r show ?thesis
    by (simp add: encode_rune_def Let_def char_of_byte)
qed

lemma rune_block_encode:
  assumes "rune_block (r, b)" and "r \<noteq> rune_error \<or> length b \<noteq> 1"
  shows "encode_rune r = b"
  using assms(1)
proof (cases rule: rune_block_cases)
  case (ascii c)
  then show ?thesis by (simp add: encode_rune_def Let_def char_of_byte)
next
  case (invalid c)
  with assms(2) show ?thesis by simp
next
  case (two c d)
  then show ?thesis by (simp add: encode_rune_two)
next
  case (three c d e)
  then show ?thesis by (simp add: encode_rune_three)
next
  case (four c d e f)
  then show ?thesis by (simp add: encode_rune_four)
qed

lemma rune_block_ascii:
  assumes "rune_block (r, b)" and "r < 128"
  shows "\<exists>c. b = [c] \<and> byte c = r"
  using assms(1)
proof (cases rule: rune_block_cases)
  case (two c d)
  then have "2 * 64 \<le> (byte c - 192) * 64" by simp
  with two(5) assms(2) show ?thesis by simp
next
  case (three c d e)
  have "32 \<le> byte d - 128 \<or> 1 \<le> byte c - 224" using three by auto
  with three(8) assms(2) show ?thesis by auto
next
  case (four c d e f)
  have "16 \<le> byte d - 128 \<or> 1 \<le> byte c - 240" using four by auto
  with four(9) assms(2) show ?thesis by auto
qed (use assms(2) in \<open>auto simp: rune_error_def\<close>)

text \<open>The decoder reads the piece of a rune as that rune.\<close>

lemma hex_value_hex_digit: "d < 16 \<Longrightarrow> hex_value (hex_digit d) = Some d"
  by (auto simp: hex_value_def hex_digit_def Let_def byte_def)

lemma hex_values [simp]:
  "hex_value CHR ''0'' = Some 0" "hex_value CHR ''2'' = Some 2" "hex_value CHR ''d'' = Some 13"
  "hex_value CHR ''f'' = Some 15"
  by code_simp+

lemma low_surrogate_None: "\<not> (55296 \<le> hi \<and> hi \<le> 56319) \<Longrightarrow> low_surrogate hi s = None"
  by (auto simp: low_surrogate_def split: list.splits)

lemma string_piece_escape_u:
  assumes "hex4 s = Some (r, t)" and "r < 55296 \<or> 56319 < r"
  shows "string_piece (CHR 0x5C # CHR ''u'' # s) = Some (encode_rune r, t)"
  using assms low_surrogate_None [of r t] by (auto simp: string_piece_def byte_def)

lemma string_piece_escape:
  "e \<noteq> CHR ''u'' \<Longrightarrow> simple_escape e = Some c \<Longrightarrow> string_piece (CHR 0x5C # e # t) = Some ([c], t)"
  by (simp add: string_piece_def byte_def)

lemma simple_escapes:
  "simple_escape CHR ''b'' = Some (char_of (8 :: nat))" "simple_escape CHR ''t'' = Some (char_of (9 :: nat))"
  "simple_escape CHR ''n'' = Some (char_of (10 :: nat))" "simple_escape CHR ''f'' = Some (char_of (12 :: nat))"
  "simple_escape CHR ''r'' = Some (char_of (13 :: nat))" "simple_escape CHR 0x22 = Some CHR 0x22"
  "simple_escape CHR 0x5C = Some CHR 0x5C"
  by code_simp+

lemma string_piece_plain:
  "32 \<le> byte c \<Longrightarrow> byte c < 128 \<Longrightarrow> c \<noteq> CHR 0x5C \<Longrightarrow> string_piece (c # t) = Some ([c], t)"
  by (simp add: string_piece_def)

lemma string_piece_encode_piece:
  assumes "rune_block (r, b)"
  shows "\<exists>c u. encode_piece (r, b) = c # u \<and> c \<noteq> CHR 0x22"
    and "string_piece (encode_piece (r, b) @ t) = Some (encode_rune r, t)"
proof -
  have "(\<exists>c u. encode_piece (r, b) = c # u \<and> c \<noteq> CHR 0x22) \<and>
    string_piece (encode_piece (r, b) @ t) = Some (encode_rune r, t)"
  proof (cases "r < 128")
    case True
    then obtain c where b: "b = [c]" "byte c = r" using rune_block_ascii [OF assms] by blast
    then have c: "c = char_of r" "encode_rune r = [c]" using True by (auto simp: encode_rune_def char_of_byte)
    have eq: "r = byte d \<longleftrightarrow> c = d" for d using b(2) by (metis char_of_byte)
    have hex: "hex4 (''00'' @ [hex_digit (r div 16), hex_digit (r mod 16)] @ t) = Some (r, t)"
      using True by (simp add: hex_value_hex_digit)
    show ?thesis
    proof (cases "r < 32 \<or> r = 60 \<or> r = 62 \<or> r = 38")
      case r: True
      show ?thesis
      proof (cases "r \<in> {8, 9, 10, 12, 13}")
        case True
        then consider "r = 8" | "r = 9" | "r = 10" | "r = 12" | "r = 13" by blast
        then show ?thesis
          by cases (simp_all add: encode_piece_def string_piece_escape simple_escapes encode_rune_def)
      next
        case F: False
        then have "encode_piece (r, b) = CHR 0x5C # CHR ''u'' # ''00'' @ [hex_digit (r div 16), hex_digit (r mod 16)]"
          using r True by (auto simp: encode_piece_def)
        with string_piece_escape_u [OF hex] True show ?thesis by simp
      qed
    next
      case r: False
      then have "r \<noteq> 8" "r \<noteq> 9" "r \<noteq> 10" "r \<noteq> 12" "r \<noteq> 13" by auto
      moreover have "c = CHR 0x22 \<longleftrightarrow> r = 34" "c = CHR 0x5C \<longleftrightarrow> r = 92"
        using eq [of "CHR 0x22"] eq [of "CHR 0x5C"] by (simp_all add: byte_def)
      ultimately show ?thesis using r True b c(2)
        by (auto simp: encode_piece_def string_piece_escape simple_escapes string_piece_plain)
    qed
  next
    case False
    show ?thesis
    proof (cases "r = rune_error \<and> length b = 1")
      case True
      have "hex4 (''fffd'' @ t) = Some (r, t)" using True by (simp add: rune_error_def)
      from string_piece_escape_u [OF this] True False show ?thesis by (simp add: encode_piece_def rune_error_def)
    next
      case block: False
      note enc = rune_block_encode [OF assms] rune_block_append [OF assms]
      show ?thesis
      proof (cases "r = 8232 \<or> r = 8233")
        case True
        then have "hex4 (''202'' @ [hex_digit (r mod 16)] @ t) = Some (r, t)"
          by (auto simp: hex_value_hex_digit)
        from string_piece_escape_u [OF this] True block
        show ?thesis by (auto simp: encode_piece_def)
      next
        case plain: False
        obtain c cs where b: "b = c # cs" using assms by (cases b) (auto simp: rune_block_def)
        have c: "\<not> byte c < 128" using assms False b by (auto simp: rune_block_def)
        then have "byte c \<noteq> byte (CHR 0x22)" "byte c \<noteq> byte (CHR 0x5C)" by (auto simp: byte_def)
        then have "c \<noteq> CHR 0x22" "c \<noteq> CHR 0x5C" by auto
        moreover have "r \<noteq> rune_error \<or> length b \<noteq> 1" using block by blast
        note enc(1) [OF this] enc(2) [OF this, of t]
        ultimately show ?thesis using False block plain b c
          by (auto simp: encode_piece_def string_piece_def)
      qed
    qed
  qed
  then show "\<exists>c u. encode_piece (r, b) = c # u \<and> c \<noteq> CHR 0x22"
    and "string_piece (encode_piece (r, b) @ t) = Some (encode_rune r, t)" by blast+
qed

text \<open>What is read: the string with U+FFFD for every invalid byte, so the string itself if it is valid.\<close>

definition to_valid :: "bytes \<Rightarrow> bytes" where
  "to_valid s = concat (map (\<lambda>x. encode_rune (fst x)) (runes s))"

definition utf8_valid :: "bytes \<Rightarrow> bool" where
  "utf8_valid s = list_all (\<lambda>x. fst x \<noteq> rune_error \<or> length (snd x) \<noteq> 1) (runes s)"

lemma to_valid_id: "utf8_valid s \<Longrightarrow> to_valid s = s"
proof -
  assume v: "utf8_valid s"
  have "map (\<lambda>x. encode_rune (fst x)) (runes s) = map snd (runes s)"
  proof (rule map_cong [OF refl])
    fix x assume x: "x \<in> set (runes s)"
    with v runes_blocks [OF x] show "encode_rune (fst x) = snd x"
      by (cases x) (auto simp: utf8_valid_def list_all_iff intro!: rune_block_encode)
  qed
  then show ?thesis by (simp only: to_valid_def concat_runes)
qed

lemma utf8_valid_ascii: "(\<And>c. c \<in> set s \<Longrightarrow> byte c < 128) \<Longrightarrow> utf8_valid s"
  by (induction s) (force simp: utf8_valid_def rune_error_def)+

lemma string_body_encode_pieces:
  "\<forall>x \<in> set xs. rune_block x \<Longrightarrow>
     string_body (concat (map encode_piece xs) @ CHR 0x22 # t) = Some (concat (map (\<lambda>x. encode_rune (fst x)) xs), t)"
proof (induction xs)
  case Nil
  then show ?case by (simp add: string_body.simps)
next
  case (Cons x xs)
  obtain r b where x: "x = (r, b)" by (cases x)
  with Cons.prems have "rune_block (r, b)" by simp
  from string_piece_encode_piece [OF this] obtain c u where "encode_piece x = c # u" "c \<noteq> CHR 0x22"
    "\<And>t. string_piece (encode_piece x @ t) = Some (encode_rune r, t)" by (auto simp: x)
  with Cons x show ?case by (simp add: string_body.simps [of "c # _"])
qed

lemma string_body_encode_string:
  "string_body (tl (encode_string s) @ t) = Some (to_valid s, t)"
  using string_body_encode_pieces [of "runes s" t] runes_blocks [of _ s]
  by (simp add: encode_string_def to_valid_def)

section \<open>Values are read back\<close>

text \<open>The value read: strings made valid, all else as it is.\<close>

fun json_valid :: "json \<Rightarrow> json" where
  "json_valid (JStr s) = JStr (to_valid s)"
| "json_valid (JArr vs) = JArr (map json_valid vs)"
| "json_valid (JObj kvs) = JObj (map (\<lambda>(k, v). (to_valid k, json_valid v)) kvs)"
| "json_valid v = v"

text \<open>Integers as literals, and at most \<open>n\<close> levels of arrays and objects.\<close>

fun fits :: "nat \<Rightarrow> json \<Rightarrow> bool" where
  "fits n (JNum l) = (\<exists>i. l = format_int i)"
| "fits n (JArr vs) = (case n of 0 \<Rightarrow> False | Suc m \<Rightarrow> \<forall>v \<in> set vs. fits m v)"
| "fits n (JObj kvs) = (case n of 0 \<Rightarrow> False | Suc m \<Rightarrow> \<forall>kv \<in> set kvs. fits m (snd kv))"
| "fits n v = True"

text \<open>The first byte of a value.\<close>

lemma encode_json_head:
  "fits n v \<Longrightarrow> \<exists>c s. encode_json v = c # s \<and> \<not> json_ws c \<and> c \<noteq> CHR '']'' \<and> c \<noteq> CHR ''}''"
proof (cases v)
  case (JNum l)
  assume "fits n v"
  with JNum obtain i where "l = format_int i" by auto
  with JNum format_int_head [of i] show ?thesis by (auto simp: is_digit_def json_ws_def byte_def)
qed (auto simp: encode_string_def json_ws_def byte_def)

lemma skip_ws_nonblank [simp]: "\<not> json_ws c \<Longrightarrow> skip_ws (c # s) = c # s"
  by (simp add: skip_ws_def)

lemma parse_value_scalar:
  assumes "encode_json v = c # s" and "\<not> json_ws c" and "c \<noteq> CHR ''[''" and "c \<noteq> CHR ''{''"
    and "parse_scalar (encode_json v @ t) = Some (w, t)"
  shows "parse_value k (encode_json v @ t) = finish k w t"
  using assms by (simp add: parse_value.simps)


lemma parse_elements:
  assumes one: "\<And>v k t. v \<in> set vs \<Longrightarrow> length k = m \<Longrightarrow> ends_number t \<Longrightarrow>
      parse_value k (encode_json v @ t) = finish k (json_valid v) t"
    and "vs \<noteq> []" and "Suc (length k) = m"
  shows "parse_value (FArr acc # k) (commas (map encode_json vs) @ CHR '']'' # t)
    = finish k (JArr (rev acc @ map json_valid vs)) t"
  using assms(1,2)
proof (induction vs arbitrary: acc rule: induct_list012)
  case 1
  then show ?case by simp
next
  case (2 v)
  have "ends_number (CHR '']'' # t)" by (simp add: ends_number_def is_digit_def byte_def)
  with 2(1) [of v "FArr acc # k"] assms(3) show ?case
    by (simp add: finish.simps json_ws_def byte_def)
next
  case (3 v w vs)
  let ?t = "CHR '','' # commas (map encode_json (w # vs)) @ CHR '']'' # t"
  have "ends_number ?t" by (simp add: ends_number_def is_digit_def byte_def)
  with 3(3) [of v "FArr acc # k"] assms(3)
  have "parse_value (FArr acc # k) (encode_json v @ ?t) = parse_value (FArr (json_valid v # acc) # k)
      (commas (map encode_json (w # vs)) @ CHR '']'' # t)"
    by (simp add: finish.simps json_ws_def byte_def)
  moreover have "\<dots> = finish k (JArr (rev (json_valid v # acc) @ map json_valid (w # vs))) t"
    by (rule 3(2)) (use 3(3) in auto)
  ultimately show ?case by simp
qed

abbreviation encode_member :: "string \<times> json \<Rightarrow> bytes" where
  "encode_member kv \<equiv> (case kv of (k, v) \<Rightarrow> encode_string k @ CHR '':'' # encode_json v)"

lemma parse_name_encode:
  "parse_name kvs k (encode_string nm @ CHR '':'' # s) = parse_value (FObj kvs (to_valid nm) # k) s"
  using string_body_encode_string [of nm "CHR '':'' # s"]
  by (simp add: parse_name.simps encode_string_def json_ws_def byte_def)

lemma parse_fields:
  assumes one: "\<And>kv k t. kv \<in> set kvs \<Longrightarrow> length k = m \<Longrightarrow> ends_number t \<Longrightarrow>
      parse_value k (encode_json (snd kv) @ t) = finish k (json_valid (snd kv)) t"
    and "kvs \<noteq> []" and "Suc (length k) = m"
  shows "parse_name acc k (commas (map encode_member kvs) @ CHR ''}'' # t)
    = finish k (JObj (rev acc @ map (\<lambda>(k, v). (to_valid k, json_valid v)) kvs)) t"
  using assms(1,2)
proof (induction kvs arbitrary: acc rule: induct_list012)
  case 1
  then show ?case by simp
next
  case (2 kv)
  obtain nm v where kv: "kv = (nm, v)" by (cases kv)
  have "ends_number (CHR ''}'' # t)" by (simp add: ends_number_def is_digit_def byte_def)
  with 2(1) [of kv "FObj acc (to_valid nm) # k"] assms(3) show ?case
    by (simp add: kv parse_name_encode finish.simps json_ws_def byte_def)
next
  case (3 kv kv' kvs)
  obtain nm v where kv: "kv = (nm, v)" by (cases kv)
  let ?s = "commas (map encode_member (kv' # kvs)) @ CHR ''}'' # t"
  have "ends_number (CHR '','' # ?s)" by (simp add: ends_number_def is_digit_def byte_def)
  with 3(3) [of kv "FObj acc (to_valid nm) # k"] assms(3)
  have "parse_name acc k (encode_member kv @ CHR '','' # ?s) = parse_name ((to_valid nm, json_valid v) # acc) k ?s"
    by (simp add: kv parse_name_encode finish.simps json_ws_def byte_def)
  moreover have "\<dots> = finish k (JObj (rev ((to_valid nm, json_valid v) # acc)
      @ map (\<lambda>(k, v). (to_valid k, json_valid v)) (kv' # kvs))) t"
    by (rule 3(2)) (use 3(3) in auto)
  ultimately show ?case by (simp add: kv)
qed

lemma parse_value_encode:
  "fits n v \<Longrightarrow> length k + n \<le> max_nesting \<Longrightarrow> ends_number t \<Longrightarrow>
     parse_value k (encode_json v @ t) = finish k (json_valid v) t"
proof (induction v arbitrary: n k t)
  case JNull
  show ?case by (simp add: parse_value.simps parse_scalar_def strip_prefix_def json_ws_def byte_def)
next
  case (JBool b)
  show ?case by (cases b) (simp_all add: parse_value.simps parse_scalar_def strip_prefix_def json_ws_def byte_def)
next
  case (JNum l)
  then obtain i where l: "l = format_int i" by auto
  obtain c ds where f: "format_int i = c # ds" "is_digit c \<or> c = CHR ''-''" using format_int_head by blast
  have b: "byte c = 45 \<or> 48 \<le> byte c \<and> byte c \<le> 57" using f(2) by (auto simp: is_digit_def byte_def)
  then have "\<not> json_ws c" "c \<noteq> CHR 0x22" "c \<noteq> CHR ''n''" "c \<noteq> CHR ''t''" "c \<noteq> CHR ''f''" "c \<noteq> CHR ''[''" "c \<noteq> CHR ''{''"
    by (auto simp: json_ws_def byte_def)
  then show ?case using number_literal_format_int [OF JNum.prems(3), of i] f(1)
    by (simp add: l parse_value.simps parse_scalar_def)
next
  case (JStr s)
  show ?case using string_body_encode_string [of s t]
    by (simp add: encode_string_def parse_value.simps parse_scalar_def json_ws_def byte_def)
next
  case (JArr vs)
  then obtain m where n: "n = Suc m" "\<forall>v \<in> set vs. fits m v" by (auto split: nat.splits)
  with JArr.prems(2) have k: "length k < max_nesting" by simp
  show ?case
  proof (cases vs)
    case Nil
    with k show ?thesis by (simp add: parse_value.simps json_ws_def byte_def)
  next
    case (Cons v ws)
    then obtain c s where h: "commas (map encode_json vs) = c # s" "\<not> json_ws c" "c \<noteq> CHR '']''"
      using encode_json_head [of m v] n(2) by (cases ws) auto
    have "parse_value (FArr [] # k) (commas (map encode_json vs) @ CHR '']'' # t) = finish k (JArr (rev [] @ map json_valid vs)) t"
      by (rule parse_elements [of vs "Suc (length k)"]) (use JArr n Cons in auto)
    with k h show ?thesis by (simp add: parse_value.simps [of k] json_ws_def byte_def)
  qed
next
  case (JObj kvs)
  then obtain m where n: "n = Suc m" "\<forall>kv \<in> set kvs. fits m (snd kv)" by (auto split: nat.splits)
  with JObj.prems(2) have k: "length k < max_nesting" by simp
  show ?case
  proof (cases kvs)
    case Nil
    with k show ?thesis by (simp add: parse_value.simps json_ws_def byte_def)
  next
    case (Cons kv ws)
    have h: "\<exists>s. commas (map encode_member kvs) = CHR 0x22 # s"
      using Cons by (cases ws; cases kv) (auto simp: encode_string_def)
    have "parse_name [] k (commas (map encode_member kvs) @ CHR ''}'' # t)
        = finish k (JObj (rev [] @ map (\<lambda>(k, v). (to_valid k, json_valid v)) kvs)) t"
    proof (rule parse_fields [of kvs "Suc (length k)"])
      fix kv and k' :: "frame list" and t'
      assume "kv \<in> set kvs" "length k' = Suc (length k)" "ends_number t'"
      with JObj.IH [of kv "snd kv" m k' t'] JObj.prems(2) n
      show "parse_value k' (encode_json (snd kv) @ t') = finish k' (json_valid (snd kv)) t'"
        by (auto simp: snds.simps prod_set_simps)
    qed (use Cons in auto)
    with k h show ?thesis by (auto simp: parse_value.simps [of k] json_ws_def byte_def)
  qed
qed

text \<open>One value and the newline of \<open>Encoder.Encode\<close>: the next value of the stream is what was encoded.\<close>

lemma json_next_encode:
  assumes "fits n v" and "n \<le> max_nesting" and "ends_number t"
  shows "json_next (encode_json v @ t) = Inr (json_valid v, t)"
proof -
  obtain c s where "encode_json v = c # s" "\<not> json_ws c" using encode_json_head [OF assms(1)] by blast
  with parse_value_encode [OF assms(1), of "[]" t] assms(2,3) show ?thesis
    by (simp add: json_next_def finish.simps)
qed

end
