(* ===== verification/Payload.thy ===== *)
theory Payload
  imports ApiStore WorkerMessage JsonEncoder "HOL-Library.Multiset"
begin

text \<open>
  The message between the two programs: the API stores it as a \<open>jsonb\<close> object, PostgreSQL hands its
  text to the publisher, the worker decodes the text. What the worker gets is what the API stored,
  in whatever order PostgreSQL prints the members.
\<close>

section \<open>Printing flat objects\<close>

text \<open>
  Names and strings of printable ASCII without quotes and backslashes print as they are; such text
  parses back. The separators are those of PostgreSQL's \<open>jsonb\<close> output.
\<close>

definition plain :: "string \<Rightarrow> bool" where
  "plain s = list_all (\<lambda>c. 32 \<le> byte c \<and> byte c < 128 \<and> c \<noteq> CHR 0x22 \<and> c \<noteq> CHR 0x5C) s"

definition plain_value :: "json \<Rightarrow> bool" where
  "plain_value v = (case v of JStr s \<Rightarrow> plain s | JNum l \<Rightarrow> (\<exists>n. l = format_int n) | _ \<Rightarrow> False)"

definition print_string :: "string \<Rightarrow> bytes" where
  "print_string s = CHR 0x22 # s @ [CHR 0x22]"

definition print_value :: "json \<Rightarrow> bytes" where
  "print_value v = (case v of JStr s \<Rightarrow> print_string s | JNum l \<Rightarrow> l | _ \<Rightarrow> ''null'')"

definition print_member :: "string \<times> json \<Rightarrow> bytes" where
  "print_member kv = print_string (fst kv) @ '': '' @ print_value (snd kv)"

fun print_members :: "(string \<times> json) list \<Rightarrow> bytes" where
  "print_members [] = []"
| "print_members [kv] = print_member kv"
| "print_members (kv # kv' # kvs) = print_member kv @ '', '' @ print_members (kv' # kvs)"

definition print_object :: "(string \<times> json) list \<Rightarrow> bytes" where
  "print_object kvs = CHR ''{'' # print_members kvs @ ''}''"

section \<open>Parsing them back\<close>

lemma string_body_plain: "plain s \<Longrightarrow> string_body (s @ CHR 0x22 # t) = Some (s, t)"
proof (induction s)
  case Nil
  then show ?case by (simp add: string_body.simps)
next
  case (Cons c s)
  then have c: "32 \<le> byte c" "byte c < 128" "c \<noteq> CHR 0x22" "c \<noteq> CHR 0x5C" and s: "plain s"
    by (simp_all add: plain_def)
  have "string_piece (c # s @ CHR 0x22 # t) = Some ([c], s @ CHR 0x22 # t)"
    using c by (simp add: string_piece_def)
  with Cons.IH [OF s] c show ?case by (simp add: string_body.simps [of "c # s @ CHR 0x22 # t"])
qed

lemma parse_value_plain:
  assumes v: "plain_value v" and t: "ends_number t"
  shows "parse_value k (print_value v @ t) = finish k v t"
proof (cases v)
  case (JStr s)
  with v have "plain s" by (simp add: plain_value_def)
  with JStr show ?thesis
    by (simp add: parse_value.simps print_value_def print_string_def skip_ws_def json_ws_def byte_def
        parse_scalar_def string_body_plain)
next
  case (JNum l)
  with v obtain n where l: "l = format_int n" by (auto simp: plain_value_def)
  obtain c ds where f: "format_int n = c # ds" "is_digit c \<or> c = CHR ''-''" using format_int_head by blast
  have b: "byte c = 45 \<or> 48 \<le> byte c \<and> byte c \<le> 57" using f(2) by (auto simp: is_digit_def byte_def)
  then have nws: "\<not> json_ws c" by (auto simp: json_ws_def)
  have ne: "c \<noteq> CHR 0x22" "c \<noteq> CHR ''n''" "c \<noteq> CHR ''t''" "c \<noteq> CHR ''f''" "c \<noteq> CHR ''[''" "c \<noteq> CHR ''{''"
    using b by (auto simp: byte_def)
  have "parse_scalar (c # ds @ t) = Some (JNum l, t)"
    using number_literal_format_int [OF t, of n] f(1) ne by (simp add: parse_scalar_def l)
  with nws ne f(1) JNum l show ?thesis
    by (simp add: parse_value.simps print_value_def skip_ws_def)
qed (use v in \<open>simp_all add: plain_value_def\<close>)

lemma parse_value_space: "parse_value k (CHR '' '' # s) = parse_value k s"
  by (simp add: parse_value.simps skip_ws_def json_ws_def byte_def)

lemma parse_name_space: "parse_name kvs k (CHR '' '' # s) = parse_name kvs k s"
  by (simp add: parse_name.simps skip_ws_def json_ws_def byte_def)

lemma parse_name_member:
  assumes "plain n" and "plain_value v" and "ends_number t"
  shows "parse_name kvs k (print_member (n, v) @ t) = finish (FObj kvs n # k) v t"
proof -
  have "parse_name kvs k (print_member (n, v) @ t) = parse_value (FObj kvs n # k) (CHR '' '' # print_value v @ t)"
    using string_body_plain [OF assms(1)]
    by (simp add: parse_name.simps print_member_def print_string_def skip_ws_def json_ws_def byte_def)
  then show ?thesis by (simp add: parse_value_space parse_value_plain assms(2,3))
qed

lemma parse_members:
  assumes "kvs \<noteq> []" and "\<forall>kv \<in> set kvs. plain (fst kv) \<and> plain_value (snd kv)"
  shows "parse_name acc k (print_members kvs @ CHR ''}'' # t) = finish k (JObj (rev acc @ kvs)) t"
  using assms
proof (induction kvs arbitrary: acc rule: print_members.induct)
  case 1
  then show ?case by simp
next
  case (2 kv)
  have "ends_number (CHR ''}'' # t)" by (simp add: ends_number_def is_digit_def byte_def)
  with 2 show ?case
    by (cases kv) (simp add: parse_name_member finish.simps skip_ws_def json_ws_def byte_def)
next
  case (3 kv kv' kvs)
  let ?rest = "print_members (kv' # kvs) @ CHR ''}'' # t"
  have "ends_number (CHR '','' # CHR '' '' # ?rest)" by (simp add: ends_number_def is_digit_def byte_def)
  then have "parse_name acc k (print_member kv @ '', '' @ ?rest) = parse_name (kv # acc) k (CHR '' '' # ?rest)"
    using "3.prems"
    by (cases kv) (simp add: parse_name_member finish.simps skip_ws_def json_ws_def byte_def)
  with 3 show ?case by (simp add: parse_name_space)
qed

lemma print_members_hd: "kvs \<noteq> [] \<Longrightarrow> \<exists>s. print_members kvs = CHR 0x22 # s"
  by (induction kvs rule: print_members.induct) (auto simp: print_member_def print_string_def)

lemma json_next_print_object:
  assumes ne: "kvs \<noteq> []" and kvs: "\<forall>kv \<in> set kvs. plain (fst kv) \<and> plain_value (snd kv)"
  shows "json_next (print_object kvs @ rest) = Inr (JObj kvs, rest)"
proof -
  obtain s where s: "print_members kvs = CHR 0x22 # s" using print_members_hd [OF ne] by blast
  have "parse_value [] (print_object kvs @ rest) = parse_name [] [] (print_members kvs @ CHR ''}'' # rest)"
    by (simp add: parse_value.simps print_object_def s skip_ws_def json_ws_def byte_def max_nesting_def)
  then have "parse_value [] (print_object kvs @ rest) = Some (JObj kvs, rest)"
    using parse_members [OF ne kvs, of "[]" "[]" rest] by (simp add: finish.simps)
  moreover have "skip_ws (print_object kvs @ rest) \<noteq> []"
    by (simp add: print_object_def skip_ws_def json_ws_def byte_def)
  ultimately show ?thesis by (simp add: json_next_def)
qed

section \<open>Decoding does not depend on the order of the members\<close>

text \<open>Members of different fields may be assigned in any order.\<close>

definition set_member_opt :: "'m struct_fields \<Rightarrow> string \<times> json \<Rightarrow> 'm option \<Rightarrow> 'm option" where
  "set_member_opt fs kv m = (case m of None \<Rightarrow> None | Some m \<Rightarrow> set_member fs kv m)"

lemma set_members_fold: "set_members fs kvs m = fold (set_member_opt fs) kvs (Some m)"
proof -
  have none: "fold (set_member_opt fs) kvs None = None" for kvs
    by (induction kvs) (simp_all add: set_member_opt_def)
  show ?thesis
    by (induction kvs arbitrary: m) (simp_all add: set_member_opt_def none split: option.split)
qed

lemma set_members_mset:
  assumes "mset kvs = mset kvs'"
    and "\<And>a b m. a \<in> set kvs \<Longrightarrow> b \<in> set kvs \<Longrightarrow>
      set_member_opt fs a (set_member_opt fs b m) = set_member_opt fs b (set_member_opt fs a m)"
  shows "set_members fs kvs m = set_members fs kvs' m"
proof -
  have "fold (set_member_opt fs) kvs = fold (set_member_opt fs) kvs'"
    using assms by (intro fold_multiset_equiv) auto
  then show ?thesis by (simp add: set_members_fold)
qed

text \<open>Which field each name of the message selects.\<close>

lemma message_fields [simp]:
  "set_member worker_message_fields (''type'', v) = set_string (\<lambda>s m. m\<lparr>wm_Type := s\<rparr>) v"
  "set_member worker_message_fields (''version'', v) = set_int64 (\<lambda>n m. m\<lparr>wm_Version := n\<rparr>) v"
  "set_member worker_message_fields (''job_id'', v) = set_int64 (\<lambda>n m. m\<lparr>wm_JobID := n\<rparr>) v"
  "set_member worker_message_fields (''work_item_id'', v) = set_int64 (\<lambda>n m. m\<lparr>wm_WorkItemID := n\<rparr>) v"
proof -
  have "\<not> field_matches ''type'' ''version''" "\<not> field_matches ''type'' ''job_id''"
    "\<not> field_matches ''version'' ''job_id''" "\<not> field_matches ''type'' ''work_item_id''"
    "\<not> field_matches ''version'' ''work_item_id''" "\<not> field_matches ''job_id'' ''work_item_id''"
    by code_simp+
  then show
    "set_member worker_message_fields (''type'', v) = set_string (\<lambda>s m. m\<lparr>wm_Type := s\<rparr>) v"
    "set_member worker_message_fields (''version'', v) = set_int64 (\<lambda>n m. m\<lparr>wm_Version := n\<rparr>) v"
    "set_member worker_message_fields (''job_id'', v) = set_int64 (\<lambda>n m. m\<lparr>wm_JobID := n\<rparr>) v"
    "set_member worker_message_fields (''work_item_id'', v) = set_int64 (\<lambda>n m. m\<lparr>wm_WorkItemID := n\<rparr>) v"
    by (auto simp: set_member_def worker_message_fields_def field_matches_def)
qed

definition payload_members :: "int64 \<Rightarrow> int64 \<Rightarrow> (string \<times> json) list" where
  "payload_members job_id work_item_id =
     [(''type'', JStr ''work_item.process''), (''version'', JNum ''1''),
      (''job_id'', JNum (format_int job_id)), (''work_item_id'', JNum (format_int work_item_id))]"

lemma process_payload_members: "process_payload j i = JObj (payload_members j i)"
  by (simp add: process_payload_def payload_members_def)

lemma payload_members_commute:
  "a \<in> set (payload_members j i) \<Longrightarrow> b \<in> set (payload_members j i) \<Longrightarrow>
     set_member_opt worker_message_fields a (set_member_opt worker_message_fields b m) =
     set_member_opt worker_message_fields b (set_member_opt worker_message_fields a m)"
  by (auto simp: payload_members_def set_member_opt_def set_string_def set_int64_def split: option.splits)

definition message_of :: "int64 \<Rightarrow> int64 \<Rightarrow> worker_message" where
  "message_of job_id work_item_id =
     \<lparr>wm_Type = ''work_item.process'', wm_Version = 1, wm_JobID = job_id, wm_WorkItemID = work_item_id\<rparr>"

lemma parse_one: "parse_int64 ''1'' = Some 1"
  by code_simp

lemma decode_payload_members:
  assumes "mset kvs = mset (payload_members j i)" and "in_int64 j" and "in_int64 i"
  shows "decode_struct worker_message_fields (JObj kvs) zero_message = Some (message_of j i)"
proof -
  have s: "set kvs = set (payload_members j i)" using assms(1) by (rule mset_eq_setD)
  have "set_members worker_message_fields kvs zero_message
      = set_members worker_message_fields (payload_members j i) zero_message"
    using assms(1) payload_members_commute by (intro set_members_mset) (auto simp: s)
  also have "\<dots> = Some (message_of j i)"
    using assms(2,3)
    by (simp add: payload_members_def set_string_def set_int64_def parse_one parse_int64_format_int
        zero_message_def message_of_def)
  finally show ?thesis by (simp add: decode_struct_def)
qed

section \<open>What the worker gets\<close>

text \<open>
  What the programs rely on in PostgreSQL: the text of a \<open>jsonb\<close> object is one JSON text of an object
  with the same members, in some order (the members here are flat and have distinct names).
\<close>

definition jsonb_faithful :: "(json \<Rightarrow> bytes) \<Rightarrow> bool" where
  "jsonb_faithful jsonb_text =
     (\<forall>kvs. kvs \<noteq> [] \<and> distinct (map fst kvs) \<and> (\<forall>kv \<in> set kvs. plain (fst kv) \<and> plain_value (snd kv)) \<longrightarrow>
        (\<exists>kvs'. json_next (jsonb_text (JObj kvs)) = Inr (JObj kvs', []) \<and> mset kvs' = mset kvs))"

lemma payload_members_plain:
  "payload_members j i \<noteq> []" "distinct (map fst (payload_members j i))"
  "\<forall>kv \<in> set (payload_members j i). plain (fst kv) \<and> plain_value (snd kv)"
proof -
  have one: "''1'' = format_int 1" by code_simp
  have "plain ''type''" "plain ''version''" "plain ''job_id''" "plain ''work_item_id''"
    "plain ''work_item.process''" by code_simp+
  then show "\<forall>kv \<in> set (payload_members j i). plain (fst kv) \<and> plain_value (snd kv)"
    using one by (auto simp: payload_members_def plain_value_def)
qed (simp_all add: payload_members_def)

lemma payload_decodes:
  assumes "jsonb_faithful jsonb_text" and "in_int64 j" and "in_int64 i"
  shows "decode_worker_message (jsonb_text (process_payload j i)) = Inr (message_of j i)"
proof -
  from assms(1) payload_members_plain [of j i] obtain kvs where
    "json_next (jsonb_text (process_payload j i)) = Inr (JObj kvs, [])" "mset kvs = mset (payload_members j i)"
    unfolding jsonb_faithful_def process_payload_members by blast
  moreover have "json_next [] = Inl (Sentinel IoEOF)" by (simp add: json_next_def skip_ws_def)
  ultimately show ?thesis
    using decode_payload_members [OF _ assms(2,3)] by (simp add: decode_worker_message_def)
qed

lemma payload_accepted:
  assumes "jsonb_faithful jsonb_text" and "0 < j" "in_int64 j" and "0 < i" "in_int64 i"
  shows "accepted_message (jsonb_text (process_payload j i)) (message_of j i)"
  using payload_decodes [OF assms(1,3,5)] assms(2,4)
  by (simp add: accepted_message_def validate_worker_message_def message_of_def
      workItemProcessMessageType_def workItemProcessMessageVersion_def)

text \<open>The order PostgreSQL uses: shorter names first. The text has it.\<close>

definition sample_jsonb_text :: "json \<Rightarrow> bytes" where
  "sample_jsonb_text v =
     (case v of JObj kvs \<Rightarrow> print_object (sort_key (\<lambda>kv. length (fst kv)) kvs) | _ \<Rightarrow> ''null'')"

lemma sample_jsonb_faithful: "jsonb_faithful sample_jsonb_text"
  unfolding jsonb_faithful_def
proof (intro allI impI)
  fix kvs :: "(string \<times> json) list"
  assume a: "kvs \<noteq> [] \<and> distinct (map fst kvs) \<and> (\<forall>kv \<in> set kvs. plain (fst kv) \<and> plain_value (snd kv))"
  let ?s = "sort_key (\<lambda>kv. length (fst kv)) kvs"
  have "?s \<noteq> []" using a by (metis length_0_conv length_sort)
  then have "json_next (print_object ?s @ []) = Inr (JObj ?s, [])"
    using a by (intro json_next_print_object) auto
  then show "\<exists>kvs'. json_next (sample_jsonb_text (JObj kvs)) = Inr (JObj kvs', []) \<and> mset kvs' = mset kvs"
    by (auto simp: sample_jsonb_text_def)
qed

end
