(* ===== verification/Sample.thy ===== *)
theory Sample
  imports Completion Payload
begin

text \<open>
  A concrete database, worlds on it and a message, on which the witnesses of the component theories
  evaluate the operations.
\<close>

section \<open>Databases\<close>

definition sample_item :: work_item_row where
  "sample_item = \<lparr>wi_id = 1, wi_title = ''Write the report'', wi_status = Pending, wi_created_at = 10\<rparr>"

definition sample_job :: processing_job_row where
  "sample_job =
     \<lparr>pj_id = 7, pj_work_item_id = 1, pj_state = Accepted, pj_attempt_count = 1,
      pj_last_error_code = Some ''processing_failed'', pj_created_at = 20, pj_finished_at = None\<rparr>"

definition sample_payload_json :: json where
  "sample_payload_json =
     JObj [(''type'', JStr ''work_item.process''), (''version'', JNum ''1''), (''job_id'', JNum ''7''),
           (''work_item_id'', JNum ''1'')]"

definition sample_outbox :: outbox_row where
  "sample_outbox =
     \<lparr>ob_id = 4, ob_processing_job_id = 7, ob_event_type = ''work_item.process'',
      ob_payload = sample_payload_json, ob_publish_attempts = 0, ob_last_error_code = None,
      ob_created_at = 20, ob_published_at = None\<rparr>"

definition sample_database :: database where
  "sample_database =
     \<lparr>work_items = [sample_item], processing_jobs = [sample_job], outbox_messages = [sample_outbox],
      work_item_results = []\<rparr>"

definition sample_sequences :: sequences where
  "sample_sequences = \<lparr>seq_work_items = 1, seq_processing_jobs = 7, seq_outbox_messages = 4\<rparr>"

definition sample_world :: world where
  "sample_world = \<lparr>db = sample_database, seqs = sample_sequences, turns = []\<rparr>"

definition sample_payload :: bytes where
  "sample_payload =
     ''{\"type\": \"work_item.process\", \"job_id\": 7, \"version\": 1, \"work_item_id\": 1}''"

definition sample_message :: worker_message where
  "sample_message =
     \<lparr>wm_Type = ''work_item.process'', wm_Version = 1, wm_JobID = 7, wm_WorkItemID = 1\<rparr>"

lemmas sample_defs =
  sample_database_def sample_item_def sample_job_def sample_outbox_def sample_payload_json_def
  sample_sequences_def sample_world_def

lemma sample_db_ok: "db_ok sample_database"
  by (simp add: db_ok_def constraint_defs deferred_defs work_item_row_ok_def job_row_ok_def outbox_row_ok_def
       sample_defs unique_key_def pg_text_def in_int32_def
       int32_max_def is_object_def)

lemma sample_seqs_ok: "seqs_ok sample_sequences sample_database"
  by (simp add: seqs_ok_def seqs_nonneg_def sample_defs int64_max_def)

lemma sample_world_ok: "world_ok sample_world"
  by (simp add: world_ok_def sample_world_def sample_db_ok sample_seqs_ok rely_def)

text \<open>The same database after the job has failed for good.\<close>

definition sample_failed_job :: processing_job_row where
  "sample_failed_job =
     sample_job\<lparr>pj_state := Failed, pj_attempt_count := 3, pj_finished_at := Some 30\<rparr>"

definition sample_failed_database :: database where
  "sample_failed_database = sample_database\<lparr>processing_jobs := [sample_failed_job]\<rparr>"

definition sample_failed_world :: world where
  "sample_failed_world = sample_world\<lparr>db := sample_failed_database\<rparr>"

lemma sample_failed_world_ok: "db_ok (db sample_failed_world)" "calm sample_failed_world"
  by (simp_all add: db_ok_def constraint_defs deferred_defs work_item_row_ok_def job_row_ok_def
       outbox_row_ok_def sample_defs sample_failed_world_def sample_failed_database_def
       sample_failed_job_def unique_key_def pg_text_def in_int32_def int32_max_def is_object_def
       active_or_successful_def calm_def isolated_def no_faults_def)

lemma sample_calm: "calm sample_world"
  by (simp add: sample_world_def calm_def isolated_def no_faults_def)

lemma sample_completable: "completable 7 1 (db sample_world)"
  by (simp add: completable_def sample_defs row_at_def int32_max_def)

definition sample_members :: "(string \<times> json) list" where
  "sample_members =
     [(''type'', JStr ''work_item.process''), (''job_id'', JNum (format_int 7)), (''version'', JNum ''1''),
      (''work_item_id'', JNum (format_int 1))]"

lemma sample_payload_text: "sample_payload = print_object sample_members"
proof -
  have "format_int 7 = ''7''" and "format_int 1 = ''1''" by code_simp+
  then show ?thesis
    by (simp add: sample_payload_def sample_members_def print_object_def print_member_def print_string_def
        print_value_def)
qed

lemma sample_accepted: "accepted_message sample_payload sample_message"
proof -
  have m: "mset sample_members = mset (payload_members 7 1)"
    by (simp add: sample_members_def payload_members_def)
  then have s: "set sample_members = set (payload_members 7 1)" by (rule mset_eq_setD)
  have "json_next (print_object sample_members @ []) = Inr (JObj sample_members, [])"
    by (rule json_next_print_object) (use payload_members_plain(3) [of 7 1] s in \<open>simp_all add: sample_members_def\<close>)
  moreover have "json_next [] = Inl (Sentinel IoEOF)" by (simp add: json_next_def skip_ws_def)
  moreover have "in_int64 7" and "in_int64 1" by (simp_all add: in_int64_def int64_min_def int64_max_def)
  ultimately have "decode_worker_message sample_payload = Inr (message_of 7 1)"
    using decode_payload_members [OF m] by (simp add: decode_worker_message_def sample_payload_text)
  then show ?thesis
    by (simp add: accepted_message_def message_of_def sample_message_def validate_worker_message_def
        workItemProcessMessageType_def workItemProcessMessageVersion_def)
qed

end
