(* ===== verification/WorkerRuns.thy ===== *)
theory WorkerRuns
  imports WorkerRuntime FailureRecording Sample
begin

text \<open>
  The worker's properties: what one delivery achieves when nothing interferes, and what holds of
  every run of the process whatever the broker, the database's answers and the other sessions do.
\<close>

section \<open>One delivery, end to end\<close>

lemma get_job_auto_calm:
  assumes calm: "calm w" and ok: "db_ok (db w)"
    and job: "row_at pj_id (processing_jobs (db w)) j = Some r" "pj_work_item_id r = i"
  shows "get_processing_job exec_auto j i w = (Inr (scan_worker_processing_job r), tick w)"
proof -
  have "select_job_stmt j (clock (next_turn w)) (db w) (seqs w) = (Inr r, id, seqs w)"
    using job by (simp add: select_job_stmt_def query_row_by_key)
  from exec_auto_calm [where st = "select_job_stmt j", OF calm this] ok
  have "exec_auto (select_job_stmt j) w = (Inr r, tick w)"
    by (simp add: db_ok_def tick_def)
  with job show ?thesis by (simp add: get_processing_job_def scan_worker_processing_job_def)
qed

lemma delivery_completes:
  assumes calm: "calm w" and ok: "db_ok (db w)" and m: "accepted_message payload m"
    and c: "completable (wm_JobID m) (wm_WorkItemID m) (db w)"
    and item: "row_at wi_id (work_items (db w)) (wm_WorkItemID m) = Some ir"
  shows "\<exists>w' now. handle_worker_message postgres_worker_store payload w = ((settlementAck, None), w')
    \<and> db w' = completed (wm_JobID m) (wm_WorkItemID m) (wi_title ir) now (db w) \<and> calm w'"
proof -
  let ?j = "wm_JobID m" and ?i = "wm_WorkItemID m"
  from c obtain jr where jr: "row_at pj_id (processing_jobs (db w)) ?j = Some jr" "pj_work_item_id jr = ?i"
    "pj_state jr = Accepted" by (auto simp: completable_def split: option.splits)
  note g = get_job_auto_calm [OF calm ok jr(1,2)]
  from complete_processing_job_calm [of "tick w" ?j ?i ir jr] calm ok c item jr(1) obtain w' where
    w': "complete_processing_job ?j ?i (tick w) =
      (Inr \<lparr>pc_Disposition = completionApplied,
            pc_Job = scan_worker_processing_job (succeed_row (clock (next_turn (tick w))) jr)\<rparr>, w')"
    "db w' = completed ?j ?i (wi_title ir) (clock (next_turn (tick w))) (db w)" "calm w'" by auto
  have "handle_worker_message postgres_worker_store payload w = ((settlementAck, None), w')"
    using m g w'(1) jr(3)
    by (simp add: handler_defs handle_worker_message_def accepted_message_def postgres_worker_store_def
        successful_processor_def scan_worker_processing_job_def)
  with w' show ?thesis by blast
qed

section \<open>Runs from a valid world continue its history\<close>

interpretation pg_from: worker_completer postgres_worker_store "\<lambda>w. world_ok w \<and> evolves w0 w" settled
  for w0
proof
  show "settled w' j i" if "GetProcessingJob postgres_worker_store j i w = (Inr job, w')"
      "wj_State job = Succeeded \<or> wj_State job = Failed" for w j i job w'
    using that by (simp add: postgres_worker_store_def get_job_settled)
  show "settled w' j i" if "world_ok w \<and> evolves w0 w"
      "CompleteProcessingJob postgres_worker_store j i w = (Inr c, w')" for w j i c w'
    using that complete_processing_job_settled [of w j i c w'] by (simp add: postgres_worker_store_def)
  show "settled w' j i" if "world_ok w \<and> evolves w0 w"
      "RecordProcessingFailure postgres_worker_store j i code m w = (Inr f, w')"
      "pf_Disposition f \<noteq> processingFailureRetryable" for w j i code m f w'
    using that record_processing_failure_settled [of w j i code m f w'] by (simp add: postgres_worker_store_def)
qed (auto simp: postgres_worker_store_def successful_processor_def dest: store_keeps
      intro: evolves_trans get_processing_job_evolves complete_processing_job_evolves
        record_processing_failure_evolves)

lemma worker_process_keeps:
  assumes ok: "world_ok w"
    and run: "run_worker_process config (new_postgres_worker_store parse_config new_pool)
      (\<lambda>e. new_rabbitmq_worker_session_with_dialer (dialer e)) ts w = (out, events, w')"
  shows "world_ok w' \<and> evolves w w' \<and> events_hold (ack_means settled) events w'"
proof (cases "new_postgres_worker_store parse_config new_pool (wc_DatabaseURL config)")
  case (Inl e)
  with run ok show ?thesis by (simp add: process_without_store)
next
  case (Inr store)
  then have "run_worker_process config (\<lambda>url. Inr postgres_worker_store)
      (\<lambda>e. new_rabbitmq_worker_session_with_dialer (dialer e)) ts w = (out, events, w')"
    using run unfolding process_with_store [where new_store = "new_postgres_worker_store parse_config new_pool", OF Inr]
      new_postgres_store [OF Inr] by simp
  from pg_from.acks.process_holds [of config dialer ts w out events w' w, OF this] ok
  show ?thesis by simp
qed

section \<open>A sample run\<close>

text \<open>A broker whose stream offers the sample message once and then closes for shutdown.\<close>

definition sample_delivery :: delivery where
  "sample_delivery = \<lparr>Body = sample_payload, acknowledger = (\<lambda>_. None)\<rparr>"

definition sample_stream :: "loop_turn list" where
  "sample_stream =
     [\<lparr>ctx_err = False, event = Received sample_delivery\<rparr>, \<lparr>ctx_err = True, event = CtxDone\<rparr>]"

definition sample_dialer :: worker_dialer where
  "sample_dialer url =
     Inr \<lparr>OpenChannel = Inr \<lparr>Qos = (\<lambda>_ _ _. None), ConsumeWithContext = (\<lambda>_ _ _ _ _ _. Inr sample_stream)\<rparr>,
          CloseWithin = (\<lambda>_. None)\<rparr>"

definition sample_turns :: "unit lifecycle_turn list" where
  "sample_turns = [\<lparr>lt_before = False, lt_session = (), lt_after = True, lt_wait = ContextDone\<rparr>]"

definition sample_config :: worker_config where
  "sample_config =
     \<lparr>wc_DatabaseURL = ''postgres://db'', wc_RabbitMQWorkerURL = ''amqp://mq'', wc_QueueName = ''q''\<rparr>"

definition sample_run :: "loop_outcome \<times> worker_event list \<times> world" where
  "sample_run =
     run_worker_process sample_config (new_postgres_worker_store Inr (\<lambda>c. Inr ()))
       (\<lambda>e. new_rabbitmq_worker_session_with_dialer sample_dialer) sample_turns sample_world"

lemma sample_handled:
  "\<exists>w' now. handle_worker_message postgres_worker_store sample_payload sample_world = ((settlementAck, None), w')
    \<and> db w' = completed 7 1 ''Write the report'' now sample_database"
proof -
  have "completable (wm_JobID sample_message) (wm_WorkItemID sample_message) (db sample_world)"
    using sample_completable by (simp add: sample_message_def)
  moreover have "row_at wi_id (work_items (db sample_world)) (wm_WorkItemID sample_message) = Some sample_item"
    by (simp add: sample_world_def sample_database_def sample_message_def sample_item_def row_at_def)
  moreover have "db_ok (db sample_world)" by (simp add: sample_world_def sample_db_ok)
  ultimately show ?thesis
    using delivery_completes [OF sample_calm _ sample_accepted]
    by (simp add: sample_message_def sample_world_def sample_item_def) blast
qed

lemma sample_run_acks:
  "\<exists>out events w'. sample_run = (out, events, w') \<and> Settled sample_payload (Ack False) \<in> set events"
proof -
  obtain w' where "handle_worker_message postgres_worker_store sample_payload sample_world =
      ((settlementAck, None), w')" using sample_handled by blast
  then show ?thesis
    by (simp add: sample_run_def run_worker_process_def new_postgres_worker_store_def sample_turns_def
        run_worker_session_def new_rabbitmq_worker_session_with_dialer_def sample_dialer_def
        start_rabbitmq_consumer_def sample_stream_def sample_delivery_def process_rabbitmq_delivery_def
        process_rabbitmq_delivery_with_processor_def handle_worker_message_def settle_rabbitmq_delivery_def
        close_session_def session_result_def)
qed

section \<open>Failed attempts and duplicates\<close>

lemma delivery_fails:
  assumes calm: "calm w" and ok: "db_ok (db w)" and m: "accepted_message payload m"
    and job: "row_at pj_id (processing_jobs (db w)) (wm_JobID m) = Some r"
    and r: "open_job (wm_JobID m) (wm_WorkItemID m) r" "pj_attempt_count r < int32_max"
    and fails: "\<And>v. processor m v = (Some err, v)"
  shows "\<exists>w' now herr. handle_worker_message_with_processor postgres_worker_store processor payload w =
      (if pj_attempt_count r + 1 < 3 then (settlementNackRequeue, Some herr) else (settlementAck, None), w')
    \<and> db w' = with_failed_attempt (wm_JobID m) (wm_WorkItemID m) ''processing_failed'' 3 now (db w)
    \<and> calm w'"
proof -
  let ?j = "wm_JobID m" and ?i = "wm_WorkItemID m"
  have state: "pj_state r = Accepted" "pj_work_item_id r = ?i" using r(1) by (auto simp: open_job_def)
  note g = get_job_auto_calm [OF calm ok job state(2)]
  from record_processing_failure_counts [of "tick w" 3 "''processing_failed''" ?j r ?i] calm ok job r
  obtain w' where w':
    "record_processing_failure ?j ?i ''processing_failed'' 3 (tick w) =
      (Inr \<lparr>pf_Disposition = (if pj_attempt_count r + 1 < 3 then processingFailureRetryable
                              else processingFailureTerminal),
            pf_Job = scan_worker_processing_job
              (record_failure_row ''processing_failed'' 3 (clock (next_turn (tick w))) r)\<rparr>, w')"
    "db w' = with_failed_attempt ?j ?i ''processing_failed'' 3 (clock (next_turn (tick w))) (db w)" "calm w'"
    by auto
  have "handle_worker_message_with_processor postgres_worker_store processor payload w =
      (if pj_attempt_count r + 1 < 3 then (settlementNackRequeue, Some (Wrap ''process work item job'' err))
       else (settlementAck, None), w')"
    using m g w'(1) state fails
    by (simp add: handler_defs accepted_message_def postgres_worker_store_def scan_worker_processing_job_def
        workerProcessingFailureCode_def workerProcessingMaxAttempts_def)
  with w' show ?thesis by blast
qed

lemma duplicate_acked:
  assumes calm: "calm w" and ok: "db_ok (db w)" and m: "accepted_message payload m"
    and closed: "settled w (wm_JobID m) (wm_WorkItemID m)"
  shows "\<exists>w'. handle_worker_message_with_processor postgres_worker_store processor payload w =
    ((settlementAck, None), w') \<and> db w' = db w \<and> calm w'"
proof -
  from closed obtain r where r: "row_at pj_id (processing_jobs (db w)) (wm_JobID m) = Some r"
    "pj_work_item_id r = wm_WorkItemID m" "pj_state r = Succeeded \<or> pj_state r = Failed"
    by (auto simp: settled_def terminal_def split: option.splits)
  from get_job_auto_calm [OF calm ok r(1,2)] m r(3) calm show ?thesis
    by (auto simp: handler_defs accepted_message_def postgres_worker_store_def scan_worker_processing_job_def)
qed

section \<open>Properties\<close>

text \<open>
  C2 (acknowledged means settled). Whatever the broker answers and delivers, whatever calls to
  PostgreSQL fail and whatever other sessions commit in between: if a worker process has
  acknowledged a payload, the payload is a well-formed message of the known type and version, and
  the job it names belongs to the item it names and is terminal in the committed database.
\<close>

theorem worker_acks_only_settled:
  assumes "world_ok w"
    and "run_worker_process config (new_postgres_worker_store parse_config new_pool)
      (\<lambda>e. new_rabbitmq_worker_session_with_dialer (dialer e)) ts w = (out, events, w')"
    and "Settled payload (Ack multiple) \<in> set events"
  shows "\<exists>m. accepted_message payload m \<and> settled w' (wm_JobID m) (wm_WorkItemID m)"
  using worker_process_keeps [OF assms(1,2)] assms(3) by (fastforce simp: events_hold_def ack_means_def)

theorem worker_acks_only_settled_witness:
  "\<exists>w' m. accepted_message sample_payload m \<and> settled w' (wm_JobID m) (wm_WorkItemID m)
     \<and> snd (snd sample_run) = w'"
proof -
  obtain out events w' where "sample_run = (out, events, w')" "Settled sample_payload (Ack False) \<in> set events"
    using sample_run_acks by blast
  with worker_acks_only_settled [OF sample_world_ok sample_run_def [symmetric, THEN trans]]
  show ?thesis by (metis snd_conv)
qed

text \<open>
  C8 (every run keeps the data). Under the same conditions, the database still satisfies every
  declared constraint and continues its history: no title changed, no done item reopened, no
  terminal job touched, no result, job, item or outbox message gone.
\<close>

theorem worker_keeps_database:
  assumes "world_ok w"
    and "run_worker_process config (new_postgres_worker_store parse_config new_pool)
      (\<lambda>e. new_rabbitmq_worker_session_with_dialer (dialer e)) ts w = (out, events, w')"
  shows "world_ok w' \<and> continues (db w) (db w')"
  using worker_process_keeps [OF assms] assms(1) by (simp add: evolves_def)

theorem worker_keeps_database_witness:
  "world_ok (snd (snd sample_run)) \<and> continues sample_database (db (snd (snd sample_run)))"
  using worker_keeps_database [OF sample_world_ok sample_run_def [symmetric, THEN trans]]
  by (simp add: sample_world_def) (metis prod.collapse)

text \<open>
  C13 (the broker protocol). The events of a process, over all its sessions, are accepted by the
  protocol automaton: every session dials, opens a channel, limits prefetch to one, and only then
  consumes with manual acknowledgement; it settles only while consuming; after a failed step or a
  requeued delivery it does nothing but close; the store is closed last, with no connection open.
  The process ends with an error only if it could not create its store, without touching the broker.
\<close>

theorem worker_broker_protocol:
  assumes "run_worker_process config new_store
      (\<lambda>e. new_rabbitmq_worker_session_with_dialer (dialer e)) ts s = (out, events, s')"
  shows "case out of
      Waiting \<Rightarrow> phases Disconnected events \<in> {Some Disconnected, Some Consuming}
    | Returned None \<Rightarrow> phases Disconnected events = Some Stopped
    | Returned (Some err) \<Rightarrow> events = [] \<and> \<not> is_ok (new_store (wc_DatabaseURL config))"
proof (cases "new_store (wc_DatabaseURL config)")
  case (Inl e)
  with assms show ?thesis by (auto simp: process_without_store)
next
  case (Inr store)
  obtain out1 ev1 s1 where l: "run_worker_lifecycle_with_reporter
      (\<lambda>e. run_worker_session store (new_rabbitmq_worker_session_with_dialer (dialer e)
         (wc_RabbitMQWorkerURL config) (wc_QueueName config)))
      workerSessionRetryDelay (Some (\<lambda>err. [ExitReported err])) ts s = (out1, ev1, s1)"
    by (metis prod_cases3)
  have "phases Disconnected ev1 \<in> Some ` {Disconnected, Consuming}
      \<and> (out1 \<noteq> Waiting \<longrightarrow> out1 = Returned None \<and> phases Disconnected ev1 = Some Disconnected)"
    by (rule phases_lifecycle [OF phases_session _ l]) auto
  with assms Inr l show ?thesis
    by (cases out1) (auto simp: run_worker_process_def phases_append)
qed

theorem worker_broker_protocol_witness:
  "\<exists>out events w'. sample_run = (out, events, w')
    \<and> phases Disconnected events \<in> {Some Disconnected, Some Consuming, Some Stopped}"
proof -
  obtain out events w' where r: "sample_run = (out, events, w')" by (metis prod_cases3)
  from worker_broker_protocol [OF r [unfolded sample_run_def]] r show ?thesis
    by (cases out; cases "case out of Returned e \<Rightarrow> e | _ \<Rightarrow> None")
       (auto simp: new_postgres_worker_store_def)
qed



text \<open>
  C10 (a delivery completes its job). When no other session interferes and no call fails, handling
  the message of an accepted job of a pending item acknowledges it, and the database is the completed
  one: the analysis of the immutable title stored, the item done, the job succeeded with its attempt
  counted and its last error cleared, nothing else changed.
\<close>

theorem delivery_completes_job:
  assumes "calm w" and "db_ok (db w)" and "accepted_message payload m"
    and "completable (wm_JobID m) (wm_WorkItemID m) (db w)"
    and "row_at wi_id (work_items (db w)) (wm_WorkItemID m) = Some item"
  shows "\<exists>w' now. handle_worker_message postgres_worker_store payload w = ((settlementAck, None), w')
    \<and> db w' = completed (wm_JobID m) (wm_WorkItemID m) (wi_title item) now (db w)"
  using delivery_completes [OF assms] by blast

theorem delivery_completes_job_witness:
  "\<exists>w' now. handle_worker_message postgres_worker_store sample_payload sample_world = ((settlementAck, None), w')
    \<and> db w' = completed 7 1 ''Write the report'' now sample_database"
  using delivery_completes_job [of sample_world sample_payload sample_message sample_item]
    sample_calm sample_db_ok sample_accepted sample_completable
  by (simp add: sample_world_def sample_message_def sample_database_def sample_item_def row_at_def)

text \<open>
  C16 (a failed attempt). When the processor fails on an open job, one attempt is counted; the
  message is put back while fewer than three are used, and acknowledged with the job failed at the
  third.
\<close>

theorem delivery_failure_bounded:
  assumes "calm w" and "db_ok (db w)" and "accepted_message payload m"
    and "row_at pj_id (processing_jobs (db w)) (wm_JobID m) = Some r"
    and "open_job (wm_JobID m) (wm_WorkItemID m) r" and "pj_attempt_count r < int32_max"
    and "\<And>v. processor m v = (Some err, v)"
  shows "\<exists>w' now settlement herr.
    handle_worker_message_with_processor postgres_worker_store processor payload w = ((settlement, herr), w')
    \<and> settlement = (if pj_attempt_count r + 1 < 3 then settlementNackRequeue else settlementAck)
    \<and> db w' = with_failed_attempt (wm_JobID m) (wm_WorkItemID m) ''processing_failed'' 3 now (db w)
    \<and> (settlement = settlementAck \<longleftrightarrow> settled w' (wm_JobID m) (wm_WorkItemID m))"
proof -
  from delivery_fails [where processor = processor, OF assms] obtain w' now herr where
    h: "handle_worker_message_with_processor postgres_worker_store processor payload w =
      (if pj_attempt_count r + 1 < 3 then (settlementNackRequeue, Some herr) else (settlementAck, None), w')"
    and d: "db w' = with_failed_attempt (wm_JobID m) (wm_WorkItemID m) ''processing_failed'' 3 now (db w)"
    by blast
  have "settled w' (wm_JobID m) (wm_WorkItemID m) \<longleftrightarrow> \<not> pj_attempt_count r + 1 < 3"
    using assms(4,5) d
    by (auto simp: settled_def with_failed_attempt_def failure_update.row_at_update record_failure_row_def
        terminal_def open_job_def)
  with h d show ?thesis by (cases "pj_attempt_count r + 1 < 3") auto
qed

theorem delivery_failure_bounded_witness:
  "\<exists>w' herr. handle_worker_message_with_processor postgres_worker_store
      (\<lambda>m v. (Some (Opaque ''boom''), v)) sample_payload sample_world = ((settlementNackRequeue, herr), w')"
  using delivery_failure_bounded [of sample_world sample_payload sample_message sample_job
      "\<lambda>m v. (Some (Opaque ''boom''), v)" "Opaque ''boom''"]
    sample_calm sample_db_ok sample_accepted
  by (auto simp: sample_world_def sample_message_def sample_database_def sample_job_def row_at_def
      open_job_def int32_max_def)

text \<open>
  C22 (duplicates are harmless). A message whose job is already terminal is acknowledged without any
  change to the database, whatever the processor would do.
\<close>

theorem duplicate_delivery_harmless:
  assumes "calm w" and "db_ok (db w)" and "accepted_message payload m"
    and "settled w (wm_JobID m) (wm_WorkItemID m)"
  shows "\<exists>w'. handle_worker_message_with_processor postgres_worker_store processor payload w =
    ((settlementAck, None), w') \<and> db w' = db w"
  using duplicate_acked [OF assms] by blast

theorem duplicate_delivery_harmless_witness:
  "\<exists>w'. handle_worker_message postgres_worker_store sample_payload sample_failed_world =
    ((settlementAck, None), w') \<and> db w' = sample_failed_database"
proof -
  have "settled sample_failed_world (wm_JobID sample_message) (wm_WorkItemID sample_message)"
    by (simp add: settled_def sample_failed_world_def sample_failed_database_def sample_failed_job_def
        sample_job_def sample_message_def row_at_def terminal_def)
  moreover have "db sample_failed_world = sample_failed_database" by (simp add: sample_failed_world_def)
  ultimately show ?thesis
    unfolding handle_worker_message_def
    using duplicate_delivery_harmless [OF sample_failed_world_ok(2,1) sample_accepted, of successful_processor]
    by simp
qed

end
