(* ===== verification/WorkerMain.thy ===== *)
theory WorkerMain
  imports WorkerRuns RuntimeConfig
begin

text \<open>
  \<open>main\<close> of \<open>worker/main.go\<close>: configuration, then the process over the PostgreSQL store and RabbitMQ
  sessions, with its log lines. A returned error is the text of \<open>log.Fatalf\<close>, a return without one the
  clean exit. The shutdown signals are in the turns: they end the context.
\<close>

section \<open>The process and its log\<close>

text \<open>A line of the log: its text and the error it prints, if it prints one.\<close>

datatype worker_main_event = Called worker_event | Line string "go_error option"

definition report_exit :: "go_error option \<Rightarrow> worker_main_event" where
  "report_exit err =
     (case err of
        None \<Rightarrow> Line ''worker session ended unexpectedly without error; retrying'' None
      | Some e \<Rightarrow> Line ''worker session ended; retrying'' (Some e))"

definition main_event :: "worker_event \<Rightarrow> worker_main_event" where
  "main_event e = (case e of ExitReported err \<Rightarrow> report_exit err | _ \<Rightarrow> Called e)"

definition worker_main ::
  "(string \<Rightarrow> string) \<Rightarrow> (string \<Rightarrow> bytes result) \<Rightarrow> (string \<Rightarrow> 's job_completer result)
     \<Rightarrow> ('e \<Rightarrow> string \<Rightarrow> string \<Rightarrow> worker_session result \<times> worker_event list)
     \<Rightarrow> 'e lifecycle_turn list \<Rightarrow> 's \<Rightarrow> loop_outcome \<times> worker_main_event list \<times> 's" where
  "worker_main lookup read_file new_store new_session ts s =
     (case load_worker_config lookup read_file of
        Inl err \<Rightarrow> (Returned (Some (Wrap ''worker configuration'' err)), [], s)
      | Inr config \<Rightarrow>
          (let starting = Line (''worker starting queue='' @ wc_QueueName config) None in
           case run_worker_process config new_store new_session ts s of
             (Waiting, events, s') \<Rightarrow> (Waiting, starting # map main_event events, s')
           | (Returned (Some err), events, s') \<Rightarrow>
               (Returned (Some (Wrap ''worker stopped'' err)), starting # map main_event events, s')
           | (Returned None, events, s') \<Rightarrow>
               (Returned None,
                starting # map main_event events @ [Line ''worker shutdown complete'' None], s')))"

section \<open>How it ends\<close>

text \<open>The moments at which a lifecycle turn sees its context done.\<close>

definition shutdown_seen :: "'e lifecycle_turn \<Rightarrow> bool" where
  "shutdown_seen t = (lt_before t \<or> lt_after t \<or> lt_wait t = ContextDone)"

lemma lifecycle_returns_on_shutdown:
  "run_worker_lifecycle_with_reporter run_session delay report ts s = (Returned err, events, s') \<Longrightarrow>
     err = None \<and> (\<exists>t \<in> set ts. shutdown_seen t)"
proof (induction ts arbitrary: s err events s')
  case Nil
  then show ?case by simp
next
  case (Cons t ts)
  show ?case
  proof (cases "shutdown_seen t")
    case True
    obtain out1 ev1 s1 where r: "run_session (lt_session t) s = (out1, ev1, s1)" by (metis prod_cases3)
    obtain out2 ev2 s2 where rec: "run_worker_lifecycle_with_reporter run_session delay report ts s1 = (out2, ev2, s2)"
      by (metis prod_cases3)
    from Cons.IH [of s1] Cons.prems r rec True show ?thesis
      by (cases out1) (auto simp: Let_def split: if_splits)
  next
    case False
    obtain out1 ev1 s1 where r: "run_session (lt_session t) s = (out1, ev1, s1)" by (metis prod_cases3)
    obtain out2 ev2 s2 where rec: "run_worker_lifecycle_with_reporter run_session delay report ts s1 = (out2, ev2, s2)"
      by (metis prod_cases3)
    have "lt_wait t = DelayElapsed" using False by (cases "lt_wait t") (simp_all add: shutdown_seen_def)
    with Cons.IH [of s1] Cons.prems r rec False show ?thesis
      by (cases out1)
         (auto simp: Let_def shutdown_seen_def wait_for_worker_retry_delay_def split: if_splits)
  qed
qed

text \<open>
  C32 (the worker ends only when asked to). The worker's process returns without an error only after a
  turn of its lifecycle saw the shutdown, and says so; it returns with one only from its start-up (a bad
  configuration or no store), before it has made a call to the broker or the database. Sessions that
  fail never end it.
\<close>

theorem worker_ends_only_on_request:
  assumes "worker_main lookup read_file new_store new_session ts s = (Returned err, events, s')"
  shows "if err = None
    then (\<exists>t \<in> set ts. lt_before t \<or> lt_after t \<or> lt_wait t = ContextDone)
      \<and> last events = Line ''worker shutdown complete'' None
    else (\<forall>e. Called e \<notin> set events) \<and> s' = s"
proof (cases "load_worker_config lookup read_file")
  case (Inl e)
  with assms show ?thesis by (auto simp: worker_main_def)
next
  case config: (Inr config)
  show ?thesis
  proof (cases "new_store (wc_DatabaseURL config)")
    case (Inl e)
    with assms config show ?thesis by (auto simp: worker_main_def run_worker_process_def Let_def)
  next
    case (Inr store)
    obtain out1 ev1 s1 where l: "run_worker_lifecycle_with_reporter
        (\<lambda>e. run_worker_session store (new_session e (wc_RabbitMQWorkerURL config) (wc_QueueName config)))
        workerSessionRetryDelay (Some (\<lambda>err. [ExitReported err])) ts s = (out1, ev1, s1)" by (metis prod_cases3)
    with assms config Inr obtain r where r: "out1 = Returned r" "err = map_option (Wrap ''worker stopped'') r"
      by (cases out1) (auto simp: worker_main_def run_worker_process_def Let_def split: option.splits)
    from lifecycle_returns_on_shutdown [OF l [unfolded r(1)]] r have none: "r = None" "\<exists>t \<in> set ts. shutdown_seen t" by auto
    from assms config Inr l r none(1) have "last events = Line ''worker shutdown complete'' None"
      by (auto simp: worker_main_def run_worker_process_def Let_def)
    with none r(2) show ?thesis by (simp add: shutdown_seen_def)
  qed
qed

definition sample_worker_lookup :: "string \<Rightarrow> string" where
  "sample_worker_lookup k =
     (if k = ''DATABASE_URL'' then ''postgres://db'' else if k = ''RABBITMQ_WORKER_URL'' then ''amqp://mq''
      else if k = ''RABBITMQ_QUEUE'' then ''q'' else [])"

theorem worker_ends_only_on_request_witness:
  "\<exists>events w'. worker_main sample_worker_lookup (\<lambda>_. Inl (Opaque ''no file''))
      (new_postgres_worker_store Inr (\<lambda>c. Inr ()))
      (\<lambda>e. new_rabbitmq_worker_session_with_dialer sample_dialer) sample_turns sample_world
      = (Returned None, events, w')
    \<and> (\<exists>t \<in> set sample_turns. lt_before t \<or> lt_after t \<or> lt_wait t = ContextDone)
    \<and> last events = Line ''worker shutdown complete'' None"
proof -
  have config: "load_worker_config sample_worker_lookup (\<lambda>_. Inl (Opaque ''no file'')) = Inr sample_config"
    by (simp add: load_worker_config_def Value_def Let_def sample_worker_lookup_def sample_config_def)
  obtain w' where "handle_worker_message postgres_worker_store sample_payload sample_world =
      ((settlementAck, None), w')" using sample_handled by blast
  then have "\<exists>events w'. worker_main sample_worker_lookup (\<lambda>_. Inl (Opaque ''no file''))
      (new_postgres_worker_store Inr (\<lambda>c. Inr ()))
      (\<lambda>e. new_rabbitmq_worker_session_with_dialer sample_dialer) sample_turns sample_world
      = (Returned None, events, w')"
    by (simp add: worker_main_def config Let_def run_worker_process_def new_postgres_worker_store_def sample_turns_def
        run_worker_session_def new_rabbitmq_worker_session_with_dialer_def sample_dialer_def
        start_rabbitmq_consumer_def sample_stream_def sample_delivery_def process_rabbitmq_delivery_def
        process_rabbitmq_delivery_with_processor_def handle_worker_message_def settle_rabbitmq_delivery_def
        close_session_def session_result_def)
  then obtain events w' where run: "worker_main sample_worker_lookup (\<lambda>_. Inl (Opaque ''no file''))
      (new_postgres_worker_store Inr (\<lambda>c. Inr ()))
      (\<lambda>e. new_rabbitmq_worker_session_with_dialer sample_dialer) sample_turns sample_world
      = (Returned None, events, w')" by blast
  from worker_ends_only_on_request [OF run] run show ?thesis by simp
qed

end
