(* ===== verification/Authz.thy ===== *)
theory Authz
  imports Prelude JsonValue "HOL-Library.AList" "HOL-Library.List_Lexorder" "HOL-Library.Char_ord" "HOL-Library.Multiset"
begin

text \<open>
  \<open>internal/authz/authz.go\<close>: the closed set of permissions, the set granted to a principal, and
  the reader of the \<open>resource_access\<close> claim.
\<close>

section \<open>Permissions\<close>

datatype permission = Permission (name: string)

definition ItemsRead :: permission where "ItemsRead = Permission ''items.read''"
definition ItemsCreate :: permission where "ItemsCreate = Permission ''items.create''"
definition ItemsProcess :: permission where "ItemsProcess = Permission ''items.process''"

lemmas permission_defs = ItemsRead_def ItemsCreate_def ItemsProcess_def

definition known :: "permission list" where
  "known = [ItemsRead, ItemsCreate, ItemsProcess]"

definition permission_valid :: "permission \<Rightarrow> bool" where
  "permission_valid p = (name p \<noteq> '''')"

definition Client :: string where
  "Client = ''work-items-api''"

datatype claim = ClaimAbsent | ClaimMalformed | ClaimPresent

definition claim_string :: "claim \<Rightarrow> string" where
  "claim_string c = (case c of
     ClaimMalformed \<Rightarrow> ''malformed'' | ClaimPresent \<Rightarrow> ''present'' | _ \<Rightarrow> ''absent'')"

section \<open>Sets of permissions\<close>

text \<open>
  Go's \<open>map[Permission]bool\<close>, as an association list in insertion order: an absent key reads as
  \<open>false\<close>. The zero \<open>Set{}\<close> has a nil map, which reads as the empty one.
\<close>

record perm_set =
  granted :: "(permission \<times> bool) list"

definition empty_set :: perm_set where
  "empty_set = \<lparr>granted = []\<rparr>"

definition has_permission :: "perm_set \<Rightarrow> permission \<Rightarrow> bool" where
  "has_permission s p =
     (permission_valid p \<and> (case map_of (granted s) p of Some b \<Rightarrow> b | None \<Rightarrow> False))"

definition names :: "perm_set \<Rightarrow> string list" where
  "names s = sort (map (name \<circ> fst) (granted s))"

section \<open>Reading the claim\<close>

text \<open>
  The loop over the role entries. The inner loop over \<open>known\<close> sets the entry of every known
  permission whose name is the role's; \<open>None\<close> is the early return on a role that is no string.
\<close>

fun grant :: "string \<Rightarrow> permission list \<Rightarrow> (permission \<times> bool) list \<Rightarrow> (permission \<times> bool) list" where
  "grant nm [] g = g"
| "grant nm (p # ps) g = grant nm ps (if name p = nm then AList.update p True g else g)"

fun grant_roles :: "json list \<Rightarrow> (permission \<times> bool) list \<Rightarrow> (permission \<times> bool) list option" where
  "grant_roles [] g = Some g"
| "grant_roles (raw # rs) g =
     (case raw of JStr nm \<Rightarrow> grant_roles rs (grant nm known g) | _ \<Rightarrow> None)"

definition parse :: "json \<Rightarrow> bool \<Rightarrow> perm_set \<times> claim" where
  "parse resource_access present =
     (if \<not> present then (empty_set, ClaimAbsent)
      else case resource_access of
        JObj clients \<Rightarrow>
          (case obj_get clients Client of
             None \<Rightarrow> (empty_set, ClaimAbsent)
           | Some (JObj members) \<Rightarrow>
               (case obj_get members ''roles'' of
                  None \<Rightarrow> (empty_set, ClaimAbsent)
                | Some (JArr roles) \<Rightarrow>
                    (case grant_roles roles [] of
                       None \<Rightarrow> (empty_set, ClaimMalformed)
                     | Some g \<Rightarrow> (\<lparr>granted = g\<rparr>, ClaimPresent))
                | Some _ \<Rightarrow> (empty_set, ClaimMalformed))
           | Some _ \<Rightarrow> (empty_set, ClaimMalformed))
      | _ \<Rightarrow> (empty_set, ClaimMalformed))"

section \<open>What the reader grants\<close>

definition role_names :: "json list \<Rightarrow> string list" where
  "role_names rs = concat (map (\<lambda>r. case r of JStr n \<Rightarrow> [n] | _ \<Rightarrow> []) rs)"

lemma known_names_distinct: "distinct (map name known)"
  by (simp add: known_def permission_defs)

lemma known_valid: "p \<in> set known \<Longrightarrow> permission_valid p"
  by (auto simp: known_def permission_defs permission_valid_def)

lemma map_of_grant:
  "map_of (grant nm ps g) p =
     (if p \<in> set ps \<and> name p = nm then Some True else map_of g p)"
  by (induction ps arbitrary: g) (auto simp: update_conv)

lemma dom_grant: "fst ` set (grant nm ps g) = fst ` set g \<union> {p \<in> set ps. name p = nm}"
  by (induction ps arbitrary: g) (auto simp: dom_update)

lemma distinct_grant: "distinct (map fst g) \<Longrightarrow> distinct (map fst (grant nm ps g))"
  by (induction ps arbitrary: g) (auto simp: distinct_update)

lemma grant_roles_Some_iff:
  "(\<exists>g'. grant_roles rs g = Some g') \<longleftrightarrow> (\<forall>r \<in> set rs. \<exists>n. r = JStr n)"
  by (induction rs arbitrary: g) (auto split: json.splits)

lemma map_of_grant_roles:
  "grant_roles rs g = Some g' \<Longrightarrow>
     map_of g' p =
       (if p \<in> set known \<and> name p \<in> set (role_names rs) then Some True else map_of g p)"
  by (induction rs arbitrary: g)
     (auto simp: role_names_def map_of_grant split: json.splits if_splits)

lemma dom_grant_roles:
  "grant_roles rs g = Some g' \<Longrightarrow>
     fst ` set g' = fst ` set g \<union> {p \<in> set known. name p \<in> set (role_names rs)}"
  by (induction rs arbitrary: g) (auto simp: role_names_def dom_grant split: json.splits)

lemma distinct_grant_roles:
  "grant_roles rs g = Some g' \<Longrightarrow> distinct (map fst g) \<Longrightarrow> distinct (map fst g')"
  by (induction rs arbitrary: g) (auto simp: distinct_grant split: json.splits)

text \<open>The claim's shape the reader accepts, as the comment of \<open>Parse\<close> draws it.\<close>

definition well_formed_roles :: "json \<Rightarrow> json list option" where
  "well_formed_roles v = (case v of
     JObj clients \<Rightarrow> (case obj_get clients Client of
       Some (JObj members) \<Rightarrow> (case obj_get members ''roles'' of
         Some (JArr roles) \<Rightarrow> (if \<forall>r \<in> set roles. \<exists>n. r = JStr n then Some roles else None)
       | _ \<Rightarrow> None)
     | _ \<Rightarrow> None)
   | _ \<Rightarrow> None)"

lemma parse_present_iff:
  "snd (parse v present) = ClaimPresent \<longleftrightarrow> present \<and> well_formed_roles v \<noteq> None"
  using grant_roles_Some_iff
  by (auto simp: parse_def well_formed_roles_def split: json.splits option.splits)
     (metis option.distinct(1))+

lemma parse_granted:
  assumes "well_formed_roles v = Some roles" and "present"
  obtains g where "parse v present = (\<lparr>granted = g\<rparr>, ClaimPresent)"
    and "grant_roles roles [] = Some g"
  using assms grant_roles_Some_iff [of roles "[]"]
  by (auto simp: parse_def well_formed_roles_def split: json.splits option.splits if_splits)

lemma parse_not_well_formed:
  "\<not> present \<or> well_formed_roles v = None \<Longrightarrow> fst (parse v present) = empty_set"
  using grant_roles_Some_iff
  by (auto simp: parse_def well_formed_roles_def split: json.splits option.splits if_splits)

lemma not_has_empty [simp]: "\<not> has_permission empty_set p"
  by (simp add: has_permission_def empty_set_def)

section \<open>Permissions in order\<close>

text \<open>Permissions compare by their names, which is the order \<open>Names\<close> lists them in.\<close>

instantiation permission :: linorder
begin

definition less_eq_permission :: "permission \<Rightarrow> permission \<Rightarrow> bool" where
  "p \<le> q \<longleftrightarrow> name p \<le> name q"

definition less_permission :: "permission \<Rightarrow> permission \<Rightarrow> bool" where
  "p < q \<longleftrightarrow> name p < name q"

instance
  by standard (auto simp: less_eq_permission_def less_permission_def intro: permission.expand)

end

lemma sort_names: "sort (map name ps) = map name (sort ps)"
proof (rule properties_for_sort)
  show "mset (map name (sort ps)) = mset (map name ps)" by simp
  have "sorted (sort ps)" by simp
  then show "sorted (map name (sort ps))" by (simp add: sorted_map less_eq_permission_def [abs_def])
qed

lemma names_sorted: "names s = map name (sort (map fst (granted s)))"
  by (simp add: names_def sort_names [symmetric])

section \<open>Properties\<close>

text \<open>
  C39 (roles grant exactly what they name). From a decoded claim, a permission is granted exactly if
  the token has the claim, its shape is an object whose entry for this API holds a list of strings
  under \<open>roles\<close>, the permission is one of the known ones, and its name is in the list. In every other
  case, a single role that is no string included, nothing is granted.
\<close>

theorem permissions_exactly_named:
  "has_permission (fst (parse v present)) p \<longleftrightarrow>
     present \<and> p \<in> set known
     \<and> (\<exists>roles. well_formed_roles v = Some roles \<and> JStr (name p) \<in> set roles)"
proof (cases "present \<and> well_formed_roles v \<noteq> None")
  case False
  then have "fst (parse v present) = empty_set" by (intro parse_not_well_formed) auto
  with False show ?thesis by auto
next
  case True
  then obtain roles where roles: "well_formed_roles v = Some roles" and "present" by blast
  from parse_granted [OF this] obtain g where g: "fst (parse v present) = \<lparr>granted = g\<rparr>"
    and gr: "grant_roles roles [] = Some g" by (metis fst_conv)
  have "name p \<in> set (role_names roles) \<longleftrightarrow> JStr (name p) \<in> set roles"
    by (induction roles) (auto simp: role_names_def split: json.splits)
  then show ?thesis
    unfolding g using roles True known_valid [of p] map_of_grant_roles [OF gr, of p]
    by (auto simp: has_permission_def)
qed

text \<open>
  The list of granted permissions: what \<open>Names\<close> reports of a parsed claim is the sorted list,
  without repetition, of exactly the names of the permissions it grants.
\<close>

theorem names_of_parsed:
  "sorted (names (fst (parse v present))) \<and> distinct (names (fst (parse v present)))
    \<and> set (names (fst (parse v present))) = {name p |p. has_permission (fst (parse v present)) p}"
proof (cases "present \<and> well_formed_roles v \<noteq> None")
  case False
  then have e: "fst (parse v present) = empty_set" by (intro parse_not_well_formed) auto
  show ?thesis by (simp add: e) (simp add: names_def empty_set_def)
next
  case True
  then obtain roles where "well_formed_roles v = Some roles" and "present" by blast
  from parse_granted [OF this] obtain g where g: "fst (parse v present) = \<lparr>granted = g\<rparr>"
    and gr: "grant_roles roles [] = Some g" by (metis fst_conv)
  have dom: "fst ` set g = {p \<in> set known. name p \<in> set (role_names roles)}"
    using dom_grant_roles [OF gr] by simp
  have has: "has_permission \<lparr>granted = g\<rparr> p \<longleftrightarrow> p \<in> fst ` set g" for p
    using known_valid [of p] map_of_grant_roles [OF gr, of p] by (auto simp: has_permission_def dom)
  have "distinct (map fst g)" using distinct_grant_roles [OF gr] by simp
  moreover have "inj name" by (rule injI) (rule permission.expand)
  ultimately have "distinct (map (name \<circ> fst) g)"
    by (metis distinct_map inj_on_subset map_map subset_UNIV)
  then show ?thesis by (auto simp: g names_def has image_iff)
qed

end
