(* ===== verification/Authn.thy ===== *)
theory Authn
  imports Authz GoStrings
begin

text \<open>
  \<open>internal/authn/config.go\<close> and \<open>internal/authn/validator.go\<close>: the validation policy and the
  validator of bearer tokens. The JWT library (parsing and verifying tokens, the key cache) and
  \<open>url.Parse\<close> are parameters; the validator's own decisions, its refresh of the signing keys with the
  cooldown, and its classification of errors are the model.
\<close>

section \<open>The policy\<close>

definition ModeDisabled :: string where "ModeDisabled = ''disabled''"
definition ModeOIDC :: string where "ModeOIDC = ''oidc''"

definition defaultClockSkew :: duration where
  "defaultClockSkew = 30 * Second"

text \<open>
  \<open>jwa.SignatureAlgorithm\<close>: the algorithms the library knows, symmetric ones and \<open>none\<close> included, and those a
  program may register beside them; and their names (\<open>String()\<close>).
\<close>

datatype signature_algorithm =
  RS256 | RS384 | RS512 | PS256 | PS384 | PS512 | ES256 | ES256K | ES384 | ES512 | EdDSA
  | HS256 | HS384 | HS512 | NoSignature | Registered string

fun algorithm_string :: "signature_algorithm \<Rightarrow> string" where
  "algorithm_string RS256 = ''RS256''"
| "algorithm_string RS384 = ''RS384''"
| "algorithm_string RS512 = ''RS512''"
| "algorithm_string PS256 = ''PS256''"
| "algorithm_string PS384 = ''PS384''"
| "algorithm_string PS512 = ''PS512''"
| "algorithm_string ES256 = ''ES256''"
| "algorithm_string ES256K = ''ES256K''"
| "algorithm_string ES384 = ''ES384''"
| "algorithm_string ES512 = ''ES512''"
| "algorithm_string EdDSA = ''EdDSA''"
| "algorithm_string HS256 = ''HS256''"
| "algorithm_string HS384 = ''HS384''"
| "algorithm_string HS512 = ''HS512''"
| "algorithm_string NoSignature = ''none''"
| "algorithm_string (Registered nm) = nm"

text \<open>Those that sign with a private key and verify with the public one.\<close>

definition asymmetric :: "signature_algorithm \<Rightarrow> bool" where
  "asymmetric algorithm =
     (case algorithm of HS256 \<Rightarrow> False | HS384 \<Rightarrow> False | HS512 \<Rightarrow> False | NoSignature \<Rightarrow> False
      | Registered nm \<Rightarrow> False | _ \<Rightarrow> True)"

definition permitted_algorithms :: "(string \<times> signature_algorithm) list" where
  "permitted_algorithms =
     [(''RS256'', RS256), (''RS384'', RS384), (''RS512'', RS512),
      (''PS256'', PS256), (''PS384'', PS384), (''PS512'', PS512),
      (''ES256'', ES256), (''ES384'', ES384), (''ES512'', ES512),
      (''EdDSA'', EdDSA)]"

record authn_config =
  cf_Mode :: string
  cf_Issuer :: string
  cf_Audience :: string
  cf_JWKSURL :: string
  cf_Algorithms :: "signature_algorithm list"
  cf_CAFile :: string
  cf_ClockSkew :: duration

definition disabled_config :: authn_config where
  "disabled_config =
     \<lparr>cf_Mode = ModeDisabled, cf_Issuer = [], cf_Audience = [], cf_JWKSURL = [], cf_Algorithms = [],
      cf_CAFile = [], cf_ClockSkew = 0\<rparr>"

text \<open>
  One required URL. \<open>url_parse\<close> is \<open>url.Parse\<close>: the scheme and host of the text, \<open>None\<close> for its error.
\<close>

definition check_url :: "(string \<Rightarrow> (string \<times> string) option) \<Rightarrow> string \<Rightarrow> string \<Rightarrow> go_error option" where
  "check_url url_parse setting value =
     (if value = [] then Some (Opaque (setting @ '' is required when AUTHENTICATION=oidc''))
      else case url_parse value of
        None \<Rightarrow> Some (Opaque (setting @ '' must be an absolute https URL''))
      | Some (scheme, host) \<Rightarrow>
          (if scheme \<noteq> ''https'' \<or> host = [] then Some (Opaque (setting @ '' must be an absolute https URL''))
           else None))"

fun first_error :: "go_error option list \<Rightarrow> go_error option" where
  "first_error [] = None"
| "first_error (None # es) = first_error es"
| "first_error (Some e # es) = Some e"

fun load_algorithms :: "string list \<Rightarrow> signature_algorithm list \<Rightarrow> signature_algorithm list result" where
  "load_algorithms [] acc = Inr acc"
| "load_algorithms (nm # nms) acc =
     (case map_of permitted_algorithms (trim_space nm) of
        None \<Rightarrow> Inl (Opaque (''OIDC_ALLOWED_ALGORITHMS: unsupported algorithm '' @ trim_space nm))
      | Some algorithm \<Rightarrow> load_algorithms nms (acc @ [algorithm]))"

text \<open>
  \<open>issuer_first\<close> is the order in which Go's \<open>range\<close> visits the two-entry map of URLs, which is
  unspecified.
\<close>

definition load_config ::
  "(string \<Rightarrow> string) \<Rightarrow> (string \<Rightarrow> (string \<times> string) option) \<Rightarrow> bool \<Rightarrow> authn_config result" where
  "load_config lookup url_parse issuer_first =
     (let mode = trim_space (lookup ''AUTHENTICATION'') in
      if mode = ModeDisabled then Inr disabled_config
      else if mode = [] then Inl (Opaque ''AUTHENTICATION is required'')
      else if mode \<noteq> ModeOIDC then Inl (Opaque ''AUTHENTICATION must be disabled or oidc'')
      else
        (let issuer = trim_space (lookup ''OIDC_ISSUER_URL'');
             jwks = trim_space (lookup ''OIDC_JWKS_URL'');
             audience = trim_space (lookup ''OIDC_AUDIENCE'');
             checks = [check_url url_parse ''OIDC_ISSUER_URL'' issuer, check_url url_parse ''OIDC_JWKS_URL'' jwks] in
         (case first_error (if issuer_first then checks else rev checks) of
            Some err \<Rightarrow> Inl err
          | None \<Rightarrow>
         if audience = [] then Inl (Opaque ''OIDC_AUDIENCE is required when AUTHENTICATION=oidc'')
         else
           (let listed = trim_space (lookup ''OIDC_ALLOWED_ALGORITHMS'') in
            (case load_algorithms (split_at CHR '','' (if listed = [] then ''RS256'' else listed)) [] of
               Inl err \<Rightarrow> Inl err
             | Inr algorithms \<Rightarrow>
                 Inr \<lparr>cf_Mode = ModeOIDC, cf_Issuer = issuer, cf_Audience = audience, cf_JWKSURL = jwks,
                      cf_Algorithms = algorithms, cf_CAFile = trim_space (lookup ''OIDC_CA_FILE''),
                      cf_ClockSkew = defaultClockSkew\<rparr>)))))"

section \<open>The JWT library\<close>

text \<open>
  What the validator calls in jwx, over the library's own key sets and tokens. \<open>jx_parse_jws\<close> gives,
  for each signature of a message, its protected algorithm and key id; \<open>jx_parse_jwt\<close> verifies a token
  with a key set, without inferring the algorithm from the key, and validates it for an issuer, an
  audience, a required \<open>exp\<close>, a skew and a time.
\<close>

record ('k, 'tok) jwx =
  jx_len :: "'k \<Rightarrow> nat"
  jx_lookup_key :: "'k \<Rightarrow> string \<Rightarrow> bool"
  jx_parse_jws :: "string \<Rightarrow> (string option \<times> string option) list option"
  jx_parse_jwt :: "string \<Rightarrow> 'k \<Rightarrow> string \<Rightarrow> string \<Rightarrow> duration \<Rightarrow> timestamp \<Rightarrow> 'tok result"
  jx_subject :: "'tok \<Rightarrow> string option"
  jx_get_string :: "'tok \<Rightarrow> string \<Rightarrow> string option"
  jx_has :: "'tok \<Rightarrow> string \<Rightarrow> bool"
  jx_get :: "'tok \<Rightarrow> string \<Rightarrow> json option"

section \<open>Validators\<close>

definition keyFetchTimeout :: duration where
  "keyFetchTimeout = 3 * Second"

definition unknownKeyRefreshGap :: duration where
  "unknownKeyRefreshGap = 10 * Second"

definition unavailable :: "go_error \<Rightarrow> go_error" where
  "unavailable cause = Annotated (Sentinel AuthnErrUnavailable) cause"

record principal =
  pr_Subject :: string
  pr_AuthorizedParty :: string
  pr_Permissions :: perm_set
  pr_RoleClaim :: claim

definition no_principal :: principal where
  "no_principal =
     \<lparr>pr_Subject = [], pr_AuthorizedParty = [], pr_Permissions = empty_set, pr_RoleClaim = ClaimAbsent\<rparr>"

text \<open>
  The validator: its policy, the key cache, and the state its mutex guards. \<open>None\<close> is a zero time, a nil
  error, a nil key set. The cache and the HTTP client it is registered with belong to the library; what
  the model keeps of the cache is the record of the \<open>Refresh\<close> calls made on it, by their times.
\<close>

record 'k validator =
  vd_config :: authn_config
  vd_cache :: "timestamp list"
  vd_lastRefresh :: "timestamp option"
  vd_lastRefreshErr :: "go_error option"
  vd_lastKeys :: "'k option"

record http_client =
  hc_RootCAs :: "bytes option"
  hc_Timeout :: duration

definition http_client_for ::
  "(string \<Rightarrow> bytes result) \<Rightarrow> (bytes \<Rightarrow> bool) \<Rightarrow> string \<Rightarrow> http_client result" where
  "http_client_for read_file append_certs ca_file =
     (if ca_file = [] then Inr \<lparr>hc_RootCAs = None, hc_Timeout = keyFetchTimeout\<rparr>
      else case read_file ca_file of
        Inl err \<Rightarrow> Inl (Wrap ''read OIDC_CA_FILE'' err)
      | Inr pem \<Rightarrow>
          (if \<not> append_certs pem then Inl (Opaque (''OIDC_CA_FILE '' @ ca_file @ '' contains no certificates''))
           else Inr \<lparr>hc_RootCAs = Some pem, hc_Timeout = keyFetchTimeout\<rparr>))"

text \<open>\<open>register client url\<close> is the library's registration of a URL with that client, without waiting.\<close>

definition new_validator ::
  "(string \<Rightarrow> bytes result) \<Rightarrow> (bytes \<Rightarrow> bool) \<Rightarrow> go_error option
     \<Rightarrow> (http_client \<Rightarrow> string \<Rightarrow> go_error option) \<Rightarrow> authn_config \<Rightarrow> 'k validator result" where
  "new_validator read_file append_certs new_cache register config =
     (if cf_Mode config \<noteq> ModeOIDC then Inl (Opaque ''validator requires AUTHENTICATION=oidc'')
      else case http_client_for read_file append_certs (cf_CAFile config) of
        Inl err \<Rightarrow> Inl err
      | Inr client \<Rightarrow>
     (case new_cache of
        Some err \<Rightarrow> Inl (Wrap ''create JWKS cache'' err)
      | None \<Rightarrow>
     (case register client (cf_JWKSURL config) of
        Some err \<Rightarrow> Inl (Wrap ''register JWKS URL'' err)
      | None \<Rightarrow>
          Inr \<lparr>vd_config = config, vd_cache = [], vd_lastRefresh = None, vd_lastRefreshErr = None, vd_lastKeys = None\<rparr>)))"

section \<open>Signing keys\<close>

text \<open>\<open>v.cache.Refresh\<close> at time \<open>now\<close>, when it answers \<open>fetched\<close>: the call is on record in the cache.\<close>

definition cache_refresh :: "timestamp \<Rightarrow> 'k result \<Rightarrow> 'k validator \<Rightarrow> 'k result \<times> 'k validator" where
  "cache_refresh now fetched v = (fetched, v\<lparr>vd_cache := vd_cache v @ [now]\<rparr>)"

text \<open>\<open>refreshLocked\<close> at time \<open>now\<close>, when the cache's refresh answers \<open>fetched\<close>.\<close>

definition refresh_locked ::
  "('k, 'tok) jwx \<Rightarrow> timestamp \<Rightarrow> 'k result \<Rightarrow> 'k validator \<Rightarrow> 'k result \<times> 'k validator" where
  "refresh_locked lib now fetched v =
     (case cache_refresh now fetched (v\<lparr>vd_lastRefresh := Some now\<rparr>) of
        (refreshed, v) \<Rightarrow>
          (case (case refreshed of
                   Inl err \<Rightarrow> Inl err
                 | Inr keys \<Rightarrow> if jx_len lib keys = 0 then Inl (Opaque ''empty JWKS'') else Inr keys) of
             Inl err \<Rightarrow> (Inl err, v\<lparr>vd_lastRefreshErr := Some err\<rparr>)
           | Inr keys \<Rightarrow> (Inr keys, v\<lparr>vd_lastRefreshErr := None, vd_lastKeys := Some keys\<rparr>)))"

text \<open>\<open>keys\<close>: the cached set if there is one with a key, else a refresh.\<close>

definition validator_keys ::
  "('k, 'tok) jwx \<Rightarrow> 'k result \<Rightarrow> timestamp \<Rightarrow> 'k result \<Rightarrow> 'k validator \<Rightarrow> 'k result \<times> 'k validator" where
  "validator_keys lib cached now fetched v =
     (case cached of
        Inr keys \<Rightarrow> if jx_len lib keys > 0 then (Inr keys, v) else refresh_locked lib now fetched v
      | Inl _ \<Rightarrow> refresh_locked lib now fetched v)"

text \<open>
  \<open>refreshForUnknownKey\<close>: \<open>check\<close> is the time \<open>time.Since\<close> reads, \<open>now\<close> the time of the refresh. The
  set returned within the cooldown is the last fetched one, which is nil (\<open>None\<close>) if none was.
\<close>

definition cooling :: "timestamp \<Rightarrow> 'k validator \<Rightarrow> bool" where
  "cooling check v =
     (case vd_lastRefresh v of None \<Rightarrow> False | Some t \<Rightarrow> check - t < unknownKeyRefreshGap)"

definition refresh_for_unknown_key ::
  "('k, 'tok) jwx \<Rightarrow> timestamp \<Rightarrow> timestamp \<Rightarrow> 'k result \<Rightarrow> 'k validator
     \<Rightarrow> 'k option result \<times> 'k validator" where
  "refresh_for_unknown_key lib check now fetched v =
     (if cooling check v then
        (case vd_lastRefreshErr v of
           Some err \<Rightarrow> (Inl err, v)
         | None \<Rightarrow> (Inr (vd_lastKeys v), v))
      else (case refresh_locked lib now fetched v of
        (Inl err, v') \<Rightarrow> (Inl err, v')
      | (Inr keys, v') \<Rightarrow> (Inr (Some keys), v')))"

section \<open>Judging a token\<close>

definition classify :: "go_error \<Rightarrow> string" where
  "classify err =
     (if errors_is err JwtTokenExpiredError then ''expired''
      else if errors_is err JwtTokenNotYetValidError then ''not_yet_valid''
      else if errors_is err JwtInvalidIssuerError then ''issuer''
      else if errors_is err JwtInvalidAudienceError then ''audience''
      else if errors_is err JwsVerificationError then ''signature''
      else if errors_is err JwtValidateError then ''claims''
      else ''invalid'')"

definition allowed :: "authn_config \<Rightarrow> string \<Rightarrow> bool" where
  "allowed config nm = list_ex (\<lambda>algorithm. algorithm_string algorithm = nm) (cf_Algorithms config)"

text \<open>
  The verdict: a principal, a \<open>*Failure\<close> with its category, an error that wraps \<open>ErrUnavailable\<close>, or
  the nil dereference that a nil key set would be.
\<close>

datatype verdict =
    Authenticated principal
  | Rejected string
  | Undecided go_error
  | NilDereference

text \<open>
  What one call of \<open>Validate\<close> meets: the cache's answer, the times and answers of its refreshes, what
  other requests do to the validator between its two uses of the mutex, and the time at verification.
\<close>

record 'k key_env =
  ke_cached :: "'k result"
  ke_now1 :: timestamp
  ke_fetch1 :: "'k result"
  ke_others :: "'k validator \<Rightarrow> 'k validator"
  ke_check :: timestamp
  ke_now2 :: timestamp
  ke_fetch2 :: "'k result"
  ke_clock :: timestamp

definition principal_of :: "('k, 'tok) jwx \<Rightarrow> 'tok \<Rightarrow> principal" where
  "principal_of lib token =
     (let resource_access = jx_get lib token ''resource_access'';
          present = (jx_has lib token ''resource_access'' \<and> resource_access \<noteq> None);
          parsed = parse (case resource_access of None \<Rightarrow> JNull | Some v \<Rightarrow> v) present in
      \<lparr>pr_Subject = (case jx_subject lib token of None \<Rightarrow> [] | Some s \<Rightarrow> s),
       pr_AuthorizedParty = (case jx_get_string lib token ''azp'' of None \<Rightarrow> [] | Some s \<Rightarrow> s),
       pr_Permissions = fst parsed, pr_RoleClaim = snd parsed\<rparr>)"

text \<open>The last part: verification with the key set, and the principal.\<close>

definition verify_token ::
  "('k, 'tok) jwx \<Rightarrow> authn_config \<Rightarrow> timestamp \<Rightarrow> 'k \<Rightarrow> string \<Rightarrow> verdict" where
  "verify_token lib config now keys raw =
     (case jx_parse_jwt lib raw keys (cf_Issuer config) (cf_Audience config) (cf_ClockSkew config) now of
        Inl err \<Rightarrow> Rejected (classify err)
      | Inr token \<Rightarrow> Authenticated (principal_of lib token))"

definition validate ::
  "('k, 'tok) jwx \<Rightarrow> 'k key_env \<Rightarrow> string \<Rightarrow> 'k validator \<Rightarrow> verdict \<times> 'k validator" where
  "validate lib env raw v =
     (case jx_parse_jws lib raw of
        Some [(algorithm, key_id)] \<Rightarrow>
          (case algorithm of
             None \<Rightarrow> (Rejected ''algorithm'', v)
           | Some alg \<Rightarrow>
          if \<not> allowed (vd_config v) alg then (Rejected ''algorithm'', v)
          else
          (case validator_keys lib (ke_cached env) (ke_now1 env) (ke_fetch1 env) v of
             (Inl err, v1) \<Rightarrow> (Undecided (unavailable err), v1)
           | (Inr keys, v1) \<Rightarrow>
          (let kid = (case key_id of None \<Rightarrow> [] | Some k \<Rightarrow> k) in
           if jx_lookup_key lib keys kid then
             (verify_token lib (vd_config v) (ke_clock env) keys raw, v1)
           else
           (case refresh_for_unknown_key lib (ke_check env) (ke_now2 env) (ke_fetch2 env) (ke_others env v1) of
              (Inl err, v2) \<Rightarrow> (Undecided (unavailable err), v2)
            | (Inr None, v2) \<Rightarrow> (NilDereference, v2)
            | (Inr (Some refreshed), v2) \<Rightarrow>
                (if \<not> jx_lookup_key lib refreshed kid then (Rejected ''unknown_key'', v2)
                 else (verify_token lib (vd_config v) (ke_clock env) refreshed raw, v2))))))
      | _ \<Rightarrow> (Rejected ''malformed'', v))"

section \<open>The policy accepted\<close>

lemma permitted_algorithmsD:
  "map_of permitted_algorithms nm = Some algorithm \<Longrightarrow> algorithm_string algorithm = nm \<and> asymmetric algorithm"
  by (auto simp: permitted_algorithms_def asymmetric_def split: if_splits)

lemma load_algorithms_names:
  "load_algorithms nms acc = Inr algs \<Longrightarrow>
     map algorithm_string algs = map algorithm_string acc @ map trim_space nms
     \<and> (\<forall>a \<in> set algs. a \<in> set acc \<or> asymmetric a)"
  by (induction nms acc rule: load_algorithms.induct) (force split: option.splits dest: permitted_algorithmsD)+

text \<open>The names the allow-list is configured with.\<close>

definition listed_algorithms :: "(string \<Rightarrow> string) \<Rightarrow> string list" where
  "listed_algorithms lookup =
     (let listed = trim_space (lookup ''OIDC_ALLOWED_ALGORITHMS'') in
      map trim_space (split_at CHR '','' (if listed = [] then ''RS256'' else listed)))"

lemma first_error_None: "first_error es = None \<longleftrightarrow> (\<forall>e \<in> set es. e = None)"
  by (induction es rule: first_error.induct) auto

definition https_url :: "(string \<Rightarrow> (string \<times> string) option) \<Rightarrow> string \<Rightarrow> bool" where
  "https_url url_parse value = (\<exists>host. url_parse value = Some (''https'', host) \<and> host \<noteq> [])"

lemma check_url_None: "check_url url_parse setting value = None \<longleftrightarrow> value \<noteq> [] \<and> https_url url_parse value"
  by (auto simp: check_url_def https_url_def split: option.splits)

lemma load_config_cases:
  assumes "load_config lookup url_parse issuer_first = Inr c"
  shows "trim_space (lookup ''AUTHENTICATION'') = ModeDisabled \<and> c = disabled_config
    \<or> trim_space (lookup ''AUTHENTICATION'') = ModeOIDC \<and> cf_Mode c = ModeOIDC
      \<and> https_url url_parse (cf_Issuer c) \<and> https_url url_parse (cf_JWKSURL c) \<and> cf_Audience c \<noteq> []
      \<and> cf_Algorithms c \<noteq> [] \<and> map algorithm_string (cf_Algorithms c) = listed_algorithms lookup
      \<and> (\<forall>a \<in> set (cf_Algorithms c). asymmetric a) \<and> cf_ClockSkew c = defaultClockSkew"
proof (cases "trim_space (lookup ''AUTHENTICATION'') = ModeDisabled")
  case True
  with assms show ?thesis by (simp add: load_config_def)
next
  case False
  have algs: "map algorithm_string algs = map trim_space (split_at CHR '','' x)" "\<forall>a \<in> set algs. asymmetric a" "algs \<noteq> []"
    if "load_algorithms (split_at CHR '','' x) [] = Inr algs" for x algs
    using load_algorithms_names [OF that] by auto
  with assms False show ?thesis
    by (auto simp: load_config_def Let_def first_error_None check_url_None listed_algorithms_def
        simp del: load_algorithms.simps split_at.simps split: if_splits option.splits sum.splits dest: algs)
qed

section \<open>The state the mutex guards\<close>

text \<open>A successful refresh leaves a key set, and one that is not empty.\<close>

definition validator_ok :: "('k, 'tok) jwx \<Rightarrow> 'k validator \<Rightarrow> bool" where
  "validator_ok lib v =
     (vd_lastRefresh v \<noteq> None \<and> vd_lastRefreshErr v = None \<longrightarrow>
        (\<exists>keys. vd_lastKeys v = Some keys \<and> jx_len lib keys > 0))"

definition others_keep :: "('k, 'tok) jwx \<Rightarrow> 'k key_env \<Rightarrow> bool" where
  "others_keep lib env = (\<forall>v. validator_ok lib v \<longrightarrow> validator_ok lib (ke_others env v))"

lemma new_validator_ok:
  "new_validator read_file append_certs new_cache register config = Inr v \<Longrightarrow> validator_ok lib v"
  by (auto simp: new_validator_def validator_ok_def split: if_splits sum.splits option.splits)

lemma refresh_locked_ok:
  "refresh_locked lib now fetched v = (r, v') \<Longrightarrow> validator_ok lib v'"
  by (auto simp: refresh_locked_def cache_refresh_def Let_def validator_ok_def split: sum.splits if_splits)

lemma refresh_locked_Inr:
  "refresh_locked lib now fetched v = (Inr keys, v') \<Longrightarrow>
     fetched = Inr keys \<and> vd_lastRefreshErr v' = None \<and> vd_lastKeys v' = Some keys
     \<and> vd_lastRefresh v' = Some now"
  by (auto simp: refresh_locked_def cache_refresh_def Let_def split: sum.splits if_splits)

lemma validator_keys_ok:
  "validator_keys lib cached now fetched v = (r, v') \<Longrightarrow> validator_ok lib v \<Longrightarrow> validator_ok lib v'"
  by (auto simp: validator_keys_def split: sum.splits if_splits dest: refresh_locked_ok)

lemma refresh_for_unknown_key_ok:
  assumes "refresh_for_unknown_key lib check now fetched v = (r, v')" and "validator_ok lib v"
  shows "validator_ok lib v'"
    and "r = Inr ks \<Longrightarrow> \<exists>keys. ks = Some keys \<and> vd_lastKeys v' = Some keys \<and> vd_lastRefreshErr v' = None"
  using assms
  by (auto simp: refresh_for_unknown_key_def validator_ok_def cooling_def
      split: if_splits option.splits sum.splits prod.splits
      dest: refresh_locked_ok [unfolded validator_ok_def] refresh_locked_Inr)

lemma classify_not_unknown_key: "classify err \<noteq> ''unknown_key''"
  by (simp add: classify_def)

section \<open>What a verdict rests on\<close>

text \<open>The token as far as the validator looked before asking for keys.\<close>

definition presented :: "('k, 'tok) jwx \<Rightarrow> authn_config \<Rightarrow> string \<Rightarrow> string \<Rightarrow> bool" where
  "presented lib config raw kid =
     (\<exists>alg key_id. jx_parse_jws lib raw = Some [(Some alg, key_id)] \<and> allowed config alg
        \<and> kid = (case key_id of None \<Rightarrow> [] | Some k \<Rightarrow> k))"

lemma validate_cases:
  assumes "validate lib env raw v = (r, v')"
  shows "(\<exists>c. r = Rejected c \<and> c \<in> {''malformed'', ''algorithm''} \<and> v' = v)
    \<or> (\<exists>kid. presented lib (vd_config v) raw kid \<and>
        ((\<exists>err. validator_keys lib (ke_cached env) (ke_now1 env) (ke_fetch1 env) v = (Inl err, v')
            \<and> r = Undecided (unavailable err))
         \<or> (\<exists>keys. validator_keys lib (ke_cached env) (ke_now1 env) (ke_fetch1 env) v = (Inr keys, v')
              \<and> jx_lookup_key lib keys kid \<and> r = verify_token lib (vd_config v) (ke_clock env) keys raw)
         \<or> (\<exists>keys v1 r2. validator_keys lib (ke_cached env) (ke_now1 env) (ke_fetch1 env) v = (Inr keys, v1)
              \<and> \<not> jx_lookup_key lib keys kid
              \<and> refresh_for_unknown_key lib (ke_check env) (ke_now2 env) (ke_fetch2 env) (ke_others env v1) = (r2, v')
              \<and> r = (case r2 of
                    Inl err \<Rightarrow> Undecided (unavailable err)
                  | Inr None \<Rightarrow> NilDereference
                  | Inr (Some refreshed) \<Rightarrow>
                      if \<not> jx_lookup_key lib refreshed kid then Rejected ''unknown_key''
                      else verify_token lib (vd_config v) (ke_clock env) refreshed raw))))"
proof (cases "\<exists>alg key_id. jx_parse_jws lib raw = Some [(Some alg, key_id)] \<and> allowed (vd_config v) alg")
  case False
  with assms show ?thesis
    by (auto simp: validate_def split: option.splits list.splits prod.splits if_splits)
next
  case True
  then obtain alg key_id where t: "jx_parse_jws lib raw = Some [(Some alg, key_id)]" "allowed (vd_config v) alg"
    by blast
  define kid where "kid = (case key_id of None \<Rightarrow> [] | Some k \<Rightarrow> k)"
  have p: "presented lib (vd_config v) raw kid" using t by (auto simp: presented_def kid_def)
  obtain r1 v1 where k: "validator_keys lib (ke_cached env) (ke_now1 env) (ke_fetch1 env) v = (r1, v1)"
    by (metis surj_pair)
  obtain r2 v2 where f: "refresh_for_unknown_key lib (ke_check env) (ke_now2 env) (ke_fetch2 env) (ke_others env v1)
      = (r2, v2)" by (metis surj_pair)
  show ?thesis
  proof (cases r1)
    case (Inl e)
    with assms t k p show ?thesis by (auto simp: validate_def)
  next
    case (Inr keys)
    have "(r, v') = (if jx_lookup_key lib keys kid then (verify_token lib (vd_config v) (ke_clock env) keys raw, v1)
        else ((case r2 of
            Inl err \<Rightarrow> Undecided (unavailable err)
          | Inr None \<Rightarrow> NilDereference
          | Inr (Some refreshed) \<Rightarrow>
              if \<not> jx_lookup_key lib refreshed kid then Rejected ''unknown_key''
              else verify_token lib (vd_config v) (ke_clock env) refreshed raw), v2))"
      using assms t k f Inr
      by (auto simp: validate_def kid_def Let_def split: sum.splits option.splits)
    with p k f Inr show ?thesis by (auto split: if_splits)
  qed
qed

lemma verify_token_verdicts [simp]:
  "verify_token lib config now keys raw \<noteq> NilDereference"
  "NilDereference \<noteq> verify_token lib config now keys raw"
  "verify_token lib config now keys raw \<noteq> Undecided e"
  "verify_token lib config now keys raw \<noteq> Rejected ''unknown_key''"
  by (auto simp: verify_token_def classify_not_unknown_key split: sum.splits)

lemma verify_token_Authenticated:
  "verify_token lib config now keys raw = Authenticated p \<Longrightarrow>
     \<exists>token. jx_parse_jwt lib raw keys (cf_Issuer config) (cf_Audience config) (cf_ClockSkew config) now = Inr token
       \<and> p = principal_of lib token"
  by (auto simp: verify_token_def split: sum.splits)

lemma validate_keeps:
  assumes "validator_ok lib v" and "others_keep lib env" and "validate lib env raw v = (r, v')"
  shows "validator_ok lib v'" and "r \<noteq> NilDereference"
    and "r = Rejected ''unknown_key'' \<Longrightarrow>
      vd_lastRefreshErr v' = None \<and> (\<exists>keys kid. vd_lastKeys v' = Some keys \<and> presented lib (vd_config v) raw kid
        \<and> \<not> jx_lookup_key lib keys kid)"
proof -
  have "validator_ok lib v' \<and> r \<noteq> NilDereference \<and> (r = Rejected ''unknown_key'' \<longrightarrow>
      vd_lastRefreshErr v' = None \<and> (\<exists>keys kid. vd_lastKeys v' = Some keys \<and> presented lib (vd_config v) raw kid
        \<and> \<not> jx_lookup_key lib keys kid))"
    using validate_cases [OF assms(3)]
  proof (elim disjE exE conjE)
    fix kid keys v1 r2
    assume k: "validator_keys lib (ke_cached env) (ke_now1 env) (ke_fetch1 env) v = (Inr keys, v1)"
      and p: "presented lib (vd_config v) raw kid"
      and f: "refresh_for_unknown_key lib (ke_check env) (ke_now2 env) (ke_fetch2 env) (ke_others env v1) = (r2, v')"
      and r: "r = (case r2 of
            Inl err \<Rightarrow> Undecided (unavailable err)
          | Inr None \<Rightarrow> NilDereference
          | Inr (Some refreshed) \<Rightarrow>
              if \<not> jx_lookup_key lib refreshed kid then Rejected ''unknown_key''
              else verify_token lib (vd_config v) (ke_clock env) refreshed raw)"
    have "validator_ok lib (ke_others env v1)"
      using validator_keys_ok [OF k assms(1)] assms(2) by (simp add: others_keep_def)
    note ok = refresh_for_unknown_key_ok [OF f this]
    show ?thesis
    proof (cases r2)
      case (Inl e)
      with r ok(1) show ?thesis by simp
    next
      case (Inr ks)
      from ok(2) [OF this] obtain ks' where "ks = Some ks'" "vd_lastKeys v' = Some ks'" "vd_lastRefreshErr v' = None"
        by blast
      with Inr r ok(1) p show ?thesis by (auto split: if_splits)
    qed
  qed (use assms(1) in \<open>auto dest: validator_keys_ok\<close>)
  then show "validator_ok lib v'" and "r \<noteq> NilDereference"
    and "r = Rejected ''unknown_key'' \<Longrightarrow>
      vd_lastRefreshErr v' = None \<and> (\<exists>keys kid. vd_lastKeys v' = Some keys \<and> presented lib (vd_config v) raw kid
        \<and> \<not> jx_lookup_key lib keys kid)"
    by blast+
qed

section \<open>The cooldown\<close>

text \<open>
  What requests do with the refresh under the mutex, one after another: a refresh because the cache has no
  keys (\<open>refresh\<close>), or a request for an unknown key, with the time it checks at, the time it would
  refresh at, and the answer it would get.
\<close>

datatype 'k refresh_use = EmptyCache timestamp "'k result" | UnknownKey timestamp timestamp "'k result"

definition use_refresh :: "('k, 'tok) jwx \<Rightarrow> 'k refresh_use \<Rightarrow> 'k validator \<Rightarrow> 'k validator" where
  "use_refresh lib u v =
     (case u of
        EmptyCache now fetched \<Rightarrow> snd (refresh_locked lib now fetched v)
      | UnknownKey check now fetched \<Rightarrow> snd (refresh_for_unknown_key lib check now fetched v))"

text \<open>The calls of the cache's \<open>Refresh\<close> that unknown keys caused, as the cache has them on record.\<close>

fun unknown_key_refreshes :: "('k, 'tok) jwx \<Rightarrow> 'k refresh_use list \<Rightarrow> 'k validator \<Rightarrow> timestamp list" where
  "unknown_key_refreshes lib [] v = []"
| "unknown_key_refreshes lib (u # us) v =
     (let v' = use_refresh lib u v in
      (case u of UnknownKey check now fetched \<Rightarrow> drop (length (vd_cache v)) (vd_cache v') | _ \<Rightarrow> [])
        @ unknown_key_refreshes lib us v')"

text \<open>A clock that does not run backwards.\<close>

fun monotone_clock :: "timestamp \<Rightarrow> 'k refresh_use list \<Rightarrow> bool" where
  "monotone_clock t [] = True"
| "monotone_clock t (EmptyCache now fetched # us) = (t \<le> now \<and> monotone_clock now us)"
| "monotone_clock t (UnknownKey check now fetched # us) = (t \<le> check \<and> check \<le> now \<and> monotone_clock now us)"

lemma refresh_locked_time:
  "vd_lastRefresh (snd (refresh_locked lib now fetched v)) = Some now"
  "vd_cache (snd (refresh_locked lib now fetched v)) = vd_cache v @ [now]"
  by (auto simp: refresh_locked_def cache_refresh_def split: sum.split)

text \<open>One request for an unknown key asks the issuer exactly when the last refresh is the cooldown ago.\<close>

lemma unknown_key_time:
  "vd_lastRefresh (snd (refresh_for_unknown_key lib check now fetched v)) =
     (if cooling check v then vd_lastRefresh v else Some now)"
  "vd_cache (snd (refresh_for_unknown_key lib check now fetched v)) =
     vd_cache v @ (if cooling check v then [] else [now])"
  using refresh_locked_time [of lib now fetched v]
  by (auto simp: refresh_for_unknown_key_def split: sum.split option.split prod.split)

lemma refreshes_after:
  "monotone_clock t us \<Longrightarrow> vd_lastRefresh v = Some r \<Longrightarrow> r \<le> t \<Longrightarrow>
     \<forall>x \<in> set (unknown_key_refreshes lib us v). r + unknownKeyRefreshGap \<le> x"
proof (induction us arbitrary: t v r)
  case Nil
  then show ?case by simp
next
  case (Cons u us)
  let ?v = "use_refresh lib u v"
  show ?case
  proof (cases u)
    case (EmptyCache now fetched)
    with Cons.prems Cons.IH [of now ?v now]
    have "\<forall>x \<in> set (unknown_key_refreshes lib us ?v). now + unknownKeyRefreshGap \<le> x"
      by (simp add: use_refresh_def refresh_locked_time)
    with EmptyCache Cons.prems show ?thesis by fastforce
  next
    case (UnknownKey check now fetched)
    note v' = unknown_key_time [of lib check now fetched v]
    show ?thesis
    proof (cases "cooling check v")
      case True
      with UnknownKey Cons.prems Cons.IH [of now ?v r] show ?thesis by (simp add: use_refresh_def v')
    next
      case False
      then have "r + unknownKeyRefreshGap \<le> now" using Cons.prems UnknownKey by (simp add: cooling_def)
      moreover have "\<forall>x \<in> set (unknown_key_refreshes lib us ?v). now + unknownKeyRefreshGap \<le> x"
        using Cons.IH [of now ?v now] Cons.prems False UnknownKey by (simp add: use_refresh_def v')
      ultimately show ?thesis using False UnknownKey Cons.prems by (fastforce simp: use_refresh_def v')
    qed
  qed
qed

lemma refreshes_spaced:
  "monotone_clock t us \<Longrightarrow>
     sorted_wrt (\<lambda>a b. a + unknownKeyRefreshGap \<le> b) (unknown_key_refreshes lib us v)"
proof (induction us arbitrary: t v)
  case Nil
  then show ?case by simp
next
  case (Cons u us)
  let ?v = "use_refresh lib u v"
  show ?case
  proof (cases u)
    case (EmptyCache now fetched)
    with Cons.prems Cons.IH [of now ?v] show ?thesis by simp
  next
    case (UnknownKey check now fetched)
    then have "monotone_clock now us" using Cons.prems by simp
    with UnknownKey Cons.IH [of now ?v] refreshes_after [of now us ?v now lib] show ?thesis
      by (auto simp: use_refresh_def unknown_key_time)
  qed
qed

section \<open>A sample issuer\<close>

text \<open>
  A library whose key sets are lists of key ids, whose messages name their key id, and whose tokens
  are their claims; and the meetings with it the witnesses use.
\<close>

definition sample_claims :: "(string \<times> json) list" where
  "sample_claims =
     [(''azp'', JStr ''web''),
      (''resource_access'', JObj [(''work-items-api'', JObj [(''roles'', JArr [JStr ''items.read''])])])]"

definition sample_jwx :: "(string list, (string \<times> json) list) jwx" where
  "sample_jwx =
     \<lparr>jx_len = length, jx_lookup_key = (\<lambda>ks k. k \<in> set ks),
      jx_parse_jws = (\<lambda>raw. Some [(Some ''RS256'', Some raw)]),
      jx_parse_jwt = (\<lambda>raw ks iss aud skew now. if raw \<in> set ks then Inr sample_claims else Inl (Opaque ''jwt'')),
      jx_subject = (\<lambda>tok. Some ''user''),
      jx_get_string = (\<lambda>tok k. case obj_get tok k of Some (JStr s) \<Rightarrow> Some s | _ \<Rightarrow> None),
      jx_has = (\<lambda>tok k. obj_get tok k \<noteq> None), jx_get = obj_get\<rparr>"

definition sample_authn_config :: authn_config where
  "sample_authn_config =
     \<lparr>cf_Mode = ModeOIDC, cf_Issuer = ''https://idp'', cf_Audience = ''api'', cf_JWKSURL = ''https://idp/jwks'',
      cf_Algorithms = [RS256], cf_CAFile = [], cf_ClockSkew = defaultClockSkew\<rparr>"

definition sample_validator :: "string list validator" where
  "sample_validator =
     \<lparr>vd_config = sample_authn_config, vd_cache = [], vd_lastRefresh = None, vd_lastRefreshErr = None, vd_lastKeys = None\<rparr>"

definition sample_env :: "string list result \<Rightarrow> string list result \<Rightarrow> string list key_env" where
  "sample_env cached fetched =
     \<lparr>ke_cached = cached, ke_now1 = 1, ke_fetch1 = fetched, ke_others = id, ke_check = 2, ke_now2 = 2,
      ke_fetch2 = fetched, ke_clock = 3\<rparr>"

lemma sample_validator_ok: "validator_ok sample_jwx sample_validator"
  by (simp add: validator_ok_def sample_validator_def)

lemma sample_others: "others_keep sample_jwx (sample_env c f)"
  by (simp add: others_keep_def sample_env_def)

section \<open>Properties\<close>

text \<open>
  C27 (authenticated means verified). A caller is authenticated only from a message with exactly one
  signature, of an algorithm the policy allows, whose key id is in a non-empty set of the issuer's
  keys the validator was given; the library verified the token with that very set for the configured
  issuer, audience and skew; and the permissions are those the token's claim for this API names.
\<close>

theorem authenticated_only_if_verified:
  assumes "validator_ok lib v" and "others_keep lib env"
    and "validate lib env raw v = (Authenticated p, v')"
  shows "\<exists>alg key_id keys token.
      jx_parse_jws lib raw = Some [(Some alg, key_id)] \<and> allowed (vd_config v) alg
      \<and> jx_lookup_key lib keys (case key_id of None \<Rightarrow> [] | Some k \<Rightarrow> k)
      \<and> jx_parse_jwt lib raw keys (cf_Issuer (vd_config v)) (cf_Audience (vd_config v))
          (cf_ClockSkew (vd_config v)) (ke_clock env) = Inr token
      \<and> p = principal_of lib token
      \<and> (keys = projr (ke_cached env) \<or> vd_lastKeys v' = Some keys)"
  using validate_cases [OF assms(3)]
proof (elim disjE exE conjE)
  fix kid keys
  assume p: "presented lib (vd_config v) raw kid" and l: "jx_lookup_key lib keys kid"
    and k: "validator_keys lib (ke_cached env) (ke_now1 env) (ke_fetch1 env) v = (Inr keys, v')"
    and r: "Authenticated p = verify_token lib (vd_config v) (ke_clock env) keys raw"
  have "keys = projr (ke_cached env) \<or> vd_lastKeys v' = Some keys"
    using k by (auto simp: validator_keys_def split: sum.splits if_splits dest: refresh_locked_Inr)
  with p l verify_token_Authenticated [OF r [symmetric]] show ?thesis
    unfolding presented_def by blast
next
  fix kid keys v1 r2
  assume p: "presented lib (vd_config v) raw kid"
    and k: "validator_keys lib (ke_cached env) (ke_now1 env) (ke_fetch1 env) v = (Inr keys, v1)"
    and f: "refresh_for_unknown_key lib (ke_check env) (ke_now2 env) (ke_fetch2 env) (ke_others env v1) = (r2, v')"
    and r: "Authenticated p = (case r2 of
        Inl err \<Rightarrow> Undecided (unavailable err)
      | Inr None \<Rightarrow> NilDereference
      | Inr (Some refreshed) \<Rightarrow>
          if \<not> jx_lookup_key lib refreshed kid then Rejected ''unknown_key''
          else verify_token lib (vd_config v) (ke_clock env) refreshed raw)"
  then obtain refreshed where r2: "r2 = Inr (Some refreshed)" "jx_lookup_key lib refreshed kid"
      "Authenticated p = verify_token lib (vd_config v) (ke_clock env) refreshed raw"
    by (auto split: sum.splits option.splits if_splits)
  have "validator_ok lib (ke_others env v1)"
    using validator_keys_ok [OF k assms(1)] assms(2) by (simp add: others_keep_def)
  from refresh_for_unknown_key_ok(2) [OF f this r2(1)] have "vd_lastKeys v' = Some refreshed" by auto
  with p r2 verify_token_Authenticated [OF r2(3) [symmetric]] show ?thesis
    unfolding presented_def by blast
qed simp_all

theorem authenticated_only_if_verified_witness:
  "\<exists>p v' keys. validate sample_jwx (sample_env (Inr [''k1'']) (Inr [''k1''])) ''k1'' sample_validator = (Authenticated p, v')
    \<and> jx_lookup_key sample_jwx keys ''k1''"
proof -
  have "\<exists>p v'. validate sample_jwx (sample_env (Inr [''k1'']) (Inr [''k1''])) ''k1'' sample_validator
      = (Authenticated p, v')"
    by (simp add: validate_def sample_jwx_def sample_env_def sample_validator_def sample_authn_config_def
        allowed_def validator_keys_def verify_token_def)
  then obtain p v' where v: "validate sample_jwx (sample_env (Inr [''k1'']) (Inr [''k1''])) ''k1'' sample_validator
      = (Authenticated p, v')" by blast
  from authenticated_only_if_verified [OF sample_validator_ok sample_others v] v show ?thesis
    by (auto simp: sample_jwx_def)
qed

text \<open>
  C35 (an unknown key is a rejection only after a successful refresh). A token is rejected for its key
  only if the last explicit refresh succeeded and the set it brought lacks the key.
\<close>

theorem unknown_key_only_after_refresh:
  assumes "validator_ok lib v" and "others_keep lib env"
    and "validate lib env raw v = (Rejected ''unknown_key'', v')"
  shows "vd_lastRefreshErr v' = None
    \<and> (\<exists>keys kid. vd_lastKeys v' = Some keys \<and> presented lib (vd_config v) raw kid \<and> \<not> jx_lookup_key lib keys kid)"
  using validate_keeps(3) [OF assms refl] .

theorem unknown_key_only_after_refresh_witness:
  "\<exists>v'. validate sample_jwx (sample_env (Inr [''k1'']) (Inr [''k2''])) ''k9'' sample_validator
      = (Rejected ''unknown_key'', v') \<and> vd_lastRefreshErr v' = None"
proof -
  have "\<exists>v'. validate sample_jwx (sample_env (Inr [''k1'']) (Inr [''k2''])) ''k9'' sample_validator
      = (Rejected ''unknown_key'', v')"
    by (simp add: validate_def sample_jwx_def sample_env_def sample_validator_def sample_authn_config_def
        allowed_def validator_keys_def refresh_for_unknown_key_def cooling_def refresh_locked_def cache_refresh_def)
  then show ?thesis
    using unknown_key_only_after_refresh [OF sample_validator_ok sample_others] by blast
qed

text \<open>
  Unavailable keys never reject a token. When the cache has no keys and the refresh fails, or the
  key is unknown and its refresh fails, a token that names an allowed algorithm is left undecided:
  the caller is told the service is unavailable, not that the token is bad.
\<close>

lemma unavailable_keys_undecided:
  assumes "presented lib (vd_config v) raw kid"
    and "case validator_keys lib (ke_cached env) (ke_now1 env) (ke_fetch1 env) v of
        (Inl err, v1) \<Rightarrow> True
      | (Inr keys, v1) \<Rightarrow> \<not> jx_lookup_key lib keys kid \<and> \<not> cooling (ke_check env) (ke_others env v1)
          \<and> \<not> is_ok (ke_fetch2 env)"
  shows "\<exists>err v'. validate lib env raw v = (Undecided err, v') \<and> errors_is err AuthnErrUnavailable"
proof -
  obtain alg key_id where t: "jx_parse_jws lib raw = Some [(Some alg, key_id)]" "allowed (vd_config v) alg"
    "kid = (case key_id of None \<Rightarrow> [] | Some k \<Rightarrow> k)" using assms(1) by (auto simp: presented_def)
  with assms(2) show ?thesis
    by (auto simp: validate_def Let_def refresh_for_unknown_key_def refresh_locked_def cache_refresh_def unavailable_def
        is_ok_def split: prod.splits sum.splits option.splits)
qed

text \<open>
  C37 (the guarded state). Judging a token keeps the validator's state consistent (a successful last
  refresh left a non-empty key set), whatever other requests do to it in between, and so the reuse of
  the last set within the cooldown never meets a nil one.
\<close>

theorem validator_state_kept:
  assumes "validator_ok lib v" and "others_keep lib env" and "validate lib env raw v = (r, v')"
  shows "validator_ok lib v' \<and> r \<noteq> NilDereference"
  using validate_keeps(1,2) [OF assms] by blast

theorem validator_state_kept_witness:
  "validator_ok sample_jwx (snd (validate sample_jwx (sample_env (Inr [''k1'']) (Inr [''k2''])) ''k9'' sample_validator))"
  using validator_state_kept [OF sample_validator_ok sample_others] by (metis prod.collapse)

text \<open>
  C36 (the cooldown). With a clock that does not run backwards, requests for unknown keys call the key cache's
  \<open>Refresh\<close> at times at least ten seconds apart, however many there are, whatever the issuer answers, and
  whatever refreshes of an empty cache come between them. One such request calls it exactly once when no
  refresh was made in the last ten seconds, and not at all otherwise.
\<close>

theorem unknown_key_refreshes_spaced:
  assumes "monotone_clock t us"
  shows "sorted_wrt (\<lambda>a b. a + 10 * Second \<le> b) (unknown_key_refreshes lib us v)
    \<and> vd_cache (snd (refresh_for_unknown_key lib check now fetched v)) =
        vd_cache v @ (if \<exists>r. vd_lastRefresh v = Some r \<and> check - r < 10 * Second then [] else [now])"
proof -
  have "cooling check v \<longleftrightarrow> (\<exists>r. vd_lastRefresh v = Some r \<and> check - r < unknownKeyRefreshGap)"
    by (simp add: cooling_def split: option.split)
  with refreshes_spaced [OF assms] unknown_key_time(2) [of lib check now fetched v] show ?thesis
    by (simp add: unknownKeyRefreshGap_def)
qed

theorem unknown_key_refreshes_spaced_witness:
  "sorted_wrt (\<lambda>a b. a + 10 * Second \<le> b)
     (unknown_key_refreshes sample_jwx
       [UnknownKey 1 2 (Inr [''k1'']), UnknownKey 3 4 (Inr []), EmptyCache 5 (Inr [''k2'']),
        UnknownKey 20000000000 20000000001 (Inl (Opaque ''e''))]
       sample_validator)"
  by (rule unknown_key_refreshes_spaced [where t = 0, THEN conjunct1]) simp

text \<open>
  C38 (no default and no weak policy). A configuration loads only if authentication is switched off
  explicitly, or on with https URLs for issuer and keys, an audience, and a non-empty allow-list: of exactly the
  algorithms the setting names (RS256 when it names none), all of them asymmetric.
\<close>

theorem config_explicit:
  assumes "load_config lookup url_parse issuer_first = Inr c"
  shows "(if cf_Mode c = ModeDisabled then trim_space (lookup ''AUTHENTICATION'') = ''disabled''
      else trim_space (lookup ''AUTHENTICATION'') = ''oidc'' \<and> cf_Mode c = ModeOIDC
        \<and> https_url url_parse (cf_Issuer c) \<and> https_url url_parse (cf_JWKSURL c) \<and> cf_Audience c \<noteq> []
        \<and> cf_Algorithms c \<noteq> [] \<and> map algorithm_string (cf_Algorithms c) = listed_algorithms lookup
        \<and> (\<forall>a \<in> set (cf_Algorithms c). asymmetric a) \<and> cf_ClockSkew c = 30 * Second)"
  using load_config_cases [OF assms]
  by (auto simp: disabled_config_def ModeDisabled_def ModeOIDC_def defaultClockSkew_def)

theorem config_explicit_witness:
  "\<exists>c. load_config (\<lambda>k. if k = ''AUTHENTICATION'' then '' oidc'' else if k = ''OIDC_AUDIENCE'' then ''api''
        else if k = ''OIDC_ALLOWED_ALGORITHMS'' then ''RS256, EdDSA'' else if k = ''OIDC_CA_FILE'' then [] else ''u'')
      (\<lambda>_. Some (''https'', ''idp'')) True = Inr c
      \<and> (\<forall>a \<in> set (cf_Algorithms c). asymmetric a)"
proof -
  let ?lookup = "\<lambda>k. if k = ''AUTHENTICATION'' then '' oidc'' else if k = ''OIDC_AUDIENCE'' then ''api''
        else if k = ''OIDC_ALLOWED_ALGORITHMS'' then ''RS256, EdDSA'' else if k = ''OIDC_CA_FILE'' then [] else ''u''"
  have t: "trim_space '' oidc'' = ''oidc''" "trim_space ''api'' = ''api''" "trim_space ''u'' = ''u''"
    "trim_space ''RS256, EdDSA'' = ''RS256, EdDSA''" "trim_space '' EdDSA'' = ''EdDSA''"
    "trim_space ''RS256'' = ''RS256''" "trim_space [] = []"
    by (simp_all add: trim_space_def trim_def is_space_def byte_def)
  have "\<exists>c. load_config ?lookup (\<lambda>_. Some (''https'', ''idp'')) True = Inr c \<and> cf_Mode c = ModeOIDC"
    by (simp add: load_config_def Let_def t ModeDisabled_def ModeOIDC_def check_url_def permitted_algorithms_def)
  then obtain c where c: "load_config ?lookup (\<lambda>_. Some (''https'', ''idp'')) True = Inr c" "cf_Mode c = ModeOIDC"
    by blast
  from config_explicit [OF c(1)] c show ?thesis by (auto simp: ModeDisabled_def ModeOIDC_def)
qed

end
