(* ===== verification/Http.thy ===== *)
theory Http
  imports ApiStore Json Authn
begin

text \<open>
  The HTTP side of the API: \<open>api/items.go\<close>, \<open>api/processing.go\<close>, \<open>api/authentication.go\<close> and the
  handler of \<open>api/main.go\<close>. A handler takes a request and the store's state to a response and the
  state after it; the guard in front of it also carries the token validator's state.
\<close>

section \<open>Requests and responses\<close>

text \<open>\<open>rq_id\<close> is \<open>r.PathValue("id")\<close>, set by the mux.\<close>

record http_request =
  rq_method :: string
  rq_path :: string
  rq_id :: string
  rq_authorization :: string
  rq_body :: bytes

text \<open>The values the handlers pass to \<open>writeJSON\<close>, and the mux's own error pages.\<close>

datatype response_body =
    ErrorResponse string int64
  | StatusResponse string
  | VersionResponse string
  | WorkItemResponse work_item
  | WorkItemsResponse "work_item list"
  | ProcessingJobResponse processing_job
  | ErrorPage

record http_response =
  rs_status :: int
  rs_headers :: "(string \<times> string) list"
  rs_body :: response_body

definition write_json :: "(string \<times> string) list \<Rightarrow> int \<Rightarrow> response_body \<Rightarrow> http_response" where
  "write_json headers status body =
     \<lparr>rs_status = status, rs_headers = headers @ [(''Content-Type'', ''application/json'')], rs_body = body\<rparr>"

definition write_error :: "int \<Rightarrow> string \<Rightarrow> http_response" where
  "write_error status code = write_json [] status (ErrorResponse code 0)"

type_synonym 's handler = "http_request \<Rightarrow> 's \<Rightarrow> http_response \<times> 's"

section \<open>The application store\<close>

text \<open>The interface \<open>applicationStore\<close>, and the PostgreSQL store behind it.\<close>

record 's application_store =
  as_Ready :: "'s \<Rightarrow> go_error option \<times> 's"
  as_CreateWorkItem :: "string \<Rightarrow> string \<Rightarrow> 's \<Rightarrow> work_item result \<times> 's"
  as_ListWorkItems :: "'s \<Rightarrow> work_item list result \<times> 's"
  as_AcceptProcessingJob :: "int64 \<Rightarrow> 's \<Rightarrow> acceptance \<times> 's"
  as_GetProcessingJob :: "int64 \<Rightarrow> 's \<Rightarrow> processing_job result \<times> 's"

definition postgres_store :: "world application_store" where
  "postgres_store =
     \<lparr>as_Ready = Ready, as_CreateWorkItem = create_work_item, as_ListWorkItems = list_work_items,
      as_AcceptProcessingJob = accept_processing_job, as_GetProcessingJob = api_get_processing_job\<rparr>"

section \<open>Item handlers\<close>

record create_work_item_request =
  cr_Title :: string
  cr_Status :: string

definition create_request_fields :: "create_work_item_request struct_fields" where
  "create_request_fields =
     [(''title'', set_string (\<lambda>s r. r\<lparr>cr_Title := s\<rparr>)), (''status'', set_string (\<lambda>s r. r\<lparr>cr_Status := s\<rparr>))]"

text \<open>The two \<open>Decode\<close> calls: one object, nothing after it.\<close>

definition decode_create_request :: "bytes \<Rightarrow> create_work_item_request option" where
  "decode_create_request body =
     (case json_next body of
        Inl err \<Rightarrow> None
      | Inr (v, rest) \<Rightarrow>
     (case decode_struct create_request_fields v \<lparr>cr_Title = [], cr_Status = []\<rparr> of
        None \<Rightarrow> None
      | Some request \<Rightarrow>
     (case json_next rest of
        Inr _ \<Rightarrow> None
      | Inl err \<Rightarrow> if \<not> errors_is err IoEOF then None else Some request)))"

definition create_item_handler :: "'s application_store \<Rightarrow> 's handler" where
  "create_item_handler store r s =
     (case decode_create_request (rq_body r) of
        None \<Rightarrow> (write_error 400 ''invalid_request'', s)
      | Some request \<Rightarrow>
          (let title = trim_space (cr_Title request);
               status = (let st = trim_space (cr_Status request) in if st = [] then Pending else st) in
           if title = [] then (write_error 400 ''title_required'', s)
           else if status \<noteq> Pending then (write_error 400 ''invalid_status'', s)
           else (case as_CreateWorkItem store title status s of
             (Inl err, s') \<Rightarrow>
               (if errors_is err ErrInvalidWorkItemStatus then (write_error 400 ''invalid_status'', s')
                else (write_error 503 ''persistence_unavailable'', s'))
           | (Inr item, s') \<Rightarrow> (write_json [] 201 (WorkItemResponse item), s'))))"

definition list_items_handler :: "'s application_store \<Rightarrow> 's handler" where
  "list_items_handler store r s =
     (case as_ListWorkItems store s of
        (Inl err, s') \<Rightarrow> (write_error 503 ''persistence_unavailable'', s')
      | (Inr items, s') \<Rightarrow> (write_json [] 200 (WorkItemsResponse items), s'))"

section \<open>Processing handlers\<close>

definition get_job_handler :: "'s application_store \<Rightarrow> 's handler" where
  "get_job_handler store r s =
     (case parse_int64 (rq_id r) of
        None \<Rightarrow> (write_error 400 ''invalid_processing_job_id'', s)
      | Some job_id \<Rightarrow>
          (if job_id \<le> 0 then (write_error 400 ''invalid_processing_job_id'', s)
           else (case as_GetProcessingJob store job_id s of
             (Inl err, s') \<Rightarrow>
               (if errors_is err ErrProcessingJobNotFound then (write_error 404 ''processing_job_not_found'', s')
                else (write_error 503 ''persistence_unavailable'', s'))
           | (Inr job, s') \<Rightarrow> (write_json [] 200 (ProcessingJobResponse job), s'))))"

definition process_item_handler :: "'s application_store \<Rightarrow> 's handler" where
  "process_item_handler store r s =
     (case parse_int64 (rq_id r) of
        None \<Rightarrow> (write_error 400 ''invalid_item_id'', s)
      | Some work_item_id \<Rightarrow>
          (if work_item_id \<le> 0 then (write_error 400 ''invalid_item_id'', s)
           else (case as_AcceptProcessingJob store work_item_id s of
             ((job, None), s') \<Rightarrow> (write_json [] 202 (ProcessingJobResponse job), s')
           | ((job, Some err), s') \<Rightarrow>
               (if errors_is err ErrProcessingAlreadyActive then
                  (write_json [] 409 (ErrorResponse ''processing_already_active'' (jb_ID job)), s')
                else if errors_is err ErrWorkItemDone then (write_error 409 ''work_item_already_done'', s')
                else if errors_is err ErrWorkItemNotFound then (write_error 404 ''work_item_not_found'', s')
                else (write_error 503 ''persistence_unavailable'', s')))))"

section \<open>The guard\<close>

text \<open>
  The state in front of the business handlers: the validator's and the store's. A guard turns a
  handler of the store into one of both.
\<close>

type_synonym ('v, 's) guard = "string \<Rightarrow> permission \<Rightarrow> 's handler \<Rightarrow> ('v \<times> 's) handler"

definition without_authentication :: "('v, 's) guard" where
  "without_authentication pattern permission handle r vs =
     (case handle r (snd vs) of (response, s') \<Rightarrow> (response, (fst vs, s')))"

definition bearer_token :: "string \<Rightarrow> string option" where
  "bearer_token header =
     (case cut CHR '' '' header of
        (scheme, token, found) \<Rightarrow>
          (if \<not> found \<or> \<not> equal_fold scheme ''Bearer'' then None
           else (let token = trim_space token in if token \<noteq> [] then Some token else None)))"

definition challenge :: "string \<Rightarrow> string \<times> string" where
  "challenge params = (''WWW-Authenticate'', ''Bearer realm='' @ [CHR 0x22] @ ''work-items'' @ [CHR 0x22] @ params)"

definition error_param :: "string \<Rightarrow> string" where
  "error_param code = '', error='' @ [CHR 0x22] @ code @ [CHR 0x22]"

text \<open>\<open>None\<close> is the panic a nil key set would be.\<close>

definition require_bearer_token :: "(string \<Rightarrow> 'v \<Rightarrow> verdict \<times> 'v) \<Rightarrow> ('v, 's) guard" where
  "require_bearer_token validate_token pattern permission handle r vs =
     (case bearer_token (rq_authorization r) of
        None \<Rightarrow> (write_json [challenge []] 401 (ErrorResponse ''unauthenticated'' 0), vs)
      | Some token \<Rightarrow>
     (case validate_token token (fst vs) of
        (Rejected category, v') \<Rightarrow>
          (write_json [challenge (error_param ''invalid_token'')] 401 (ErrorResponse ''unauthenticated'' 0),
           (v', snd vs))
      | (Undecided err, v') \<Rightarrow> (write_error 503 ''authentication_unavailable'', (v', snd vs))
      | (NilDereference, v') \<Rightarrow> (\<lparr>rs_status = 500, rs_headers = [], rs_body = ErrorPage\<rparr>, (v', snd vs))
      | (Authenticated caller, v') \<Rightarrow>
          (if \<not> has_permission (pr_Permissions caller) permission then
             (write_json [challenge (error_param ''insufficient_scope'')] 403
                (ErrorResponse ''insufficient_permissions'' 0), (v', snd vs))
           else (case handle r (snd vs) of (response, s') \<Rightarrow> (response, (v', s'))))))"

section \<open>Routes\<close>

text \<open>
  \<open>http.ServeMux\<close> as far as the registered patterns need it: a method and path segments, one of which
  may be the wildcard \<open>{id}\<close>; GET also serves HEAD. \<open>None\<close> is no match, \<open>Some\<close> the wildcard's value.
\<close>

fun match_segments :: "string list \<Rightarrow> string list \<Rightarrow> string option" where
  "match_segments [] [] = Some []"
| "match_segments (p # ps) (x # xs) =
     (if p = ''{id}'' then (if x \<noteq> [] \<and> match_segments ps xs \<noteq> None then Some x else None)
      else if p = x then match_segments ps xs else None)"
| "match_segments _ _ = None"

definition match_pattern :: "string \<Rightarrow> http_request \<Rightarrow> string option" where
  "match_pattern pattern r =
     (case cut CHR '' '' pattern of
        (verb, path, found) \<Rightarrow>
          (if verb = rq_method r \<or> verb = ''GET'' \<and> rq_method r = ''HEAD''
           then match_segments (split_at CHR ''/'' path) (split_at CHR ''/'' (rq_path r)) else None))"

type_synonym 's mux = "(string \<times> 's handler) list"

fun route_of :: "'s mux \<Rightarrow> http_request \<Rightarrow> (string \<times> 's handler) option" where
  "route_of [] r = None"
| "route_of ((pattern, handle) # routes) r =
     (case match_pattern pattern r of Some v \<Rightarrow> Some (v, handle) | None \<Rightarrow> route_of routes r)"

text \<open>A path that only other methods serve is 405, any other 404.\<close>

definition other_method :: "'s mux \<Rightarrow> http_request \<Rightarrow> bool" where
  "other_method mux r =
     list_ex (\<lambda>route. case cut CHR '' '' (fst route) of
         (verb, path, found) \<Rightarrow> match_pattern (fst route) (r\<lparr>rq_method := verb\<rparr>) \<noteq> None) mux"

definition serve :: "'s mux \<Rightarrow> 's handler" where
  "serve mux r s =
     (case route_of mux r of
        Some (v, handle) \<Rightarrow> handle (r\<lparr>rq_id := v\<rparr>) s
      | None \<Rightarrow> (\<lparr>rs_status = (if other_method mux r then 405 else 404), rs_headers = [], rs_body = ErrorPage\<rparr>, s))"

text \<open>
  \<open>protectedRoutes.Handle\<close>: registering a route without a valid permission is a panic (\<open>None\<close>).
\<close>

type_synonym 's route = "string \<times> permission \<times> 's handler"

definition protected_handle :: "('v, 's) guard \<Rightarrow> 's route \<Rightarrow> (string \<times> ('v \<times> 's) handler) option" where
  "protected_handle guard route =
     (case route of (pattern, permission, handle) \<Rightarrow>
        if \<not> permission_valid permission then None
        else Some (pattern, guard pattern permission handle))"

fun protect_all :: "('v, 's) guard \<Rightarrow> 's route list \<Rightarrow> ('v \<times> 's) mux option" where
  "protect_all guard [] = Some []"
| "protect_all guard (route # routes) =
     (case protected_handle guard route of
        None \<Rightarrow> None
      | Some entry \<Rightarrow> (case protect_all guard routes of None \<Rightarrow> None | Some mux \<Rightarrow> Some (entry # mux)))"

definition work_item_routes :: "'s application_store \<Rightarrow> 's route list" where
  "work_item_routes store =
     [(''POST /items'', ItemsCreate, create_item_handler store),
      (''GET /items'', ItemsRead, list_items_handler store)]"

definition processing_routes :: "'s application_store \<Rightarrow> 's route list" where
  "processing_routes store =
     [(''GET /processing-jobs/{id}'', ItemsRead, get_job_handler store),
      (''POST /items/{id}/process'', ItemsProcess, process_item_handler store)]"

definition health_handler :: "('v \<times> 's) handler" where
  "health_handler r vs = (write_json [] 200 (StatusResponse ''healthy''), vs)"

definition ready_handler :: "bool \<Rightarrow> 's application_store \<Rightarrow> ('v \<times> 's) handler" where
  "ready_handler is_ready store r vs =
     (if \<not> is_ready then (write_json [] 503 (StatusResponse ''not_ready''), vs)
      else (case as_Ready store (snd vs) of
        (Some err, s') \<Rightarrow> (write_json [] 503 (StatusResponse ''not_ready''), (fst vs, s'))
      | (None, s') \<Rightarrow> (write_json [] 200 (StatusResponse ''ready''), (fst vs, s'))))"

definition version_handler :: "string \<Rightarrow> ('v \<times> 's) handler" where
  "version_handler app_version r vs = (write_json [] 200 (VersionResponse app_version), vs)"

text \<open>\<open>is_ready\<close> is what \<open>readiness.isReady()\<close> reads while the request is served.\<close>

definition new_application_handler ::
  "string \<Rightarrow> bool \<Rightarrow> 's application_store \<Rightarrow> ('v, 's) guard \<Rightarrow> ('v \<times> 's) mux option" where
  "new_application_handler app_version is_ready store protect =
     map_option
       (\<lambda>business.
          [(''GET /health'', health_handler), (''GET /ready'', ready_handler is_ready store),
           (''GET /version'', version_handler (if app_version = [] then ''dev'' else app_version))] @ business)
       (protect_all protect (work_item_routes store @ processing_routes store))"

section \<open>Authentication from the environment\<close>

text \<open>The guard the configuration chooses, over a validator's own \<open>Validate\<close>.\<close>

definition authentication_from_environment ::
  "authn_config result \<Rightarrow> (authn_config \<Rightarrow> 'v result) \<Rightarrow> (string \<Rightarrow> 'v option \<Rightarrow> verdict \<times> 'v option)
     \<Rightarrow> (('v option, 's) guard \<times> 'v option) result" where
  "authentication_from_environment loaded new_v validate_token =
     (case loaded of
        Inl err \<Rightarrow> Inl err
      | Inr config \<Rightarrow>
          (if cf_Mode config = ModeDisabled then Inr (without_authentication, None)
           else case new_v config of
             Inl err \<Rightarrow> Inl err
           | Inr v \<Rightarrow> Inr (require_bearer_token validate_token, Some v)))"

section \<open>What the guard lets through\<close>

text \<open>A caller the guard admits to a route: a bearer token the validator accepts, with the permission.\<close>

definition admitted :: "(string \<Rightarrow> 'v \<Rightarrow> verdict \<times> 'v) \<Rightarrow> permission \<Rightarrow> string \<Rightarrow> 'v \<Rightarrow> bool" where
  "admitted validate_token permission header v =
     (\<exists>token caller. bearer_token header = Some token \<and> fst (validate_token token v) = Authenticated caller
        \<and> has_permission (pr_Permissions caller) permission)"

lemma require_bearer_token_cases:
  assumes "require_bearer_token validate_token pattern permission handle r (v, s) = (resp, (v', s'))"
  shows "admitted validate_token permission (rq_authorization r) v \<and> handle r s = (resp, s')
    \<or> \<not> admitted validate_token permission (rq_authorization r) v \<and> s' = s
      \<and> (\<exists>code. rs_body resp \<in> {ErrorResponse code 0, ErrorPage}) \<and> rs_status resp \<in> {401, 403, 500, 503}"
  using assms
  by (auto simp: require_bearer_token_def admitted_def write_error_def write_json_def
      split: option.splits prod.splits verdict.splits if_splits)

lemma protect_all_map:
  "list_all (\<lambda>route. permission_valid (fst (snd route))) routes \<Longrightarrow>
     protect_all guard routes = Some (map (\<lambda>(pattern, permission, handle). (pattern, guard pattern permission handle)) routes)"
  by (induction routes) (auto simp: protected_handle_def split: prod.splits)

lemma routes_have_permissions:
  "list_all (\<lambda>route. permission_valid (fst (snd route))) (work_item_routes store @ processing_routes store)"
  by (simp add: work_item_routes_def processing_routes_def permission_valid_def permission_defs)

text \<open>Every business route is registered behind the guard; none makes the registration panic.\<close>

lemma application_mux:
  "new_application_handler app_version is_ready store protect = Some
     ([(''GET /health'', health_handler), (''GET /ready'', ready_handler is_ready store),
       (''GET /version'', version_handler (if app_version = [] then ''dev'' else app_version))]
      @ map (\<lambda>(pattern, permission, handle). (pattern, protect pattern permission handle))
          (work_item_routes store @ processing_routes store))"
  by (simp add: new_application_handler_def protect_all_map [OF routes_have_permissions])

section \<open>Which handler serves a request\<close>

lemma match_segments_list:
  "match_segments [] xs = (if xs = [] then Some [] else None)"
  "match_segments (p # ps) xs = (case xs of [] \<Rightarrow> None | x # xs \<Rightarrow>
     if p = ''{id}'' then (if x \<noteq> [] \<and> match_segments ps xs \<noteq> None then Some x else None)
     else if p = x then match_segments ps xs else None)"
  by (cases xs; simp)+

lemma route_patterns:
  "match_pattern ''GET /health'' r \<noteq> None \<longleftrightarrow>
     rq_method r \<in> {''GET'', ''HEAD''} \<and> split_at CHR ''/'' (rq_path r) = [[], ''health'']"
  "match_pattern ''GET /ready'' r \<noteq> None \<longleftrightarrow>
     rq_method r \<in> {''GET'', ''HEAD''} \<and> split_at CHR ''/'' (rq_path r) = [[], ''ready'']"
  "match_pattern ''GET /version'' r \<noteq> None \<longleftrightarrow>
     rq_method r \<in> {''GET'', ''HEAD''} \<and> split_at CHR ''/'' (rq_path r) = [[], ''version'']"
  "match_pattern ''POST /items'' r \<noteq> None \<longleftrightarrow>
     rq_method r = ''POST'' \<and> split_at CHR ''/'' (rq_path r) = [[], ''items'']"
  "match_pattern ''GET /items'' r \<noteq> None \<longleftrightarrow>
     rq_method r \<in> {''GET'', ''HEAD''} \<and> split_at CHR ''/'' (rq_path r) = [[], ''items'']"
  by (auto simp: match_pattern_def cut_def match_segments_list split: if_splits list.splits)
lemma route_patterns_id:
  "match_pattern ''GET /processing-jobs/{id}'' r = Some x \<longleftrightarrow>
     rq_method r \<in> {''GET'', ''HEAD''} \<and> x \<noteq> [] \<and> split_at CHR ''/'' (rq_path r) = [[], ''processing-jobs'', x]"
  "match_pattern ''POST /items/{id}/process'' r = Some x \<longleftrightarrow>
     rq_method r = ''POST'' \<and> x \<noteq> [] \<and> split_at CHR ''/'' (rq_path r) = [[], ''items'', x, ''process'']"
  by (auto simp: match_pattern_def cut_def match_segments_list split: if_splits list.splits)

text \<open>The segments of the path, and the handler that serves each registered route.\<close>

abbreviation segments :: "http_request \<Rightarrow> string list" where
  "segments r \<equiv> split_at CHR ''/'' (rq_path r)"

lemma serve_routes:
  assumes "new_application_handler app_version is_ready store protect = Some mux"
  shows "rq_method r \<in> {''GET'', ''HEAD''} \<Longrightarrow> segments r = [[], ''ready''] \<Longrightarrow>
      serve mux r vs = ready_handler is_ready store (r\<lparr>rq_id := []\<rparr>) vs"
    and "rq_method r = ''POST'' \<Longrightarrow> segments r = [[], ''items''] \<Longrightarrow>
      serve mux r vs = protect ''POST /items'' ItemsCreate (create_item_handler store) (r\<lparr>rq_id := []\<rparr>) vs"
    and "rq_method r \<in> {''GET'', ''HEAD''} \<Longrightarrow> segments r = [[], ''items''] \<Longrightarrow>
      serve mux r vs = protect ''GET /items'' ItemsRead (list_items_handler store) (r\<lparr>rq_id := []\<rparr>) vs"
    and "rq_method r \<in> {''GET'', ''HEAD''} \<Longrightarrow> segments r = [[], ''processing-jobs'', x] \<Longrightarrow> x \<noteq> [] \<Longrightarrow>
      serve mux r vs = protect ''GET /processing-jobs/{id}'' ItemsRead (get_job_handler store) (r\<lparr>rq_id := x\<rparr>) vs"
    and "rq_method r = ''POST'' \<Longrightarrow> segments r = [[], ''items'', x, ''process''] \<Longrightarrow> x \<noteq> [] \<Longrightarrow>
      serve mux r vs = protect ''POST /items/{id}/process'' ItemsProcess (process_item_handler store) (r\<lparr>rq_id := x\<rparr>) vs"
  using assms
  by (auto simp: application_mux work_item_routes_def processing_routes_def serve_def match_pattern_def
      cut_def match_segments_list)

text \<open>The permission a request needs, by the route it takes; operational and unknown paths need none.\<close>

definition needed :: "http_request \<Rightarrow> permission option" where
  "needed r =
     (if match_pattern ''GET /health'' r \<noteq> None \<or> match_pattern ''GET /ready'' r \<noteq> None
         \<or> match_pattern ''GET /version'' r \<noteq> None then None
      else if match_pattern ''POST /items'' r \<noteq> None then Some ItemsCreate
      else if match_pattern ''GET /items'' r \<noteq> None then Some ItemsRead
      else if match_pattern ''GET /processing-jobs/{id}'' r \<noteq> None then Some ItemsRead
      else if match_pattern ''POST /items/{id}/process'' r \<noteq> None then Some ItemsProcess
      else None)"

end
