(* ===== verification/Acceptance.thy ===== *)
theory Acceptance
  imports ApiStore
begin

text \<open>
  What \<open>AcceptProcessingJob\<close> does: the committed effect as one function, the proof that no declared
  constraint refuses it, its result on every branch, all-or-nothing under faults, and what a reported
  acceptance means among other sessions.
\<close>

section \<open>The accepted database\<close>

definition with_new_job :: "int64 \<Rightarrow> int64 \<Rightarrow> timestamp \<Rightarrow> database \<Rightarrow> database" where
  "with_new_job j i now d = d\<lparr>processing_jobs := insert_row (new_job_row j i now) (processing_jobs d)\<rparr>"

definition with_new_message :: "int64 \<Rightarrow> int64 \<Rightarrow> int64 \<Rightarrow> timestamp \<Rightarrow> database \<Rightarrow> database" where
  "with_new_message m j i now d =
     d\<lparr>outbox_messages := insert_row (new_outbox_row m j i now) (outbox_messages d)\<rparr>"

definition with_acceptance :: "int64 \<Rightarrow> int64 \<Rightarrow> int64 \<Rightarrow> timestamp \<Rightarrow> database \<Rightarrow> database" where
  "with_acceptance m j i now d = with_new_message m j i now (with_new_job j i now d)"

definition next_sequences :: "sequences \<Rightarrow> sequences" where
  "next_sequences sq =
     sq\<lparr>seq_processing_jobs := seq_processing_jobs sq + 1, seq_outbox_messages := seq_outbox_messages sq + 1\<rparr>"

text \<open>An item the API may accept for processing, and sequences with values left.\<close>

definition acceptable :: "int64 \<Rightarrow> database \<Rightarrow> bool" where
  "acceptable i d =
     ((case row_at wi_id (work_items d) i of Some r \<Rightarrow> wi_status r \<noteq> Done | None \<Rightarrow> False)
      \<and> (\<forall>r \<in> set (processing_jobs d). \<not> active_job i r))"

definition seqs_left :: "sequences \<Rightarrow> bool" where
  "seqs_left sq = (seq_processing_jobs sq < int64_max \<and> seq_outbox_messages sq < int64_max)"

section \<open>No constraint refuses it\<close>

text \<open>An item that is not done has no successful job.\<close>

lemma open_item_no_success:
  assumes ok: "db_ok d" and item: "row_at wi_id (work_items d) i = Some r" "wi_status r \<noteq> Done"
    and q: "q \<in> set (processing_jobs d)" "pj_work_item_id q = i"
  shows "pj_state q \<noteq> Succeeded"
proof
  assume "pj_state q = Succeeded"
  with ok q have "i \<in> wr_work_item_id ` set (work_item_results d)"
    by (auto simp: db_ok_def deferred_defs list_all_iff)
  then obtain p where p: "p \<in> set (work_items d)" "wi_id p = i" "wi_status p = Done"
    using ok by (auto simp: db_ok_def deferred_defs list_all_iff)
  moreover have "unique_key wi_id (work_items d)" using ok by (simp add: db_ok_def constraint_defs)
  ultimately have "row_at wi_id (work_items d) i = Some p" by (auto simp: row_at_iff)
  with item p show False by simp
qed

lemma fresh_job:
  assumes "db_ok d" and "seqs_ok sq d" and "j = seq_processing_jobs sq + 1"
  shows "j \<notin> pj_id ` set (processing_jobs d)" and "j \<notin> ob_processing_job_id ` set (outbox_messages d)"
proof -
  show "j \<notin> pj_id ` set (processing_jobs d)"
    using assms by (auto simp: seqs_ok_def list_all_iff)
  moreover have "ob_processing_job_id ` set (outbox_messages d) \<subseteq> pj_id ` set (processing_jobs d)"
    using assms(1) by (auto simp: db_ok_def constraint_defs list_all_iff)
  ultimately show "j \<notin> ob_processing_job_id ` set (outbox_messages d)" by blast
qed

lemma with_new_job_ok:
  assumes ok: "db_ok d" and sq: "seqs_ok sq d" and j: "j = seq_processing_jobs sq + 1"
    and a: "acceptable i d"
  shows "immediate_ok (with_new_job j i now d)"
proof -
  obtain r where r: "row_at wi_id (work_items d) i = Some r" "wi_status r \<noteq> Done"
    using a by (auto simp: acceptable_def split: option.splits)
  have i: "i \<in> wi_id ` set (work_items d)" using row_at_Some_in [OF r(1)] by auto
  have "i \<notin> pj_work_item_id ` set (filter active_or_successful (processing_jobs d))"
    using a open_item_no_success [OF ok r] by (auto simp: acceptable_def active_job_def active_or_successful_def)
  moreover have "filter active_or_successful (insert_row (new_job_row j i now) (processing_jobs d))
      = insert_row (new_job_row j i now) (filter active_or_successful (processing_jobs d))"
    by (simp add: insert_row_def new_job_row_def active_or_successful_def)
  ultimately have "unique_key pj_work_item_id
      (filter active_or_successful (insert_row (new_job_row j i now) (processing_jobs d)))"
    using ok by (simp add: db_ok_def constraint_defs) (simp add: new_job_row_def)
  moreover have "job_row_ok (new_job_row j i now)"
    by (simp add: job_row_ok_def new_job_row_def in_int32_def int32_max_def)
  ultimately have "jobs_ok (work_items d) (insert_row (new_job_row j i now) (processing_jobs d))"
    using ok i fresh_job(1) [OF ok sq j]
    by (simp add: db_ok_def immediate_ok_def jobs_ok_def) (simp add: new_job_row_def)
  moreover have "outbox_ok (insert_row (new_job_row j i now) (processing_jobs d)) (outbox_messages d)"
    using ok by (auto simp: db_ok_def immediate_ok_def outbox_ok_def list_all_iff)
  moreover have "results_ok (work_items d) (insert_row (new_job_row j i now) (processing_jobs d))
      (work_item_results d)"
    using ok by (auto simp: db_ok_def immediate_ok_def results_ok_def list_all_iff)
  ultimately show ?thesis using ok by (simp add: db_ok_def immediate_ok_def with_new_job_def)
qed

lemma with_acceptance_immediate_ok:
  assumes ok: "db_ok d" and sq: "seqs_ok sq d" and j: "j = seq_processing_jobs sq + 1"
    and m: "m = seq_outbox_messages sq + 1" and a: "acceptable i d"
  shows "immediate_ok (with_acceptance m j i now d)"
proof -
  have "m \<notin> ob_id ` set (outbox_messages d)"
    using sq m by (auto simp: seqs_ok_def list_all_iff)
  moreover have "outbox_row_ok (new_outbox_row m j i now)"
    by (simp add: outbox_row_ok_def new_outbox_row_def process_payload_def is_object_def in_int32_def
        int32_max_def)
  moreover have "j \<in> pj_id ` set (insert_row (new_job_row j i now) (processing_jobs d))"
    by (simp add: new_job_row_def)
  ultimately have "outbox_ok (insert_row (new_job_row j i now) (processing_jobs d))
      (insert_row (new_outbox_row m j i now) (outbox_messages d))"
    using with_new_job_ok [OF ok sq j a, of now] fresh_job(2) [OF ok sq j]
    by (simp add: immediate_ok_def with_new_job_def outbox_ok_def) (simp add: new_outbox_row_def)
  then show ?thesis
    using with_new_job_ok [OF ok sq j a, of now]
    by (simp add: immediate_ok_def with_acceptance_def with_new_message_def with_new_job_def)
qed

lemma with_acceptance_deferred_ok: "db_ok d \<Longrightarrow> deferred_ok (with_acceptance m j i now d)"
  by (auto simp: db_ok_def deferred_ok_def with_acceptance_def with_new_message_def with_new_job_def
      result_completed_item_fk_def result_successful_job_fk_def completed_item_result_fk_def
      successful_job_result_fk_def list_all_iff new_job_row_def)

section \<open>The calm runs\<close>

lemma query_row_map: "query_row (map f rs) = map_sum id f (query_row rs)"
  by (cases rs) (simp_all add: query_row_def)

lemma select_status_at:
  "select_status_stmt i now d sq =
     (case row_at wi_id (work_items d) i of
        None \<Rightarrow> (Inl (Sentinel PgxErrNoRows), id, sq) | Some r \<Rightarrow> (Inr (wi_status r), id, sq))"
  by (simp add: select_status_stmt_def query_row_map query_row_by_key split: option.split)

lemma select_active_at:
  "select_active_stmt i now d sq =
     (case find (active_job i) (processing_jobs d) of
        None \<Rightarrow> (Inl (Sentinel PgxErrNoRows), id, sq) | Some r \<Rightarrow> (Inr (pj_id r), id, sq))"
  by (simp add: select_active_stmt_def query_row_map query_row_select split: option.split)

text \<open>The acceptance up to its inserts, one item, a calm database.\<close>

lemma accept_checks_calm:
  assumes calm: "calm w" and ok: "db_ok (db w)"
  shows "\<exists>x. tx_at (db w) (seqs w) (db w) (clock (next_turn w)) x
    \<and> accept_processing_job i w =
      (case row_at wi_id (work_items (db w)) i of
         None \<Rightarrow> ((no_job, Some (Sentinel ErrWorkItemNotFound)), rollback_tx x)
       | Some r \<Rightarrow>
           (if wi_status r = Done then ((no_job, Some (Sentinel ErrWorkItemDone)), rollback_tx x)
            else case find (active_job i) (processing_jobs (db w)) of
              Some q \<Rightarrow> ((no_job\<lparr>jb_ID := pj_id q\<rparr>, Some (Sentinel ErrProcessingAlreadyActive)), rollback_tx x)
            | None \<Rightarrow> insert_acceptance i x))"
proof -
  let ?now = "clock (next_turn w)" and ?d = "db w" and ?sq = "seqs w"
  have imm: "immediate_ok ?d" using ok by (simp add: db_ok_def)
  from tx_at_begin [OF calm] obtain x0 where
    x0: "begin_tx w = (Inr (), x0)" "tx_at ?d ?sq ?d ?now x0" by auto
  have "ItemLockSQL i ?now ?d ?sq = (Inr (), id, ?sq)" by (simp add: ItemLockSQL_def)
  from tx_at_exec [where st = "ItemLockSQL i", OF x0(2) this] imm obtain x1 where
    x1: "exec_tx (ItemLockSQL i) x0 = (Inr (), x1)" "tx_at ?d ?sq ?d ?now x1" by auto
  show ?thesis
  proof (cases "row_at wi_id (work_items ?d) i")
    case None
    then have "select_status_stmt i ?now ?d ?sq = (Inl (Sentinel PgxErrNoRows), id, ?sq)"
      by (simp add: select_status_at)
    from tx_at_exec_error [where st = "select_status_stmt i", OF x1(2) this] obtain x2 where
      "exec_tx (select_status_stmt i) x1 = (Inl (Sentinel PgxErrNoRows), x2)" "tx_at ?d ?sq ?d ?now x2" by auto
    with None x0 x1 show ?thesis by (auto simp: accept_processing_job_def)
  next
    case (Some r)
    then have "select_status_stmt i ?now ?d ?sq = (Inr (wi_status r), id, ?sq)"
      by (simp add: select_status_at)
    from tx_at_exec [where st = "select_status_stmt i", OF x1(2) this] imm obtain x2 where
      x2: "exec_tx (select_status_stmt i) x1 = (Inr (wi_status r), x2)" "tx_at ?d ?sq ?d ?now x2" by auto
    show ?thesis
    proof (cases "find (active_job i) (processing_jobs ?d)")
      case None
      then have "select_active_stmt i ?now ?d ?sq = (Inl (Sentinel PgxErrNoRows), id, ?sq)"
        by (simp add: select_active_at)
      from tx_at_exec_error [where st = "select_active_stmt i", OF x2(2) this] obtain x3 where
        "exec_tx (select_active_stmt i) x2 = (Inl (Sentinel PgxErrNoRows), x3)" "tx_at ?d ?sq ?d ?now x3" by auto
      with None Some x0 x1 x2 show ?thesis by (auto simp: accept_processing_job_def)
    next
      case active: (Some q)
      then have "select_active_stmt i ?now ?d ?sq = (Inr (pj_id q), id, ?sq)"
        by (simp add: select_active_at)
      from tx_at_exec [where st = "select_active_stmt i", OF x2(2) this] imm obtain x3 where
        "exec_tx (select_active_stmt i) x2 = (Inr (pj_id q), x3)" "tx_at ?d ?sq ?d ?now x3" by auto
      with active Some x0 x1 x2 show ?thesis by (auto simp: accept_processing_job_def)
    qed
  qed
qed

lemma insert_acceptance_calm:
  assumes at: "tx_at d sq d now x" and ok: "db_ok d" and sq: "seqs_ok sq d" and a: "acceptable i d"
    and left: "seqs_left sq"
  shows "\<exists>w'. insert_acceptance i x =
      ((scan_processing_job (new_job_row (seq_processing_jobs sq + 1) i now), None), w')
    \<and> db w' = with_acceptance (seq_outbox_messages sq + 1) (seq_processing_jobs sq + 1) i now d
    \<and> seqs w' = next_sequences sq \<and> calm w'"
proof -
  let ?j = "seq_processing_jobs sq + 1" and ?m = "seq_outbox_messages sq + 1"
  let ?r = "new_job_row ?j i now" and ?sq1 = "sq\<lparr>seq_processing_jobs := ?j\<rparr>"
  obtain r where r: "row_at wi_id (work_items d) i = Some r"
    using a by (auto simp: acceptable_def split: option.splits)
  have i: "wi_id r = i" using row_at_Some_in [OF r] by simp
  have "insert_job_stmt i now d sq = (Inr ?r, with_new_job ?j i now, ?sq1)"
    using r i left by (auto simp: insert_job_stmt_def Let_def with_new_job_def seqs_left_def)
  from tx_at_exec [where st = "insert_job_stmt i", OF at this with_new_job_ok [OF ok sq refl a]]
  obtain x1 where x1: "exec_tx (insert_job_stmt i) x = (Inr ?r, x1)"
    "tx_at d ?sq1 (with_new_job ?j i now d) now x1" by auto
  have "insert_outbox_stmt ?j i now (with_new_job ?j i now d) ?sq1 =
      (Inr (), with_new_message ?m ?j i now, next_sequences sq)"
    using left by (auto simp: insert_outbox_stmt_def Let_def with_new_message_def seqs_left_def next_sequences_def)
  moreover have "immediate_ok (with_new_message ?m ?j i now (with_new_job ?j i now d))"
    using with_acceptance_immediate_ok [OF ok sq refl refl a] by (simp add: with_acceptance_def)
  ultimately obtain x2 where x2: "exec_tx (insert_outbox_stmt ?j i) x1 = (Inr (), x2)"
    "tx_at d (next_sequences sq) (with_acceptance ?m ?j i now d) now x2"
    using tx_at_exec [where st = "insert_outbox_stmt ?j i", OF x1(2)] unfolding with_acceptance_def by blast
  from tx_at_commit [OF x2(2) with_acceptance_deferred_ok [OF ok]] obtain w' where
    "commit_tx x2 = (Inr (), w')" "db w' = with_acceptance ?m ?j i now d" "seqs w' = next_sequences sq" "calm w'"
    by auto
  with x1 x2 show ?thesis
    by (simp add: insert_acceptance_def scan_processing_job_def new_job_row_def)
qed

text \<open>What the call does to a calm database, on every branch.\<close>

lemma accept_processing_job_calm_at:
  assumes calm: "calm w" and ok: "db_ok (db w)" and sq: "seqs_ok (seqs w) (db w)" and left: "seqs_left (seqs w)"
  shows "\<exists>res w'. accept_processing_job i w = (res, w') \<and> calm w' \<and>
    (case row_at wi_id (work_items (db w)) i of
       None \<Rightarrow> res = (no_job, Some (Sentinel ErrWorkItemNotFound)) \<and> db w' = db w
     | Some r \<Rightarrow>
         if wi_status r = Done then res = (no_job, Some (Sentinel ErrWorkItemDone)) \<and> db w' = db w
         else case find (active_job i) (processing_jobs (db w)) of
           Some q \<Rightarrow> res = (no_job\<lparr>jb_ID := pj_id q\<rparr>, Some (Sentinel ErrProcessingAlreadyActive)) \<and> db w' = db w
         | None \<Rightarrow> (\<exists>now. now = clock (next_turn w) \<and> res = (scan_processing_job (new_job_row (seq_processing_jobs (seqs w) + 1) i now), None)
             \<and> db w' = with_acceptance (seq_outbox_messages (seqs w) + 1) (seq_processing_jobs (seqs w) + 1) i now (db w)
             \<and> seqs w' = next_sequences (seqs w)))"
proof -
  from accept_checks_calm [OF calm ok, of i] obtain x where
    x: "tx_at (db w) (seqs w) (db w) (clock (next_turn w)) x" and
    run: "accept_processing_job i w =
      (case row_at wi_id (work_items (db w)) i of
         None \<Rightarrow> ((no_job, Some (Sentinel ErrWorkItemNotFound)), rollback_tx x)
       | Some r \<Rightarrow>
           (if wi_status r = Done then ((no_job, Some (Sentinel ErrWorkItemDone)), rollback_tx x)
            else case find (active_job i) (processing_jobs (db w)) of
              Some q \<Rightarrow> ((no_job\<lparr>jb_ID := pj_id q\<rparr>, Some (Sentinel ErrProcessingAlreadyActive)), rollback_tx x)
            | None \<Rightarrow> insert_acceptance i x))" by blast
  note undone = tx_at_rollback [OF x]
  show ?thesis
  proof (cases "row_at wi_id (work_items (db w)) i")
    case None
    with run undone show ?thesis by simp
  next
    case r: (Some r)
    show ?thesis
    proof (cases "wi_status r = Done \<or> find (active_job i) (processing_jobs (db w)) \<noteq> None")
      case True
      with run undone r show ?thesis by (auto split: option.splits)
    next
      case False
      then have "acceptable i (db w)" using r by (auto simp: acceptable_def find_None_iff)
      from insert_acceptance_calm [OF x ok sq this left] False r run show ?thesis by auto
    qed
  qed
qed

lemma accept_processing_job_calm:
  assumes calm: "calm w" and ok: "db_ok (db w)" and sq: "seqs_ok (seqs w) (db w)" and left: "seqs_left (seqs w)"
  shows "\<exists>res w'. accept_processing_job i w = (res, w') \<and> calm w' \<and>
    (case row_at wi_id (work_items (db w)) i of
       None \<Rightarrow> res = (no_job, Some (Sentinel ErrWorkItemNotFound)) \<and> db w' = db w
     | Some r \<Rightarrow>
         if wi_status r = Done then res = (no_job, Some (Sentinel ErrWorkItemDone)) \<and> db w' = db w
         else case find (active_job i) (processing_jobs (db w)) of
           Some q \<Rightarrow> res = (no_job\<lparr>jb_ID := pj_id q\<rparr>, Some (Sentinel ErrProcessingAlreadyActive)) \<and> db w' = db w
         | None \<Rightarrow> (\<exists>now. res = (scan_processing_job (new_job_row (seq_processing_jobs (seqs w) + 1) i now), None)
             \<and> db w' = with_acceptance (seq_outbox_messages (seqs w) + 1) (seq_processing_jobs (seqs w) + 1) i now (db w)
             \<and> seqs w' = next_sequences (seqs w)))"
proof -
  from accept_processing_job_calm_at [OF assms, of i] obtain res w' where
    run: "accept_processing_job i w = (res, w')" "calm w'" and branch: "case row_at wi_id (work_items (db w)) i of
       None \<Rightarrow> res = (no_job, Some (Sentinel ErrWorkItemNotFound)) \<and> db w' = db w
     | Some r \<Rightarrow>
         if wi_status r = Done then res = (no_job, Some (Sentinel ErrWorkItemDone)) \<and> db w' = db w
         else case find (active_job i) (processing_jobs (db w)) of
           Some q \<Rightarrow> res = (no_job\<lparr>jb_ID := pj_id q\<rparr>, Some (Sentinel ErrProcessingAlreadyActive)) \<and> db w' = db w
         | None \<Rightarrow> (\<exists>now. now = clock (next_turn w) \<and> res = (scan_processing_job (new_job_row (seq_processing_jobs (seqs w) + 1) i now), None)
             \<and> db w' = with_acceptance (seq_outbox_messages (seqs w) + 1) (seq_processing_jobs (seqs w) + 1) i now (db w)
             \<and> seqs w' = next_sequences (seqs w))" by blast
  show ?thesis
    by (intro exI [of _ res] exI [of _ w'] conjI run, insert branch)
       (cases "row_at wi_id (work_items (db w)) i"; cases "find (active_job i) (processing_jobs (db w))"; auto)
qed

section \<open>All or nothing\<close>

lemma insert_job_stmt_Inr:
  assumes "insert_job_stmt i now v sq = (Inr row, eff, sq')"
  shows "row = new_job_row (seq_processing_jobs sq + 1) i now"
    and "eff = with_new_job (seq_processing_jobs sq + 1) i now"
    and "row_at wi_id (work_items v) i \<noteq> None"
  using assms row_at_Some_in [of wi_id "work_items v" i]
  by (auto simp: insert_job_stmt_def Let_def with_new_job_def split: option.splits if_splits)

lemma insert_outbox_stmt_Inr:
  "insert_outbox_stmt j i now v sq = (Inr u, eff, sq') \<Longrightarrow>
     eff = with_new_message (seq_outbox_messages sq + 1) j i now"
  by (auto simp: insert_outbox_stmt_def Let_def with_new_message_def split: if_splits)

lemma insert_acceptance_isolated:
  assumes iso: "isolated (tx_world x)" and view: "tx_view x = db (tx_world x)"
    and run: "insert_acceptance i x = ((job, err), w')"
  shows "db w' = db (tx_world x) \<and> err \<noteq> None
    \<or> (\<exists>j m. db w' = with_acceptance m j i (tx_start x) (db (tx_world x))
         \<and> (err = None \<longrightarrow> job = scan_processing_job (new_job_row j i (tx_start x))))"
proof -
  obtain r1 x1 where e1: "exec_tx (insert_job_stmt i) x = (r1, x1)" by (metis surj_pair)
  note s1 = exec_tx_isolated [OF iso e1]
  show ?thesis
  proof (cases r1)
    case (Inl e)
    with run e1 s1 show ?thesis by (auto simp: insert_acceptance_def rollback_tx_def split: if_splits)
  next
    case r1: (Inr row)
    let ?j = "seq_processing_jobs (seqs (tx_world x)) + 1" and ?now = "tx_start x"
    have row: "row = new_job_row ?j i ?now" and v1: "tx_view x1 = with_new_job ?j i ?now (db (tx_world x))"
      using s1(4) [OF r1] view by (auto dest: insert_job_stmt_Inr)
    have ids: "jb_ID (scan_processing_job row) = ?j" "jb_WorkItemID (scan_processing_job row) = i"
      by (simp_all add: row scan_processing_job_def new_job_row_def)
    obtain r2 x2 where e2: "exec_tx (insert_outbox_stmt ?j i) x1 = (r2, x2)" by (metis surj_pair)
    note s2 = exec_tx_isolated [OF s1(1) e2]
    obtain r3 w3 where e3: "commit_tx x2 = (r3, w3)" by (metis surj_pair)
    note s3 = commit_tx_isolated [OF s2(1) e3]
    show ?thesis
    proof (cases r2)
      case (Inl e)
      with run e1 r1 e2 ids s1 s2 show ?thesis
        by (auto simp: insert_acceptance_def rollback_tx_def Let_def)
    next
      case r2: (Inr u)
      let ?m = "seq_outbox_messages (seqs (tx_world x1)) + 1"
      have "tx_view x2 = with_new_message ?m ?j i ?now (tx_view x1)"
        using s2(4) [OF r2] s1(3) by (auto dest: insert_outbox_stmt_Inr)
      then have v2: "tx_view x2 = with_acceptance ?m ?j i ?now (db (tx_world x))"
        by (simp add: with_acceptance_def v1)
      from run e1 r1 e2 r2 e3 ids have fin: "w' = w3"
        "err = None \<longrightarrow> job = scan_processing_job row \<and> is_ok r3" "err \<noteq> None \<longrightarrow> \<not> is_ok r3"
        by (auto simp: insert_acceptance_def Let_def split: sum.splits)
      from s3 show ?thesis
      proof
        assume "db w3 = db (tx_world x2) \<and> \<not> is_ok r3"
        with fin s1(2) s2(2) show ?thesis by (cases err) auto
      next
        assume "db w3 = tx_view x2 \<and> deferred_ok (tx_view x2)"
        with fin v2 row show ?thesis by auto
      qed
    qed
  qed
qed

text \<open>
  Whatever calls fail: alone on the database, accepting leaves the tables as they were or adds the
  job and its message together; it reports success only in the second case.
\<close>

lemma accept_processing_job_isolated:
  assumes iso: "isolated w" and run: "accept_processing_job i w = ((job, err), w')"
  shows "db w' = db w \<and> err \<noteq> None
    \<or> (\<exists>j m now. db w' = with_acceptance m j i now (db w)
         \<and> (err = None \<longrightarrow> job = scan_processing_job (new_job_row j i now)))"
proof -
  obtain r0 x0 where e0: "begin_tx w = (r0, x0)" by (metis surj_pair)
  then have x0: "isolated (tx_world x0)" "db (tx_world x0) = db w" "tx_view x0 = db w"
    using iso by (auto simp: begin_tx_def arrive_isolated tx_view_def)
  obtain r1 x1 where e1: "exec_tx (ItemLockSQL i) x0 = (r1, x1)" by (metis surj_pair)
  note s1 = exec_tx_isolated [OF x0(1) e1]
  obtain r2 x2 where e2: "exec_tx (select_status_stmt i) x1 = (r2, x2)" by (metis surj_pair)
  note s2 = exec_tx_isolated [OF s1(1) e2]
  obtain r3 x3 where e3: "exec_tx (select_active_stmt i) x2 = (r3, x3)" by (metis surj_pair)
  note s3 = exec_tx_isolated [OF s2(1) e3]
  note dbs = x0(2) s1(2) s2(2) s3(2)
  note body = run [unfolded accept_processing_job_def] e0 e1 e2 e3 dbs
  show ?thesis
  proof (cases "\<exists>st e. r0 = Inr () \<and> r1 = Inr () \<and> r2 = Inr st \<and> st \<noteq> Done
      \<and> r3 = Inl e \<and> errors_is e PgxErrNoRows")
    case False
    with body show ?thesis
      by (cases r0; cases r1; cases r2; cases r3) (auto simp: rollback_tx_def split: if_splits)
  next
    case True
    then obtain st e where r: "r0 = Inr ()" "r1 = Inr ()" "r2 = Inr st" "st \<noteq> Done" "r3 = Inl e"
      "errors_is e PgxErrNoRows" by blast
    have v1: "tx_view x1 = db w" using s1(4) [OF r(2)] x0(3) by (auto simp: ItemLockSQL_def)
    have v2: "tx_view x2 = db w"
      using s2(4) [OF r(3)] v1 by (auto simp: select_status_at split: option.splits)
    have ia: "insert_acceptance i x3 = ((job, err), w')" using body r by auto
    have "tx_view x3 = db w"
      using exec_tx_isolated_error [OF s2(1) e3 [unfolded r(5)]] v2 dbs by auto
    with insert_acceptance_isolated [OF s3(1) _ ia] dbs show ?thesis by auto
  qed
qed

section \<open>Among other sessions\<close>

text \<open>
  The durable responsibility an acceptance stands for: the job of the item, and the one message that
  will hand it to the worker.
\<close>

definition responsible :: "database \<Rightarrow> int64 \<Rightarrow> int64 \<Rightarrow> bool" where
  "responsible d j i =
     ((\<exists>r \<in> set (processing_jobs d). pj_id r = j \<and> pj_work_item_id r = i)
      \<and> (\<exists>m \<in> set (outbox_messages d). ob_processing_job_id m = j \<and> ob_payload m = process_payload j i))"

lemma insert_acceptance_responsible:
  assumes "insert_acceptance i x = ((job, None), w')"
  shows "responsible (db w') (jb_ID job) i \<and> jb_WorkItemID job = i \<and> jb_State job = Accepted"
proof -
  from assms obtain row x1 x2 where
    e1: "exec_tx (insert_job_stmt i) x = (Inr row, x1)" and
    e2: "exec_tx (insert_outbox_stmt (pj_id row) (pj_work_item_id row)) x1 = (Inr (), x2)" and
    c: "commit_tx x2 = (Inr (), w')" and job: "job = scan_processing_job row"
    by (auto simp: insert_acceptance_def Let_def scan_processing_job_def
        split: prod.splits sum.splits if_splits)
  from exec_tx_Inr [OF e1] obtain j now where row: "row = new_job_row j i now"
    and w1: "tx_writes x1 = with_new_job j i now \<circ> tx_writes x" by (auto dest: insert_job_stmt_Inr)
  from exec_tx_Inr [OF e2] row obtain m t where
    w2: "tx_writes x2 = with_new_message m j i t \<circ> tx_writes x1"
    by (auto simp: new_job_row_def dest: insert_outbox_stmt_Inr)
  have "db w' = tx_writes x2 (db (tx_world (tx_arrive x2)))"
    using commit_tx_Inr [OF c] tx_arrive_locks [of x2] by (simp add: tx_view_def)
  then show ?thesis
    by (auto simp: w1 w2 job row responsible_def with_new_job_def with_new_message_def new_job_row_def
        new_outbox_row_def scan_processing_job_def)
qed

lemma accept_processing_job_responsible:
  assumes "accept_processing_job i w = ((job, None), w')"
  shows "responsible (db w') (jb_ID job) i \<and> jb_WorkItemID job = i \<and> jb_State job = Accepted"
  using assms insert_acceptance_responsible
  by (auto simp: accept_processing_job_def split: prod.splits sum.splits if_splits)

lemma responsible_evolves:
  assumes "responsible (db w) j i" and ok: "world_ok w" and ev: "evolves w w'"
  shows "responsible (db w') j i"
proof -
  obtain r m where r: "r \<in> set (processing_jobs (db w))" "pj_id r = j" "pj_work_item_id r = i"
    and m: "m \<in> set (outbox_messages (db w))" "ob_processing_job_id m = j" "ob_payload m = process_payload j i"
    using assms(1) by (auto simp: responsible_def)
  have c: "continues (db w) (db w')" using ev ok by (rule evolves_continues)
  have u: "unique_key pj_id (processing_jobs (db w))" "unique_key ob_id (outbox_messages (db w))"
    using ok by (simp_all add: world_ok_def db_ok_def constraint_defs)
  obtain r' where "row_at pj_id (processing_jobs (db w')) j = Some r'" "job_continues r r'"
    using continues_rowD(2) [OF c] row_at_unique [OF u(1) r(1)] r(2) by blast
  moreover obtain m' where "row_at ob_id (outbox_messages (db w')) (ob_id m) = Some m'" "outbox_continues m m'"
    using continues_rowD(3) [OF c] row_at_unique [OF u(2) m(1)] by blast
  ultimately show ?thesis
    using r m by (auto simp: responsible_def job_continues_def outbox_continues_def dest!: row_at_Some_in)
qed

end
