(* ===== verification/Outbox.thy ===== *)
theory Outbox
  imports Acceptance
begin

text \<open>
  \<open>api/outbox_publisher.go\<close> and \<open>api/outbox_publisher_loop.go\<close>: taking the next outbox message,
  publishing it, recording the outcome, and the loop that keeps a broker publisher open. The broker
  publisher and the context are an environment; the calls are kept in order as events.
\<close>

section \<open>Publishing one message\<close>

definition outboxPublishFailureCode :: string where
  "outboxPublishFailureCode = ''broker_publish_failed''"

text \<open>The interface \<open>outboxPublisherStore\<close>.\<close>

record 's outbox_store =
  BeginOutboxPublishAttempt :: "'s \<Rightarrow> outbox_message result \<times> 's"
  MarkOutboxPublished :: "int64 \<Rightarrow> 's \<Rightarrow> go_error option \<times> 's"
  RecordOutboxPublishFailure :: "int64 \<Rightarrow> string \<Rightarrow> 's \<Rightarrow> go_error option \<times> 's"

datatype outbox_event =
    PublisherOpened bool
  | Tried outbox_message "go_error option"
  | Marked int64 "go_error option"
  | FailureRecorded int64 string "go_error option"
  | PublisherClosed

text \<open>Whether there was a message, the error, the calls.\<close>

definition publish_next_outbox_message ::
  "'s outbox_store \<Rightarrow> (outbox_message \<Rightarrow> go_error option) \<Rightarrow> 's
     \<Rightarrow> (bool \<times> go_error option) \<times> outbox_event list \<times> 's" where
  "publish_next_outbox_message store publish s =
     (case BeginOutboxPublishAttempt store s of
        (Inl err, s1) \<Rightarrow>
          (if errors_is err ErrNoOutboxMessage then ((False, None), [], s1)
           else ((False, Some (Wrap ''begin outbox publish attempt'' err)), [], s1))
      | (Inr message, s1) \<Rightarrow>
     (case publish message of
        Some err \<Rightarrow>
          (let publish_err = Wrap ''publish outbox message'' (Joined [Sentinel ErrBrokerPublish, err]) in
           (case RecordOutboxPublishFailure store (om_ID message) outboxPublishFailureCode s1 of
              (Some record_err, s2) \<Rightarrow>
                ((True, errors_join [Some publish_err, Some (Wrap ''record outbox publish failure'' record_err)]),
                 [Tried message (Some err), FailureRecorded (om_ID message) outboxPublishFailureCode (Some record_err)],
                 s2)
            | (None, s2) \<Rightarrow>
                ((True, Some publish_err),
                 [Tried message (Some err), FailureRecorded (om_ID message) outboxPublishFailureCode None], s2)))
      | None \<Rightarrow>
          (case MarkOutboxPublished store (om_ID message) s1 of
             (Some err, s2) \<Rightarrow>
               ((True, Some (Wrap ''mark outbox message published'' err)),
                [Tried message None, Marked (om_ID message) (Some err)], s2)
           | (None, s2) \<Rightarrow> ((True, None), [Tried message None, Marked (om_ID message) None], s2))))"

section \<open>The loop\<close>

definition wait_for_publisher_delay :: "wait_event \<Rightarrow> duration \<Rightarrow> bool" where
  "wait_for_publisher_delay ev delay =
     (if delay \<le> 0 then (case ev of ContextDone \<Rightarrow> False | _ \<Rightarrow> True)
      else (case ev of ContextDone \<Rightarrow> False | DelayElapsed \<Rightarrow> True))"

text \<open>
  One iteration's environment: whether the context is done at the top, what \<open>newPublisher\<close> answers if
  it is called, what the publisher's \<open>Publish\<close> answers, what its \<open>Close\<close> answers if it is closed, and
  how the wait ends. When the turns run out the loop is in its next iteration.
\<close>

record publisher_turn =
  pt_ctx_err :: bool
  pt_new :: "unit result"
  pt_publish :: "outbox_message \<Rightarrow> go_error option"
  pt_close :: "go_error option"
  pt_wait :: wait_event

definition close_publisher :: "bool \<Rightarrow> go_error option \<Rightarrow> go_error option \<times> outbox_event list" where
  "close_publisher publisher close_err =
     (if \<not> publisher then (None, [])
      else (map_option (Wrap ''close outbox broker publisher'') close_err, [PublisherClosed]))"

text \<open>The boolean is \<open>publisher != nil\<close>.\<close>

fun run_outbox_publisher ::
  "'s outbox_store \<Rightarrow> duration \<Rightarrow> duration \<Rightarrow> duration \<Rightarrow> publisher_turn list \<Rightarrow> bool \<Rightarrow> 's
     \<Rightarrow> loop_outcome \<times> outbox_event list \<times> 's" where
  "run_outbox_publisher store reconnect idle_poll store_retry [] publisher s = (Waiting, [], s)"
| "run_outbox_publisher store reconnect idle_poll store_retry (t # ts) publisher s =
     (if pt_ctx_err t then
        (case close_publisher publisher (pt_close t) of (err, events) \<Rightarrow> (Returned err, events, s))
      else if \<not> publisher \<and> \<not> is_ok (pt_new t) then
        (if \<not> wait_for_publisher_delay (pt_wait t) reconnect then
           (Returned None, [PublisherOpened False], s)
         else
           (case run_outbox_publisher store reconnect idle_poll store_retry ts False s of
              (out, events', s') \<Rightarrow> (out, [PublisherOpened False] @ events', s')))
      else
        (let opened = (if publisher then [] else [PublisherOpened True]) in
         (case publish_next_outbox_message store (pt_publish t) s of
            ((processed, Some err), events, s1) \<Rightarrow>
              (if errors_is err ErrBrokerPublish then
                 (let closed = snd (close_publisher True (pt_close t)) in
                  if \<not> wait_for_publisher_delay (pt_wait t) reconnect then
                    (Returned None, opened @ events @ closed, s1)
                  else
                    (case run_outbox_publisher store reconnect idle_poll store_retry ts False s1 of
                       (out, events', s') \<Rightarrow> (out, opened @ events @ closed @ events', s')))
               else if \<not> wait_for_publisher_delay (pt_wait t) store_retry then
                 (case close_publisher True (pt_close t) of
                    (cerr, closed) \<Rightarrow> (Returned cerr, opened @ events @ closed, s1))
               else
                 (case run_outbox_publisher store reconnect idle_poll store_retry ts True s1 of
                    (out, events', s') \<Rightarrow> (out, opened @ events @ events', s')))
          | ((processed, None), events, s1) \<Rightarrow>
              (if \<not> processed \<and> \<not> wait_for_publisher_delay (pt_wait t) idle_poll then
                 (case close_publisher True (pt_close t) of
                    (cerr, closed) \<Rightarrow> (Returned cerr, opened @ events @ closed, s1))
               else
                 (case run_outbox_publisher store reconnect idle_poll store_retry ts True s1 of
                    (out, events', s') \<Rightarrow> (out, opened @ events @ events', s'))))))"

section \<open>The publication protocol\<close>

text \<open>
  A message is tried only on an open publisher; it is marked published directly after the broker
  confirmed it, and no other is; after a refusal the failure is recorded for it and the publisher is
  closed before anything else is tried; the publisher is closed when the loop returns.
\<close>

datatype publication_phase = NoPublisher | Idle | Confirmed int64 | Refused int64 | Broken

fun publication_step :: "publication_phase \<Rightarrow> outbox_event \<Rightarrow> publication_phase option" where
  "publication_step NoPublisher (PublisherOpened ok) = Some (if ok then Idle else NoPublisher)"
| "publication_step Idle (Tried m None) = Some (Confirmed (om_ID m))"
| "publication_step Idle (Tried m (Some err)) = Some (Refused (om_ID m))"
| "publication_step (Confirmed k) (Marked k' err) = (if k' = k then Some Idle else None)"
| "publication_step (Refused k) (FailureRecorded k' code err) =
     (if k' = k \<and> code = outboxPublishFailureCode then Some Broken else None)"
| "publication_step Broken PublisherClosed = Some NoPublisher"
| "publication_step Idle PublisherClosed = Some NoPublisher"
| "publication_step _ _ = None"

fun publication_phases :: "publication_phase \<Rightarrow> outbox_event list \<Rightarrow> publication_phase option" where
  "publication_phases p [] = Some p"
| "publication_phases p (e # es) =
     (case publication_step p e of None \<Rightarrow> None | Some p' \<Rightarrow> publication_phases p' es)"

lemma publication_phases_append:
  "publication_phases p (es @ es') =
     (case publication_phases p es of None \<Rightarrow> None | Some p' \<Rightarrow> publication_phases p' es')"
  by (induction es arbitrary: p) (auto split: option.split)

lemma publish_next_phases:
  assumes "publish_next_outbox_message store publish s = ((processed, err), events, s')"
  shows "publication_phases Idle events = Some Idle
    \<or> publication_phases Idle events = Some Broken \<and> (\<exists>e. err = Some e \<and> errors_is e ErrBrokerPublish)"
  using assms
  by (auto simp: publish_next_outbox_message_def Let_def split: sum.splits option.splits prod.splits if_splits)

definition open_phase :: "bool \<Rightarrow> publication_phase" where
  "open_phase publisher = (if publisher then Idle else NoPublisher)"

lemma close_publisher_phases:
  "publication_phases (open_phase publisher) (snd (close_publisher publisher cerr)) = Some NoPublisher"
  "publication_phases Idle (snd (close_publisher True cerr)) = Some NoPublisher"
  "publication_phases Broken (snd (close_publisher True cerr)) = Some NoPublisher"
  by (simp_all add: close_publisher_def open_phase_def)

lemma run_outbox_publisher_phases:
  "run_outbox_publisher store reconnect idle_poll store_retry ts publisher s = (out, events, s') \<Longrightarrow>
     publication_phases (open_phase publisher) events =
       Some (case out of Returned _ \<Rightarrow> NoPublisher | Waiting \<Rightarrow> NoPublisher)
     \<or> out = Waiting \<and> publication_phases (open_phase publisher) events = Some Idle"
proof (induction ts arbitrary: publisher s out events s')
  case Nil
  then show ?case by (auto simp: open_phase_def)
next
  case (Cons t ts)
  show ?case
  proof (cases "pt_ctx_err t \<or> \<not> publisher \<and> \<not> is_ok (pt_new t)")
    case True
    obtain out2 ev2 s2 where rec:
      "run_outbox_publisher store reconnect idle_poll store_retry ts False s = (out2, ev2, s2)"
      by (metis prod_cases3)
    from Cons.IH [OF rec] Cons.prems rec True close_publisher_phases(1) [of publisher "pt_close t"]
    show ?thesis by (auto simp: open_phase_def split: if_splits prod.splits loop_outcome.splits)
  next
    case False
    let ?opened = "if publisher then [] else [PublisherOpened True]"
    obtain processed err ev1 s1 where
      p: "publish_next_outbox_message store (pt_publish t) s = ((processed, err), ev1, s1)"
      by (metis prod_cases4 surj_pair)
    have opened: "publication_phases (open_phase publisher) ?opened = Some Idle" by (simp add: open_phase_def)
    obtain out2 ev2 s2 where rec2:
      "run_outbox_publisher store reconnect idle_poll store_retry ts True s1 = (out2, ev2, s2)"
      by (metis prod_cases3)
    obtain out3 ev3 s3 where rec3:
      "run_outbox_publisher store reconnect idle_poll store_retry ts False s1 = (out3, ev3, s3)"
      by (metis prod_cases3)
    obtain cerr closed where c: "close_publisher True (pt_close t) = (cerr, closed)" by (metis surj_pair)
    note c2 = close_publisher_phases(2,3) [of "pt_close t", unfolded c, simplified]
    note ih = Cons.IH [OF rec2] Cons.IH [OF rec3]
    note run = Cons.prems [unfolded run_outbox_publisher.simps]
    from publish_next_phases [OF p] show ?thesis
    proof
      assume "publication_phases Idle ev1 = Some Idle"
      with run False p opened rec2 rec3 c c2 ih show ?thesis
        by (cases err)
           (auto simp: publication_phases_append open_phase_def Let_def
                 split: if_splits loop_outcome.splits)
    next
      assume "publication_phases Idle ev1 = Some Broken \<and> (\<exists>e. err = Some e \<and> errors_is e ErrBrokerPublish)"
      with run False p opened rec2 rec3 c c2 ih show ?thesis
        by (auto simp: publication_phases_append open_phase_def Let_def
                 split: if_splits loop_outcome.splits)
    qed
  qed
qed

section \<open>Published means confirmed\<close>

text \<open>The messages a publisher confirmed in a run.\<close>

definition confirmed :: "outbox_event list \<Rightarrow> int64 set" where
  "confirmed events = {om_ID m |m. Tried m None \<in> set events}"

lemma confirmed_simps [simp]:
  "confirmed [] = {}"
  "confirmed (es @ es') = confirmed es \<union> confirmed es'"
  "confirmed (PublisherOpened ok # es) = confirmed es"
  "confirmed (PublisherClosed # es) = confirmed es"
  "confirmed (Marked k r # es) = confirmed es"
  "confirmed (FailureRecorded k c r # es) = confirmed es"
  "confirmed (Tried m None # es) = insert (om_ID m) (confirmed es)"
  "confirmed (Tried m (Some err) # es) = confirmed es"
  by (auto simp: confirmed_def)

lemma confirmed_close [simp]: "close_publisher publisher cerr = (err, events) \<Longrightarrow> confirmed events = {}"
  by (auto simp: close_publisher_def split: if_splits)

text \<open>
  What the publisher relies on in its store. \<open>within K s\<close> says that at most the messages of \<open>K\<close> have become
  published by state \<open>s\<close>: taking a message and recording a failure publish nothing, marking publishes at
  most the message it names.
\<close>

locale outbox_contract =
  fixes store :: "'s outbox_store" and within :: "int64 set \<Rightarrow> 's \<Rightarrow> bool"
  assumes begin_keeps: "within K s \<Longrightarrow> BeginOutboxPublishAttempt store s = (r, s') \<Longrightarrow> within K s'"
    and record_keeps: "within K s \<Longrightarrow> RecordOutboxPublishFailure store k code s = (e, s') \<Longrightarrow> within K s'"
    and mark_adds: "within K s \<Longrightarrow> MarkOutboxPublished store k s = (e, s') \<Longrightarrow> within (insert k K) s'"
begin

lemma publish_next_within:
  assumes w: "within K s" and p: "publish_next_outbox_message store publish s = (r, events, s')"
  shows "within (K \<union> confirmed events) s'"
proof -
  obtain r1 s1 where b: "BeginOutboxPublishAttempt store s = (r1, s1)" by (metis surj_pair)
  note s1 = begin_keeps [OF w b]
  show ?thesis
  proof (cases r1)
    case (Inl e)
    with p b s1 show ?thesis by (auto simp: publish_next_outbox_message_def split: if_splits)
  next
    case (Inr m)
    obtain e2 s2 where f: "RecordOutboxPublishFailure store (om_ID m) outboxPublishFailureCode s1 = (e2, s2)"
      by (metis surj_pair)
    obtain e3 s3 where d: "MarkOutboxPublished store (om_ID m) s1 = (e3, s3)" by (metis surj_pair)
    from p b Inr f d record_keeps [OF s1 f] mark_adds [OF s1 d] show ?thesis
      by (cases "publish m"; cases e2; cases e3)
         (auto simp: publish_next_outbox_message_def Let_def)
  qed
qed

lemma run_within:
  "run_outbox_publisher store reconnect idle_poll store_retry ts publisher s = (out, events, s') \<Longrightarrow>
     within K s \<Longrightarrow> within (K \<union> confirmed events) s'"
proof (induction ts arbitrary: publisher K s out events s')
  case Nil
  then show ?case by simp
next
  case (Cons t ts)
  show ?case
  proof (cases "pt_ctx_err t \<or> \<not> publisher \<and> \<not> is_ok (pt_new t)")
    case True
    obtain out2 ev2 s2 where rec:
      "run_outbox_publisher store reconnect idle_poll store_retry ts False s = (out2, ev2, s2)"
      by (metis prod_cases3)
    from Cons.IH [OF rec] Cons.prems rec True show ?thesis by (auto split: if_splits prod.splits)
  next
    case False
    obtain processed err ev1 s1 where
      p: "publish_next_outbox_message store (pt_publish t) s = ((processed, err), ev1, s1)"
      by (metis prod_cases4 surj_pair)
    note one = publish_next_within [OF Cons.prems(2) p]
    obtain out2 ev2 s2 where rec2:
      "run_outbox_publisher store reconnect idle_poll store_retry ts True s1 = (out2, ev2, s2)"
      by (metis prod_cases3)
    obtain out3 ev3 s3 where rec3:
      "run_outbox_publisher store reconnect idle_poll store_retry ts False s1 = (out3, ev3, s3)"
      by (metis prod_cases3)
    obtain cerr closed where c: "close_publisher True (pt_close t) = (cerr, closed)" by (metis surj_pair)
    note ih = Cons.IH [OF rec2 one] Cons.IH [OF rec3 one]
    from Cons.prems(1) [unfolded run_outbox_publisher.simps] False p rec2 rec3 c one ih
    show ?thesis by (cases err) (auto simp: Let_def c confirmed_close [OF c] Un_assoc split: if_splits)
  qed
qed

end

section \<open>The PostgreSQL store\<close>

text \<open>
  The API's store as the publisher sees it. \<open>locked w\<close> are the rows that other sessions hold when a
  message is taken in world \<open>w\<close>.
\<close>

definition postgres_outbox_store ::
  "(json \<Rightarrow> bytes) \<Rightarrow> (world \<Rightarrow> int64 \<Rightarrow> bool) \<Rightarrow> world outbox_store" where
  "postgres_outbox_store jsonb_text locked =
     \<lparr>BeginOutboxPublishAttempt = (\<lambda>w. begin_outbox_publish_attempt jsonb_text (locked w) w),
      MarkOutboxPublished = mark_outbox_published,
      RecordOutboxPublishFailure = record_outbox_publish_failure\<rparr>"

text \<open>Only messages of \<open>P\<close> become published.\<close>

definition publishes_only :: "int64 set \<Rightarrow> database \<Rightarrow> database \<Rightarrow> bool" where
  "publishes_only P d d' =
     (\<forall>m' \<in> set (outbox_messages d'). \<not> unpublished m' \<longrightarrow> ob_id m' \<in> P
        \<or> (\<exists>m \<in> set (outbox_messages d). ob_id m = ob_id m' \<and> \<not> unpublished m))"

lemma publishes_only_refl [simp]: "publishes_only P d d"
  by (auto simp: publishes_only_def)

lemma publishes_only_UNIV [simp]: "publishes_only UNIV d d'"
  by (simp add: publishes_only_def)

lemma publishes_only_trans: "publishes_only P a b \<Longrightarrow> publishes_only P b c \<Longrightarrow> publishes_only P a c"
  unfolding publishes_only_def by metis

lemma publishes_only_mono: "publishes_only P d d' \<Longrightarrow> P \<subseteq> Q \<Longrightarrow> publishes_only Q d d'"
  unfolding publishes_only_def by blast

lemma publishes_only_update:
  assumes "\<And>r. g r \<Longrightarrow> ob_id (f r) = ob_id r \<and> (unpublished (f r) = unpublished r \<or> ob_id r \<in> P)"
  shows "publishes_only P d (d\<lparr>outbox_messages := update_where g f (outbox_messages d)\<rparr>)"
  using assms by (fastforce simp: publishes_only_def set_update_where split: if_splits)

definition published_in :: "world \<Rightarrow> int64 \<Rightarrow> bool" where
  "published_in w k = (\<exists>r \<in> set (outbox_messages (db w)). ob_id r = k \<and> \<not> unpublished r)"

lemma publishes_onlyD: "publishes_only P (db w) (db w') \<Longrightarrow> published_in w' k \<Longrightarrow> published_in w k \<or> k \<in> P"
  unfolding publishes_only_def published_in_def by blast

text \<open>The other sessions publish at most the messages of \<open>P\<close>.\<close>

definition turn_publishes :: "int64 set \<Rightarrow> turn \<Rightarrow> bool" where
  "turn_publishes P t = (\<forall>d sq d' sq'. others t (d, sq) = (d', sq') \<longrightarrow> publishes_only P d d')"

definition others_publish :: "int64 set \<Rightarrow> world \<Rightarrow> bool" where
  "others_publish P w = (\<forall>t \<in> set (turns w). turn_publishes P t)"

lemma turn_publishes_id: "others t = id \<Longrightarrow> turn_publishes P t"
  by (auto simp: turn_publishes_def)

lemma isolated_publish: "isolated w \<Longrightarrow> others_publish P w"
  by (simp add: isolated_def others_publish_def turn_publishes_id)

lemma arrive_publishes:
  assumes "others_publish P w"
  shows "publishes_only P (db w) (db (arrive w))"
proof -
  have "turn_publishes P (next_turn w)"
    using assms turn_publishes_id [of quiet_turn] by (auto simp: others_publish_def next_turn_def quiet_turn_def split: list.split)
  moreover obtain d sq where "others (next_turn w) (db w, seqs w) = (d, sq)" by (metis surj_pair)
  ultimately show ?thesis by (auto simp: turn_publishes_def arrive_def)
qed

text \<open>A statement that publishes at most the messages of \<open>Q\<close>.\<close>

definition stmt_publishes :: "int64 set \<Rightarrow> 'a stmt \<Rightarrow> bool" where
  "stmt_publishes Q st = (\<forall>now d sq v eff sq'. st now d sq = (Inr v, eff, sq') \<longrightarrow> publishes_only Q d (eff d))"

lemma publisher_rows_unpublished [simp]:
  "unpublished (attempt_row r) = unpublished r" "unpublished (publish_failure_row c r) = unpublished r"
  "ob_id (attempt_row r) = ob_id r" "ob_id (publish_failure_row c r) = ob_id r" "ob_id (published_row now r) = ob_id r"
  by (simp_all add: unpublished_def attempt_row_def publish_failure_row_def published_row_def)

lemma stmt_publishes_simps [simp]:
  "stmt_publishes Q (begin_attempt_stmt locked)" "stmt_publishes Q (publish_failure_stmt k c)"
  "stmt_publishes (insert k Q) (mark_published_stmt k)"
  unfolding stmt_publishes_def
  by (auto simp: begin_attempt_stmt_def publish_failure_stmt_def mark_published_stmt_def unpublished_message_def
      split: option.splits intro!: publishes_only_update)

text \<open>From a first world, among sessions that publish at most \<open>P\<close>: beyond that, at most \<open>K\<close> is published.\<close>

definition published_within :: "int64 set \<Rightarrow> world \<Rightarrow> int64 set \<Rightarrow> world \<Rightarrow> bool" where
  "published_within P w0 K w = (others_publish P w \<and> publishes_only (P \<union> K) (db w0) (db w))"

lemma published_within_refl: "others_publish P w \<Longrightarrow> published_within P w K w"
  by (simp add: published_within_def)

lemma exec_auto_within:
  assumes "published_within P w0 K w" and e: "exec_auto st w = (r, w')" and own: "stmt_publishes (P \<union> K') st"
    and K: "K \<subseteq> K'"
  shows "published_within P w0 K' w'"
proof -
  have o: "others_publish P w" and p: "publishes_only (P \<union> K') (db w0) (db w)"
    using assms(1) K by (auto simp: published_within_def intro: publishes_only_mono)
  have t: "turns w' = tl (turns w)" using e by (auto simp: exec_auto_def Let_def split: if_splits prod.splits)
  then have "others_publish P w'" using o by (auto simp: others_publish_def dest: in_set_tl)
  moreover have "db w' = db (arrive w) \<or>
      (\<exists>v eff sq'. st (clock (next_turn w)) (db (arrive w)) (seqs (arrive w)) = (Inr v, eff, sq') \<and> db w' = eff (db (arrive w)))"
    using e by (auto simp: exec_auto_def Let_def run_stmt_def split: if_splits prod.splits sum.splits)
  then have "publishes_only (P \<union> K') (db (arrive w)) (db w')"
    using own unfolding stmt_publishes_def by (metis publishes_only_refl)
  ultimately show ?thesis
    using publishes_only_trans [OF publishes_only_trans [OF p publishes_only_mono [OF arrive_publishes [OF o]]]]
    by (simp add: published_within_def)
qed

interpretation pg_outbox: outbox_contract "postgres_outbox_store jt locked" "published_within P w0" for jt locked P w0
proof
  fix K s s'
  show "published_within P w0 K s'" if "published_within P w0 K s"
      "BeginOutboxPublishAttempt (postgres_outbox_store jt locked) s = (r, s')" for r
    using that
    by (auto simp: postgres_outbox_store_def begin_outbox_publish_attempt_def
        split: prod.splits sum.splits if_splits intro: exec_auto_within [where K = K])
  show "published_within P w0 K s'" if "published_within P w0 K s"
      "RecordOutboxPublishFailure (postgres_outbox_store jt locked) k code s = (e, s')" for k code e
    using that
    by (auto simp: postgres_outbox_store_def record_outbox_publish_failure_def
        split: prod.splits sum.splits if_splits intro: exec_auto_within [where K = K])
  show "published_within P w0 (insert k K) s'" if "published_within P w0 K s"
      "MarkOutboxPublished (postgres_outbox_store jt locked) k s = (e, s')" for k e
    using that
    by (auto simp: postgres_outbox_store_def mark_outbox_published_def
        split: prod.splits sum.splits if_splits intro: exec_auto_within [where K = K])
qed

text \<open>What is published after a run was published before, is of \<open>P\<close>, or was confirmed.\<close>

lemma publish_next_published:
  "publish_next_outbox_message (postgres_outbox_store jt locked) publish w = (r, events, w') \<Longrightarrow> others_publish P w \<Longrightarrow>
     published_in w' k \<Longrightarrow> published_in w k \<or> k \<in> P \<or> k \<in> confirmed events"
  by (drule pg_outbox.publish_next_within [OF published_within_refl [where K = "{}"]])
     (auto simp: published_within_def dest: publishes_onlyD)

lemma run_outbox_publisher_published:
  "run_outbox_publisher (postgres_outbox_store jt locked) reconnect idle_poll store_retry ts publisher w
     = (out, events, w') \<Longrightarrow> others_publish P w \<Longrightarrow>
     published_in w' k \<Longrightarrow> published_in w k \<or> k \<in> P \<or> k \<in> confirmed events"
  by (drule pg_outbox.run_within [OF _ published_within_refl [where K = "{}"]])
     (auto simp: published_within_def dest: publishes_onlyD)

section \<open>Every run of the publisher keeps the database\<close>

interpretation pg_outbox_keeps: outbox_contract "postgres_outbox_store jt locked" "\<lambda>_. evolves w0" for jt locked w0
  by unfold_locales
     (auto simp: postgres_outbox_store_def
           dest!: begin_outbox_publish_attempt_evolves mark_outbox_published_evolves
             record_outbox_publish_failure_evolves intro: evolves_trans)

lemma publish_next_evolves:
  "publish_next_outbox_message (postgres_outbox_store jt locked) publish w = (r, events, w') \<Longrightarrow> evolves w w'"
  by (rule pg_outbox_keeps.publish_next_within [OF evolves_refl])

lemma run_outbox_publisher_evolves:
  "run_outbox_publisher (postgres_outbox_store jt locked) reconnect idle_poll store_retry ts publisher w
     = (out, events, w') \<Longrightarrow> evolves w w'"
  by (erule pg_outbox_keeps.run_within) simp

end
