(* ===== verification/Application.thy ===== *)
theory Application
  imports Http Outbox RuntimeConfig
begin

text \<open>
  \<open>api/application.go\<close> and the rest of \<open>api/main.go\<close>: the API's start-up, its HTTP server with the
  readiness flag, and the two services run side by side. What the operating system, the listener
  and \<open>net/http\<close> do is an environment; the calls are kept in order as events.
\<close>

section \<open>Constants\<close>

definition readHeaderTimeout :: duration where "readHeaderTimeout = 5 * Second"
definition readTimeout :: duration where "readTimeout = 10 * Second"
definition writeTimeout :: duration where "writeTimeout = 10 * Second"
definition idleTimeout :: duration where "idleTimeout = 60 * Second"
definition shutdownTimeout :: duration where "shutdownTimeout = 10 * Second"
definition outboxPublisherReconnectDelay :: duration where "outboxPublisherReconnectDelay = 1 * Second"
definition outboxPublisherIdlePollDelay :: duration where "outboxPublisherIdlePollDelay = Second div 2"
definition outboxPublisherStoreRetryDelay :: duration where "outboxPublisherStoreRetryDelay = 1 * Second"
definition defaultWorkItemProcessingQueue :: string where
  "defaultWorkItemProcessingQueue = ''work_item_processing''"

section \<open>The HTTP server\<close>

text \<open>The fields of \<open>http.Server\<close> the program sets.\<close>

record 'h http_server =
  sv_Addr :: string
  sv_Handler :: 'h
  sv_ReadHeaderTimeout :: duration
  sv_ReadTimeout :: duration
  sv_WriteTimeout :: duration
  sv_IdleTimeout :: duration

definition new_http_server :: "string \<Rightarrow> 'h \<Rightarrow> 'h http_server" where
  "new_http_server address handler =
     \<lparr>sv_Addr = address, sv_Handler = handler, sv_ReadHeaderTimeout = readHeaderTimeout,
      sv_ReadTimeout = readTimeout, sv_WriteTimeout = writeTimeout, sv_IdleTimeout = idleTimeout\<rparr>"

text \<open>
  What one run of the server meets: the answer of \<open>net.Listen\<close>, whether the \<open>select\<close> takes the done
  context or the end of \<open>Serve\<close>, the error \<open>Serve\<close> returns, the answer of \<open>Shutdown\<close>.
\<close>

record server_env =
  se_listen :: "go_error option"
  se_shutdown :: bool
  se_serve :: "go_error option"
  se_Shutdown :: "go_error option"

datatype server_event =
    Listening string bool
  | ReadinessSet bool
  | Serving
  | ShutdownCalled duration
  | ServeEnded
  | ListenerClosed
  | Logged string

text \<open>
  \<open>%w\<close> of a nil error is no wrapped error; the deferred \<open>listener.Close()\<close> is the last event of each
  branch.
\<close>

definition errorf_w :: "string \<Rightarrow> go_error option \<Rightarrow> go_error" where
  "errorf_w m e = (case e of None \<Rightarrow> Opaque m | Some e \<Rightarrow> Wrap m e)"

definition run_http_server ::
  "server_env \<Rightarrow> 'h http_server \<Rightarrow> duration \<Rightarrow> go_error option \<times> server_event list" where
  "run_http_server env server grace_period =
     (case se_listen env of
        Some err \<Rightarrow> (Some (Wrap ''listen HTTP'' err), [Listening (sv_Addr server) False])
      | None \<Rightarrow>
          (let begun = [Listening (sv_Addr server) True, ReadinessSet True, Logged ''readiness changed: ready'', Serving] in
           if \<not> se_shutdown env then
             ((if (case se_serve env of None \<Rightarrow> False | Some e \<Rightarrow> errors_is e HttpErrServerClosed) then None
               else Some (errorf_w ''serve HTTP'' (se_serve env))),
              begun @ [ServeEnded, ReadinessSet False, ListenerClosed])
           else
             (let draining = begun @ [ReadinessSet False, Logged ''readiness changed: not ready'',
                  Logged ''shutdown requested'', ShutdownCalled grace_period] in
              case se_Shutdown env of
                Some err \<Rightarrow> (Some (Wrap ''graceful shutdown'' err), draining @ [ListenerClosed])
              | None \<Rightarrow>
                  (case se_serve env of
                     None \<Rightarrow> (None, draining @ [ServeEnded, Logged ''graceful shutdown complete'', ListenerClosed])
                   | Some err \<Rightarrow>
                       (if \<not> errors_is err HttpErrServerClosed
                        then (Some (Wrap ''serve HTTP after shutdown'' err), draining @ [ServeEnded, ListenerClosed])
                        else (None, draining @ [ServeEnded, Logged ''graceful shutdown complete'', ListenerClosed]))))))"

text \<open>What \<open>readiness.isReady()\<close> reads after these events; the flag starts out false.\<close>

definition ready_after :: "server_event list \<Rightarrow> bool" where
  "ready_after events =
     fold (\<lambda>e flag. case e of ReadinessSet v \<Rightarrow> v | _ \<Rightarrow> flag) events False"

section \<open>Two services\<close>

text \<open>
  \<open>runApplication\<close>: \<open>http_first\<close> says which service's result comes first, \<open>parent_done\<close> whether the
  parent context is done when that result is judged. The other service is cancelled and awaited, so
  both results are there.
\<close>

definition run_application ::
  "bool \<Rightarrow> bool \<Rightarrow> go_error option \<Rightarrow> go_error option \<Rightarrow> go_error option" where
  "run_application http_first parent_done http_err publisher_err =
     (let http = (''HTTP server'', http_err); publisher = (''outbox publisher'', publisher_err);
          (first_name, first_result) = (if http_first then http else publisher);
          (second_name, second_result) = (if http_first then publisher else http);
          first_err =
            (case first_result of
               Some err \<Rightarrow>
                 (if \<not> (parent_done \<and> errors_is err ContextCanceled) then Some (Wrap first_name err) else None)
             | None \<Rightarrow>
                 (if \<not> parent_done then Some (Opaque (first_name @ '' stopped unexpectedly'')) else None));
          second_err =
            (case second_result of
               Some err \<Rightarrow> (if \<not> errors_is err ContextCanceled then Some (Wrap second_name err) else None)
             | None \<Rightarrow> None) in
      errors_join [first_err, second_err])"

section \<open>Start-up\<close>

record api_config =
  ac_Address :: string
  ac_DatabaseURL :: string
  ac_RabbitMQPublisherURL :: string
  ac_RabbitMQQueue :: string

definition load_api_config ::
  "(string \<Rightarrow> string) \<Rightarrow> (string \<Rightarrow> bytes result) \<Rightarrow> api_config result" where
  "load_api_config lookup read_file =
     (let port = (if lookup ''PORT'' = [] then ''8080'' else lookup ''PORT'') in
      (case Value lookup read_file ''DATABASE_URL'' of
         Inl err \<Rightarrow> Inl err
       | Inr database_url \<Rightarrow>
      (case Value lookup read_file ''RABBITMQ_PUBLISHER_URL'' of
         Inl err \<Rightarrow> Inl err
       | Inr publisher_url \<Rightarrow>
      (let queue = lookup ''RABBITMQ_QUEUE'' in
       Inr \<lparr>ac_Address = '':'' @ port, ac_DatabaseURL = database_url, ac_RabbitMQPublisherURL = publisher_url,
            ac_RabbitMQQueue = (if queue = [] then defaultWorkItemProcessingQueue else queue)\<rparr>))))"

text \<open>\<open>newPostgresStore\<close>: parsing the URL and creating the pool are pgxpool's; there is no ping.\<close>

definition new_postgres_store ::
  "(string \<Rightarrow> 'cfg result) \<Rightarrow> ('cfg \<Rightarrow> 'pool result) \<Rightarrow> string \<Rightarrow> world application_store result" where
  "new_postgres_store parse_config new_pool database_url =
     (case parse_config database_url of
        Inl err \<Rightarrow> Inl (Wrap ''parse database configuration'' err)
      | Inr config \<Rightarrow>
     (case new_pool config of
        Inl err \<Rightarrow> Inl (Wrap ''create PostgreSQL pool'' err)
      | Inr pool \<Rightarrow> Inr postgres_store))"

text \<open>
  \<open>main\<close> up to the services: configuration, authentication, store, server. The handler is a function of
  what \<open>readiness.isReady()\<close> reads; it is \<open>None\<close> where a registration would panic.
\<close>

type_synonym ('v, 's) api_handler = "bool \<Rightarrow> ('v option \<times> 's) mux option"

definition api_start ::
  "string \<Rightarrow> (string \<Rightarrow> string) \<Rightarrow> (string \<Rightarrow> bytes result) \<Rightarrow> authn_config result \<Rightarrow> (authn_config \<Rightarrow> 'v result)
     \<Rightarrow> (string \<Rightarrow> 'v option \<Rightarrow> verdict \<times> 'v option) \<Rightarrow> (string \<Rightarrow> 's application_store result)
     \<Rightarrow> (api_config \<times> ('v, 's) api_handler http_server \<times> 'v option) result" where
  "api_start version lookup read_file auth_config new_v validate_token new_store =
     (case load_api_config lookup read_file of
        Inl err \<Rightarrow> Inl err
      | Inr config \<Rightarrow>
     (case authentication_from_environment auth_config new_v validate_token of
        Inl err \<Rightarrow> Inl err
      | Inr (authenticate, v) \<Rightarrow>
     (case new_store (ac_DatabaseURL config) of
        Inl err \<Rightarrow> Inl (Wrap ''initialize PostgreSQL store'' err)
      | Inr store \<Rightarrow>
          Inr (config,
               new_http_server (ac_Address config)
                 (\<lambda>is_ready. new_application_handler version is_ready store authenticate),
               v))))"

text \<open>
  The services of a started API: the HTTP server, and the outbox publisher on its own state \<open>s\<close>; the
  sessions of the requests the server handles are among the other sessions the publisher meets. While
  the publisher waits for its next turn the application has not returned.
\<close>

definition run_api ::
  "server_env \<Rightarrow> bool \<Rightarrow> bool \<Rightarrow> 'h http_server \<Rightarrow> 's outbox_store \<Rightarrow> publisher_turn list \<Rightarrow> 's
     \<Rightarrow> loop_outcome \<times> server_event list \<times> outbox_event list \<times> 's" where
  "run_api env http_first parent_done server store ts s =
     (case run_http_server env server shutdownTimeout of (http_err, http_events) \<Rightarrow>
      (case run_outbox_publisher store outboxPublisherReconnectDelay outboxPublisherIdlePollDelay
              outboxPublisherStoreRetryDelay ts False s of
         (Waiting, events, s') \<Rightarrow> (Waiting, http_events, events, s')
       | (Returned publisher_err, events, s') \<Rightarrow>
           (Returned (map_option (Wrap ''application stopped'')
              (run_application http_first parent_done http_err publisher_err)), http_events, events, s')))"

section \<open>The readiness flag over a run\<close>

lemma ready_after_simps [simp]:
  "ready_after [] = False"
  "ready_after (es @ [e]) = (case e of ReadinessSet v \<Rightarrow> v | _ \<Rightarrow> ready_after es)"
  by (simp_all add: ready_after_def split: server_event.split)

text \<open>The flag is down from the start of the graceful shutdown on, and when the server returns.\<close>

lemma run_http_server_ready:
  assumes "run_http_server env server grace = (err, before @ after)"
    and "after = [] \<or> hd after \<in> {ShutdownCalled grace, ListenerClosed} \<or> ShutdownCalled grace \<in> set before"
  shows "\<not> ready_after before"
  using assms
  by (auto simp: run_http_server_def Let_def ready_after_def append_eq_Cons_conv Cons_eq_append_conv
      split: option.splits if_splits)

section \<open>When the services end\<close>

definition ended_cleanly :: "go_error option \<Rightarrow> bool" where
  "ended_cleanly r = (case r of None \<Rightarrow> True | Some e \<Rightarrow> errors_is e ContextCanceled)"

lemma run_application_None:
  "run_application http_first parent_done http_err publisher_err = None \<longleftrightarrow>
     parent_done \<and> ended_cleanly http_err \<and> ended_cleanly publisher_err"
  by (auto simp: run_application_def Let_def ended_cleanly_def split: option.splits if_splits)

text \<open>The publisher's loop returns in the turn that finds its context done, at the latest.\<close>

lemma run_outbox_publisher_stops:
  assumes "\<exists>t \<in> set ts. pt_ctx_err t"
  shows "\<exists>err events s'. run_outbox_publisher store a b c ts publisher s = (Returned err, events, s')"
  using assms
proof (induction ts arbitrary: publisher s)
  case Nil
  then show ?case by simp
next
  case (Cons t ts)
  show ?case
  proof (cases "pt_ctx_err t")
    case True
    then show ?thesis by (simp split: prod.split)
  next
    case False
    then have later: "\<exists>err events s'. run_outbox_publisher store a b c ts p u = (Returned err, events, s')" for p u
      using Cons by auto
    obtain processed err events s1 where
      "publish_next_outbox_message store (pt_publish t) s = ((processed, err), events, s1)"
      by (metis surj_pair)
    with False later [of False s] later [of False s1] later [of True s1] show ?thesis
      by (cases err) (auto simp: Let_def split: prod.splits)
  qed
qed

end
