(* ===== verification/RabbitPublisher.thy ===== *)
theory RabbitPublisher
  imports Outbox
begin

text \<open>
  \<open>api/rabbitmq_publisher.go\<close>: the broker publisher. The AMQP library and the broker answer each call;
  a publication counts as done only when it was confirmed and not returned.
\<close>

section \<open>Publishing\<close>

text \<open>\<open>amqp.Publishing\<close>, the fields the code sets, and the publication with its routing.\<close>

record publishing =
  pg_ContentType :: string
  pg_DeliveryMode :: int
  pg_MessageId :: string
  pg_CorrelationId :: string
  pg_Type :: string
  pg_Timestamp :: timestamp
  pg_Body :: bytes

definition Persistent :: int where
  "Persistent = 2"

record publication =
  pn_exchange :: string
  pn_key :: string
  pn_mandatory :: bool
  pn_immediate :: bool
  pn_msg :: publishing

text \<open>
  What the library answers: to the publish call (a confirmation, none, or an error), to the wait for
  the confirmation, and what the return channel holds then.
\<close>

datatype return_poll = NothingReturned | ReturnedMessage | ReturnChannelClosed

record broker_answers =
  ba_publish :: "bool result"
  ba_wait :: "bool result"
  ba_returns :: return_poll

definition publication_of :: "string \<Rightarrow> timestamp \<Rightarrow> outbox_message \<Rightarrow> publication" where
  "publication_of queue_name now message =
     \<lparr>pn_exchange = [], pn_key = queue_name, pn_mandatory = True, pn_immediate = False,
      pn_msg =
        \<lparr>pg_ContentType = ''application/json'', pg_DeliveryMode = Persistent,
         pg_MessageId = format_int (om_ID message),
         pg_CorrelationId = format_int (om_ProcessingJobID message),
         pg_Type = om_EventType message, pg_Timestamp = now, pg_Body = om_Payload message\<rparr>\<rparr>"

definition Publish ::
  "string \<Rightarrow> timestamp \<Rightarrow> (publication \<Rightarrow> broker_answers) \<Rightarrow> outbox_message \<Rightarrow> go_error option" where
  "Publish queue_name now broker message =
     (let answers = broker (publication_of queue_name now message) in
      (case ba_publish answers of
         Inl err \<Rightarrow> Some (Wrap ''publish RabbitMQ message'' err)
       | Inr confirmation \<Rightarrow>
      if \<not> confirmation then Some (Sentinel ErrRabbitMQConfirmMissing)
      else (case ba_wait answers of
         Inl err \<Rightarrow> Some (Wrap ''wait for RabbitMQ publisher confirm'' err)
       | Inr acked \<Rightarrow>
      (case ba_returns answers of
         ReturnChannelClosed \<Rightarrow> Some (Sentinel ErrRabbitMQReturnChanClosed)
       | ReturnedMessage \<Rightarrow> Some (Wrap ''returned'' (Sentinel ErrRabbitMQPublishReturned))
       | NothingReturned \<Rightarrow>
           (if \<not> acked then Some (Sentinel ErrRabbitMQPublishNacked) else None)))))"

lemma Publish_None_iff:
  "Publish queue_name now broker message = None \<longleftrightarrow>
     (let a = broker (publication_of queue_name now message) in
      ba_publish a = Inr True \<and> ba_wait a = Inr True \<and> ba_returns a = NothingReturned)"
  by (auto simp: Publish_def Let_def split: sum.splits return_poll.splits if_splits)

section \<open>Opening and closing\<close>

text \<open>The library's answers for one connection: opening the channel, confirm mode, the two closes.\<close>

record publisher_connection =
  pc_channel :: "unit result"
  pc_confirm :: "go_error option"
  pc_channel_close :: "go_error option"
  pc_connection_close :: "go_error option"

datatype publisher_call =
    PubDial string bool
  | PubChannel bool
  | PubNotifyReturn nat
  | PubConfirm bool bool
  | PubChannelClose
  | PubConnectionClose

record rabbitmq_publisher =
  rp_connection :: publisher_connection
  rp_queue :: string

definition new_rabbitmq_publisher ::
  "(string \<Rightarrow> publisher_connection result) \<Rightarrow> string \<Rightarrow> string
     \<Rightarrow> rabbitmq_publisher result \<times> publisher_call list" where
  "new_rabbitmq_publisher amqp_dial connection_url queue_name =
     (case amqp_dial connection_url of
        Inl err \<Rightarrow> (Inl (Wrap ''connect to RabbitMQ'' err), [PubDial connection_url False])
      | Inr c \<Rightarrow>
     (case pc_channel c of
        Inl err \<Rightarrow>
          (Inl (Wrap ''open RabbitMQ channel'' err),
           [PubDial connection_url True, PubChannel False, PubConnectionClose])
      | Inr _ \<Rightarrow>
     (case pc_confirm c of
        Some err \<Rightarrow>
          (Inl (Wrap ''enable RabbitMQ publisher confirms'' err),
           [PubDial connection_url True, PubChannel True, PubNotifyReturn 1, PubConfirm False False,
            PubChannelClose, PubConnectionClose])
      | None \<Rightarrow>
          (Inr \<lparr>rp_connection = c, rp_queue = queue_name\<rparr>,
           [PubDial connection_url True, PubChannel True, PubNotifyReturn 1, PubConfirm False True]))))"

definition close_error :: "string \<Rightarrow> go_error option \<Rightarrow> go_error option" where
  "close_error what err =
     (case err of
        None \<Rightarrow> None
      | Some e \<Rightarrow> if errors_is e AmqpErrClosed then None else Some (Wrap what e))"

definition close_rabbitmq_publisher :: "rabbitmq_publisher \<Rightarrow> go_error option \<times> publisher_call list" where
  "close_rabbitmq_publisher p =
     (errors_join [close_error ''close RabbitMQ channel'' (pc_channel_close (rp_connection p)),
                   close_error ''close RabbitMQ connection'' (pc_connection_close (rp_connection p))],
      [PubChannelClose, PubConnectionClose])"

text \<open>
  Confirm mode is on for every publisher handed out, and no connection is left open by a failed
  attempt.
\<close>

lemma new_publisher_calls:
  assumes "new_rabbitmq_publisher amqp_dial url queue = (r, calls)"
  shows "is_ok r \<Longrightarrow> PubConfirm False True \<in> set calls \<and> PubConnectionClose \<notin> set calls"
    and "\<not> is_ok r \<Longrightarrow> PubDial url True \<in> set calls \<Longrightarrow> last calls = PubConnectionClose"
  using assms by (auto simp: new_rabbitmq_publisher_def split: sum.splits option.splits)

end
