(* ===== verification/ApiRuns.thy ===== *)
theory ApiRuns
  imports RabbitPublisher Payload Sample
begin

text \<open>
  The properties of the API's store and of the outbox publisher: what acceptance means, what is
  published and when, and what the list shows.
\<close>

section \<open>Calm runs of single statements\<close>

lemma list_work_items_calm:
  assumes "calm w" and "db_ok (db w)"
  shows "\<exists>items w'. list_work_items w = (Inr items, w') \<and> db w' = db w \<and> calm w'
    \<and> list_items_stmt (clock (next_turn w)) (db w) (seqs w) = (Inr items, id, seqs w)"
proof -
  obtain items where l: "list_items_stmt (clock (next_turn w)) (db w) (seqs w) = (Inr items, id, seqs w)"
    by (simp add: list_items_stmt_def)
  from exec_auto_calm [where st = list_items_stmt, OF assms(1) l] assms(2)
  have "exec_auto list_items_stmt w = (Inr items, (tick w)\<lparr>db := db w, seqs := seqs w\<rparr>)"
    by (simp add: db_ok_def)
  with l assms(1) show ?thesis by (auto simp: list_work_items_def)
qed

text \<open>An item is done exactly if its analysis is stored.\<close>

lemma analysis_of_iff_done:
  assumes ok: "db_ok d" and r: "r \<in> set (work_items d)"
  shows "wi_status r = Done \<longleftrightarrow> analysis_of d (wi_id r) \<noteq> None"
proof -
  have u: "unique_key wi_id (work_items d)" using ok by (simp add: db_ok_def constraint_defs)
  have "analysis_of d (wi_id r) \<noteq> None \<longleftrightarrow> wi_id r \<in> wr_work_item_id ` set (work_item_results d)"
    using row_at_None_iff [of wr_work_item_id "work_item_results d" "wi_id r"]
    by (simp add: analysis_of_def)
  also have "\<dots> \<longleftrightarrow> wi_status r = Done"
  proof
    assume "wi_id r \<in> wr_work_item_id ` set (work_item_results d)"
    then obtain q where "q \<in> set (work_items d)" "wi_id q = wi_id r" "wi_status q = Done"
      using ok by (auto simp: db_ok_def deferred_defs list_all_iff)
    then show "wi_status r = Done" using unique_key_eq [OF u _ r] by auto
  next
    assume "wi_status r = Done"
    then show "wi_id r \<in> wr_work_item_id ` set (work_item_results d)"
      using ok r by (auto simp: db_ok_def deferred_defs list_all_iff)
  qed
  finally show ?thesis ..
qed

lemma next_message_None: "next_message locked t = None \<longleftrightarrow> (\<forall>r \<in> set t. unpublished r \<longrightarrow> locked (ob_id r))"
proof -
  have "next_message locked t = None \<longleftrightarrow>
      length (sort_key ob_id (select_where (\<lambda>r. unpublished r \<and> \<not> locked (ob_id r)) t)) = 0"
    by (auto simp: next_message_def simp del: length_sort split: list.splits)
  then show ?thesis by (auto simp: select_where_def filter_empty_conv)
qed

lemma next_message_Some:
  assumes "next_message locked t = Some r"
  shows "r \<in> set t \<and> unpublished r \<and> \<not> locked (ob_id r)
    \<and> (\<forall>q \<in> set t. unpublished q \<and> \<not> locked (ob_id q) \<longrightarrow> ob_id r \<le> ob_id q)"
proof -
  let ?s = "sort_key ob_id (select_where (\<lambda>r. unpublished r \<and> \<not> locked (ob_id r)) t)"
  obtain rest where s: "?s = r # rest" using assms by (auto simp: next_message_def split: list.splits)
  have set: "set ?s = {q \<in> set t. unpublished q \<and> \<not> locked (ob_id q)}" by (auto simp: select_where_def)
  moreover have "sorted (map ob_id ?s)" by simp
  ultimately show ?thesis using s by auto
qed

text \<open>Updates of the outbox that no constraint refuses.\<close>

lemma update_outbox_ok:
  assumes ok: "db_ok d"
    and rows: "\<And>r. r \<in> set (outbox_messages d) \<Longrightarrow> P r \<Longrightarrow> outbox_row_ok r \<Longrightarrow> outbox_row_ok (f r)"
    and keys: "\<And>r. ob_id (f r) = ob_id r" "\<And>r. ob_processing_job_id (f r) = ob_processing_job_id r"
  shows "db_ok (d\<lparr>outbox_messages := update_where P f (outbox_messages d)\<rparr>)"
proof -
  let ?t = "update_where P f (outbox_messages d)"
  have "map ob_id ?t = map ob_id (outbox_messages d)"
    and "map ob_processing_job_id ?t = map ob_processing_job_id (outbox_messages d)"
    by (simp_all add: update_where_def keys)
  then have "unique_key ob_id ?t" and "unique_key ob_processing_job_id ?t"
    using ok by (simp_all add: unique_key_def db_ok_def constraint_defs)
  moreover have "list_all outbox_row_ok ?t"
    and "list_all (\<lambda>r. ob_processing_job_id r \<in> pj_id ` set (processing_jobs d)) ?t"
    using ok rows by (auto simp: db_ok_def constraint_defs list_all_iff set_update_where keys)
  ultimately have "outbox_ok (processing_jobs d) ?t" by (simp add: outbox_ok_def)
  with ok show ?thesis
    by (simp add: db_ok_def immediate_ok_def deferred_ok_def result_completed_item_fk_def
        result_successful_job_fk_def completed_item_result_fk_def successful_job_result_fk_def)
qed

definition with_attempt :: "int64 \<Rightarrow> database \<Rightarrow> database" where
  "with_attempt k d = d\<lparr>outbox_messages := update_where (\<lambda>q. ob_id q = k) attempt_row (outbox_messages d)\<rparr>"

definition with_published :: "int64 \<Rightarrow> timestamp \<Rightarrow> database \<Rightarrow> database" where
  "with_published k now d =
     d\<lparr>outbox_messages := update_where (unpublished_message k) (published_row now) (outbox_messages d)\<rparr>"

definition with_publish_failure :: "int64 \<Rightarrow> string \<Rightarrow> database \<Rightarrow> database" where
  "with_publish_failure k code d =
     d\<lparr>outbox_messages := update_where (unpublished_message k) (publish_failure_row code) (outbox_messages d)\<rparr>"

lemma with_attempt_ok:
  assumes ok: "db_ok d" and r: "r \<in> set (outbox_messages d)" and "ob_publish_attempts r < int32_max"
  shows "db_ok (with_attempt (ob_id r) d)"
  unfolding with_attempt_def
proof (rule update_outbox_ok [OF ok])
  fix q assume q: "q \<in> set (outbox_messages d)" "ob_id q = ob_id r" "outbox_row_ok q"
  have "unique_key ob_id (outbox_messages d)" using ok by (simp add: db_ok_def constraint_defs)
  from unique_key_eq [OF this q(1) r q(2)] q(3) assms(3) show "outbox_row_ok (attempt_row q)"
    by (simp add: outbox_row_ok_def attempt_row_def in_int32_def int32_max_def)
qed (simp_all add: attempt_row_def)

lemma with_published_ok: "db_ok d \<Longrightarrow> db_ok (with_published k now d)"
  unfolding with_published_def
  by (rule update_outbox_ok) (simp_all add: published_row_def outbox_row_ok_def)

lemma with_publish_failure_ok: "db_ok d \<Longrightarrow> db_ok (with_publish_failure k code d)"
  unfolding with_publish_failure_def
  by (rule update_outbox_ok) (simp_all add: publish_failure_row_def outbox_row_ok_def)

lemma begin_attempt_calm:
  assumes calm: "calm w" and ok: "db_ok (db w)"
    and msg: "next_message locked (outbox_messages (db w)) = Some r"
    and "ob_publish_attempts r < int32_max"
  shows "\<exists>w'. begin_outbox_publish_attempt jt locked w = (Inr (scan_outbox_message jt (attempt_row r)), w')
    \<and> db w' = with_attempt (ob_id r) (db w) \<and> calm w'"
proof -
  have st: "begin_attempt_stmt locked (clock (next_turn w)) (db w) (seqs w) =
      (Inr (attempt_row r), with_attempt (ob_id r), seqs w)"
    using msg by (auto simp: begin_attempt_stmt_def with_attempt_def)
  have "db_ok (with_attempt (ob_id r) (db w))"
    using with_attempt_ok [OF ok _ assms(4)] next_message_Some [OF msg] by blast
  then have "exec_auto (begin_attempt_stmt locked) w =
      (Inr (attempt_row r), (tick w)\<lparr>db := with_attempt (ob_id r) (db w), seqs := seqs w\<rparr>)"
    by (intro exec_auto_calm [where st = "begin_attempt_stmt locked", OF calm st]) (simp_all add: db_ok_def)
  with calm show ?thesis by (simp add: begin_outbox_publish_attempt_def)
qed

lemma affected_one:
  assumes "db_ok d" and "r \<in> set (outbox_messages d)" and "unpublished r"
  shows "rows_affected (unpublished_message (ob_id r)) (outbox_messages d) = 1"
proof -
  have u: "unique_key ob_id (outbox_messages d)" using assms(1) by (simp add: db_ok_def constraint_defs)
  show ?thesis
    using filter_unique_key [OF u, of "ob_id r" unpublished] row_at_unique [OF u assms(2)] assms(3)
    by (simp add: rows_affected_def unpublished_message_def [abs_def])
qed

lemma mark_published_calm:
  assumes calm: "calm w" and ok: "db_ok (db w)" and r: "r \<in> set (outbox_messages (db w))" "unpublished r"
  shows "\<exists>w' now. mark_outbox_published (ob_id r) w = (None, w')
    \<and> db w' = with_published (ob_id r) now (db w) \<and> calm w'"
proof -
  let ?k = "ob_id r" and ?now = "clock (next_turn w)"
  have st: "mark_published_stmt ?k ?now (db w) (seqs w) = (Inr 1, with_published ?k ?now, seqs w)"
    using affected_one [OF ok r] by (auto simp: mark_published_stmt_def with_published_def)
  from exec_auto_calm [where st = "mark_published_stmt ?k", OF calm st] with_published_ok [OF ok]
  have "exec_auto (mark_published_stmt ?k) w = (Inr 1, (tick w)\<lparr>db := with_published ?k ?now (db w), seqs := seqs w\<rparr>)"
    by (simp add: db_ok_def)
  with calm show ?thesis by (auto simp: mark_outbox_published_def)
qed

lemma record_publish_failure_calm:
  assumes calm: "calm w" and ok: "db_ok (db w)" and r: "r \<in> set (outbox_messages (db w))" "unpublished r"
  shows "\<exists>w'. record_outbox_publish_failure (ob_id r) code w = (None, w')
    \<and> db w' = with_publish_failure (ob_id r) code (db w) \<and> calm w'"
proof -
  let ?k = "ob_id r" and ?now = "clock (next_turn w)"
  have st: "publish_failure_stmt ?k code ?now (db w) (seqs w) = (Inr 1, with_publish_failure ?k code, seqs w)"
    using affected_one [OF ok r] by (auto simp: publish_failure_stmt_def with_publish_failure_def)
  from exec_auto_calm [where st = "publish_failure_stmt ?k code", OF calm st] with_publish_failure_ok [OF ok]
  have "exec_auto (publish_failure_stmt ?k code) w =
      (Inr 1, (tick w)\<lparr>db := with_publish_failure ?k code (db w), seqs := seqs w\<rparr>)"
    by (simp add: db_ok_def)
  with calm show ?thesis by (auto simp: record_outbox_publish_failure_def)
qed

text \<open>One calm round of the publisher.\<close>

lemma publish_next_calm:
  assumes calm: "calm w" and ok: "db_ok (db w)"
    and msg: "next_message (locked w) (outbox_messages (db w)) = Some r"
    and left: "ob_publish_attempts r < int32_max"
  shows "\<exists>events w' now.
    publish_next_outbox_message (postgres_outbox_store jt locked) publish w =
      ((True, (case publish (scan_outbox_message jt (attempt_row r)) of
          None \<Rightarrow> None
        | Some err \<Rightarrow> Some (Wrap ''publish outbox message'' (Joined [Sentinel ErrBrokerPublish, err])))),
       events, w')
    \<and> db w' = (case publish (scan_outbox_message jt (attempt_row r)) of
          None \<Rightarrow> with_published (ob_id r) now (with_attempt (ob_id r) (db w))
        | Some err \<Rightarrow> with_publish_failure (ob_id r) outboxPublishFailureCode (with_attempt (ob_id r) (db w)))
    \<and> calm w'"
proof -
  let ?m = "scan_outbox_message jt (attempt_row r)"
  from begin_attempt_calm [OF calm ok msg left] obtain w1 where
    w1: "begin_outbox_publish_attempt jt (locked w) w = (Inr ?m, w1)"
      "db w1 = with_attempt (ob_id r) (db w)" "calm w1" by blast
  note nm = next_message_Some [OF msg]
  have ok1: "db_ok (db w1)" using with_attempt_ok [OF ok _ left] nm w1(2) by simp
  have "attempt_row r \<in> set (outbox_messages (db w1))"
    using in_update_where [of r "outbox_messages (db w)" "\<lambda>q. ob_id q = ob_id r" attempt_row] nm
    by (simp add: w1(2) with_attempt_def)
  moreover have "unpublished (attempt_row r)" using nm by (simp add: attempt_row_def unpublished_def)
  ultimately have r1: "attempt_row r \<in> set (outbox_messages (db w1))" "unpublished (attempt_row r)" .
  have k: "ob_id (attempt_row r) = ob_id r" "om_ID ?m = ob_id r"
    by (simp_all add: attempt_row_def scan_outbox_message_def)
  show ?thesis
  proof (cases "publish ?m")
    case None
    from mark_published_calm [OF w1(3) ok1 r1] w1 None k show ?thesis
      by (auto simp: publish_next_outbox_message_def postgres_outbox_store_def)
  next
    case (Some err)
    from record_publish_failure_calm [OF w1(3) ok1 r1, of outboxPublishFailureCode] w1 Some k show ?thesis
      by (auto simp: publish_next_outbox_message_def postgres_outbox_store_def Let_def)
  qed
qed

section \<open>Sample worlds\<close>

text \<open>The sample item without any job yet; and a broker that confirms everything, and one that does not.\<close>

definition sample_open_database :: database where
  "sample_open_database =
     \<lparr>work_items = [sample_item], processing_jobs = [], outbox_messages = [], work_item_results = []\<rparr>"

definition sample_open_world :: world where
  "sample_open_world =
     \<lparr>db = sample_open_database,
      seqs = \<lparr>seq_work_items = 1, seq_processing_jobs = 0, seq_outbox_messages = 0\<rparr>, turns = []\<rparr>"

lemma sample_open_ok:
  "db_ok (db sample_open_world)" "seqs_ok (seqs sample_open_world) (db sample_open_world)"
  "calm sample_open_world" "world_ok sample_open_world" "seqs_left (seqs sample_open_world)"
proof -
  show ok: "db_ok (db sample_open_world)" "seqs_ok (seqs sample_open_world) (db sample_open_world)"
    "calm sample_open_world"
    by (simp_all add: db_ok_def constraint_defs deferred_defs work_item_row_ok_def sample_open_world_def
        sample_open_database_def sample_item_def unique_key_def pg_text_def calm_def isolated_def
        no_faults_def seqs_ok_def seqs_nonneg_def int64_max_def)
  then show "world_ok sample_open_world" by (simp add: world_ok_def rely_def sample_open_world_def)
  show "seqs_left (seqs sample_open_world)" by (simp add: seqs_left_def sample_open_world_def int64_max_def)
qed

definition sample_confirms :: "outbox_message \<Rightarrow> go_error option" where
  "sample_confirms = Publish ''q'' 0 (\<lambda>p. \<lparr>ba_publish = Inr True, ba_wait = Inr True, ba_returns = NothingReturned\<rparr>)"

definition sample_publisher_turns :: "publisher_turn list" where
  "sample_publisher_turns =
     [\<lparr>pt_ctx_err = False, pt_new = Inr (), pt_publish = sample_confirms, pt_close = None, pt_wait = DelayElapsed\<rparr>,
      \<lparr>pt_ctx_err = True, pt_new = Inr (), pt_publish = sample_confirms, pt_close = None, pt_wait = ContextDone\<rparr>]"

lemma sample_confirms_all: "sample_confirms m = None"
  by (simp add: sample_confirms_def Publish_None_iff)

lemma sample_next: "next_message (\<lambda>_. False) (outbox_messages (db sample_world)) = Some sample_outbox"
  by (simp add: next_message_def sample_world_def sample_database_def sample_outbox_def select_where_def
      unpublished_def)

section \<open>Properties\<close>

text \<open>
  C9 (acceptance is all or nothing). Alone on the database, whichever calls fail and wherever,
  accepting an item changes nothing, or adds exactly the job and its message; it reports no error
  only in the second case, and then the job it added.
\<close>

theorem acceptance_all_or_nothing:
  assumes "isolated w" and "accept_processing_job i w = ((job, err), w')"
  shows "db w' = db w \<and> err \<noteq> None
    \<or> (\<exists>j m now. db w' = with_acceptance m j i now (db w)
         \<and> (err = None \<longrightarrow> job = scan_processing_job (new_job_row j i now)))"
  using assms by (rule accept_processing_job_isolated)

definition sample_faulty_world :: world where
  "sample_faulty_world =
     sample_open_world\<lparr>turns := replicate 6 quiet_turn @ [quiet_turn\<lparr>fault := FaultAfter\<rparr>]\<rparr>"

theorem acceptance_all_or_nothing_witness:
  "\<exists>job err w'. accept_processing_job 1 sample_faulty_world = ((job, err), w')
    \<and> (db w' = sample_open_database
       \<or> (\<exists>j m now. db w' = with_acceptance m j 1 now sample_open_database))"
proof -
  obtain job err w' where r: "accept_processing_job 1 sample_faulty_world = ((job, err), w')"
    by (metis surj_pair)
  have "isolated sample_faulty_world"
    by (auto simp: isolated_def sample_faulty_world_def quiet_turn_def)
  moreover have "db sample_faulty_world = sample_open_database"
    by (simp add: sample_faulty_world_def sample_open_world_def)
  ultimately show ?thesis using acceptance_all_or_nothing [OF _ r] r by auto
qed

text \<open>
  C17 (acceptance, branch by branch). On a valid database where no call fails and no other session
  interferes: an unknown item, a done item and an item with an active job are each refused with their
  own error, the last naming the active job, without any change; every other item gets a new accepted
  job and its message.
\<close>

theorem acceptance_branches:
  assumes "calm w" and "db_ok (db w)" and "seqs_ok (seqs w) (db w)" and "seqs_left (seqs w)"
  shows "\<exists>res w'. accept_processing_job i w = (res, w') \<and>
    (case row_at wi_id (work_items (db w)) i of
       None \<Rightarrow> res = (no_job, Some (Sentinel ErrWorkItemNotFound)) \<and> db w' = db w
     | Some r \<Rightarrow>
         if wi_status r = Done then res = (no_job, Some (Sentinel ErrWorkItemDone)) \<and> db w' = db w
         else case find (active_job i) (processing_jobs (db w)) of
           Some q \<Rightarrow> res = (no_job\<lparr>jb_ID := pj_id q\<rparr>, Some (Sentinel ErrProcessingAlreadyActive)) \<and> db w' = db w
         | None \<Rightarrow> (\<exists>now j m. res = (scan_processing_job (new_job_row j i now), None)
             \<and> db w' = with_acceptance m j i now (db w) \<and> j \<notin> pj_id ` set (processing_jobs (db w))))"
  using accept_processing_job_calm [OF assms, of i] fresh_job(1) [OF assms(2,3) refl]
  by (fastforce split: option.splits if_splits)

theorem acceptance_branches_witness:
  "\<exists>res w'. accept_processing_job 1 sample_world = (res, w')
    \<and> res = (no_job\<lparr>jb_ID := 7\<rparr>, Some (Sentinel ErrProcessingAlreadyActive)) \<and> db w' = sample_database"
proof -
  have "seqs_left (seqs sample_world)"
    by (simp add: seqs_left_def sample_world_def sample_sequences_def int64_max_def)
  moreover have "db_ok (db sample_world)" "seqs_ok (seqs sample_world) (db sample_world)"
    using sample_db_ok sample_seqs_ok by (simp_all add: sample_world_def)
  ultimately show ?thesis
    using acceptance_branches [OF sample_calm, of 1]
    by (simp add: sample_world_def sample_database_def sample_item_def sample_job_def row_at_def active_job_def)
qed

text \<open>
  C12 (the hand-over). The text PostgreSQL gives the publisher for the payload the API stored is a
  message the worker accepts, and the worker reads back exactly the job and the item, whatever order
  PostgreSQL prints the members in.
\<close>

theorem payload_round_trip:
  assumes "jsonb_faithful jsonb_text" and "0 < j" and "in_int64 j" and "0 < i" and "in_int64 i"
  shows "accepted_message (jsonb_text (process_payload j i)) (message_of j i)"
  using assms by (rule payload_accepted)

theorem payload_round_trip_witness:
  "accepted_message (sample_jsonb_text (process_payload 7 1)) (message_of 7 1)"
  using payload_round_trip [OF sample_jsonb_faithful, of 7 1]
  by (simp add: in_int64_def int64_min_def int64_max_def)

text \<open>
  C14 (the publication protocol). The events of the outbox publisher, with any store and any broker,
  are accepted by the protocol automaton: a message is tried only on an open publisher, marked only
  directly after the broker confirmed that very message, recorded as failed directly after it was
  refused, and after a refusal the publisher is closed before anything else; when the loop returns,
  the publisher is closed.
\<close>

theorem outbox_protocol:
  assumes "run_outbox_publisher store reconnect idle_poll store_retry ts False s = (out, events, s')"
  shows "publication_phases NoPublisher events = Some NoPublisher
    \<or> out = Waiting \<and> publication_phases NoPublisher events = Some Idle"
  using run_outbox_publisher_phases [OF assms] by (auto simp: open_phase_def split: loop_outcome.splits)

theorem outbox_protocol_witness:
  "\<exists>out events w'. run_outbox_publisher (postgres_outbox_store sample_jsonb_text (\<lambda>_ _. False)) 1 1 1
      sample_publisher_turns False sample_world = (out, events, w')
    \<and> (publication_phases NoPublisher events = Some NoPublisher
       \<or> publication_phases NoPublisher events = Some Idle)"
proof -
  obtain out events w' where r: "run_outbox_publisher (postgres_outbox_store sample_jsonb_text (\<lambda>_ _. False))
      1 1 1 sample_publisher_turns False sample_world = (out, events, w')" by (metis prod_cases3)
  from outbox_protocol [OF r] r show ?thesis by blast
qed

text \<open>
  C21 (one round of the publisher). On a valid database where no call fails and no other session
  interferes, a round takes the lowest unpublished message no one holds, counts the attempt, and marks
  it published if the broker confirms it; if not, the message stays unpublished with the failure
  recorded, and the error makes the loop replace its publisher.
\<close>

theorem publisher_round:
  assumes "calm w" and "db_ok (db w)"
    and "next_message (locked w) (outbox_messages (db w)) = Some r" and "ob_publish_attempts r < int32_max"
  shows "\<exists>err events w' now.
    publish_next_outbox_message (postgres_outbox_store jsonb_text locked) publish w = ((True, err), events, w')
    \<and> (if publish (scan_outbox_message jsonb_text (attempt_row r)) = None
       then err = None \<and> db w' = with_published (ob_id r) now (with_attempt (ob_id r) (db w))
       else (\<exists>e. err = Some e \<and> errors_is e ErrBrokerPublish)
         \<and> db w' = with_publish_failure (ob_id r) ''broker_publish_failed'' (with_attempt (ob_id r) (db w)))
    \<and> (\<forall>q \<in> set (outbox_messages (db w)). unpublished q \<and> \<not> locked w (ob_id q) \<longrightarrow> ob_id r \<le> ob_id q)"
  using publish_next_calm [where locked = locked and jt = jsonb_text and publish = publish, OF assms] next_message_Some [OF assms(3)]
  by (auto simp: outboxPublishFailureCode_def split: option.splits)

theorem publisher_round_witness:
  "\<exists>events w' now. publish_next_outbox_message (postgres_outbox_store sample_jsonb_text (\<lambda>_ _. False))
      sample_confirms sample_world = ((True, None), events, w')
    \<and> db w' = with_published 4 now (with_attempt 4 sample_database)"
  using publisher_round [OF sample_calm, of "\<lambda>_ _. False" sample_outbox sample_jsonb_text sample_confirms]
    sample_db_ok sample_next
  by (auto simp: sample_confirms_all sample_world_def sample_outbox_def int32_max_def)

text \<open>
  C24 (the list shows the success invariant). Listing a valid database shows every item, in the order
  of the ids, and an item is shown done exactly if its analysis is shown with it.
\<close>

theorem list_shows_success_invariant:
  assumes "calm w" and "db_ok (db w)"
  shows "\<exists>items w'. list_work_items w = (Inr items, w') \<and> db w' = db w
    \<and> sorted (map it_ID items) \<and> it_ID ` set items = wi_id ` set (work_items (db w))
    \<and> (\<forall>it \<in> set items. it_Status it = Done \<longleftrightarrow> it_Result it \<noteq> None)"
proof -
  from list_work_items_calm [OF assms] obtain items w' where
    l: "list_work_items w = (Inr items, w')" "db w' = db w" and
    st: "list_items_stmt (clock (next_turn w)) (db w) (seqs w) = (Inr items, id, seqs w)" by blast
  from st have items: "items = map (\<lambda>r. \<lparr>it_ID = wi_id r, it_Title = wi_title r, it_Status = wi_status r,
      it_CreatedAt = wi_created_at r, it_Result = analysis_of (db w) (wi_id r)\<rparr>) (sort_key wi_id (work_items (db w)))"
    by (simp add: list_items_stmt_def)
  have "map it_ID items = map wi_id (sort_key wi_id (work_items (db w)))" by (simp add: items)
  then have "sorted (map it_ID items)" by simp
  moreover have "it_ID ` set items = wi_id ` set (work_items (db w))" by (auto simp: items image_iff)
  moreover have "\<forall>it \<in> set items. it_Status it = Done \<longleftrightarrow> it_Result it \<noteq> None"
    using analysis_of_iff_done [OF assms(2)] by (auto simp: items)
  ultimately show ?thesis using l by blast
qed

theorem list_shows_success_invariant_witness:
  "\<exists>items w'. list_work_items sample_world = (Inr items, w') \<and> it_ID ` set items = {1}"
  using list_shows_success_invariant [OF sample_calm] sample_db_ok
  by (auto simp: sample_world_def sample_database_def sample_item_def)

end
