(* ===== verification/HttpRuns.thy ===== *)
theory HttpRuns
  imports Http ApiRuns
begin

text \<open>
  The properties of the HTTP side of the API over the PostgreSQL store: what a response means for the
  committed database, which requests never reach it, and what the guard demands.
\<close>

section \<open>Guards\<close>

text \<open>The two guards the configuration can choose.\<close>

definition configured_guard :: "(string \<Rightarrow> 'v \<Rightarrow> verdict \<times> 'v) \<Rightarrow> ('v, 's) guard \<Rightarrow> bool" where
  "configured_guard validate_token protect =
     (protect = without_authentication \<or> protect = require_bearer_token validate_token)"

lemma configured_guardI [simp]:
  "configured_guard validate_token without_authentication"
  "configured_guard validate_token (require_bearer_token validate_token)"
  by (simp_all add: configured_guard_def)

lemma guard_cases:
  assumes "configured_guard validate_token protect"
    and "protect pattern permission handle r (v, s) = (resp, (v', s'))"
  shows "handle r s = (resp, s') \<or> s' = s \<and> rs_status resp \<in> {401, 403, 500, 503}"
  using assms require_bearer_token_cases [of validate_token pattern permission handle r v s resp v' s']
  by (auto simp: configured_guard_def without_authentication_def split: prod.splits)

text \<open>The guard the environment selects, whatever the validator, is one of the two.\<close>

lemma environment_guard:
  assumes "authentication_from_environment loaded new_v validate_token = Inr (protect, v)"
  shows "configured_guard validate_token protect"
  using assms
  by (auto simp: authentication_from_environment_def split: sum.splits if_splits)

section \<open>Handlers over the PostgreSQL store\<close>

lemma process_item_accepted:
  assumes "process_item_handler postgres_store r w = (resp, w')" and "rs_status resp = 202"
  shows "\<exists>i job. parse_int64 (rq_id r) = Some i \<and> 0 < i \<and> rs_body resp = ProcessingJobResponse job
    \<and> jb_WorkItemID job = i \<and> jb_State job = Accepted \<and> responsible (db w') (jb_ID job) i"
  using assms
  by (auto simp: process_item_handler_def postgres_store_def write_error_def write_json_def
      split: option.splits if_splits prod.splits dest!: accept_processing_job_responsible)

lemma create_work_item_Inr:
  assumes "create_work_item title status w = (Inr item, w')"
  shows "it_Title item = title \<and> it_Status item = Pending \<and> it_Result item = None
    \<and> (\<exists>row \<in> set (work_items (db w')). scan_new_item row = item)"
  using assms
  by (auto simp: create_work_item_def create_item_stmt_def Let_def scan_new_item_def
      split: prod.splits sum.splits if_splits dest!: exec_auto_Inr)

lemma create_item_created:
  assumes "create_item_handler postgres_store r w = (resp, w')" and "rs_status resp = 201"
  shows "\<exists>request item. decode_create_request (rq_body r) = Some request
    \<and> rs_body resp = WorkItemResponse item \<and> it_Title item = trim_space (cr_Title request)
    \<and> it_Title item \<noteq> [] \<and> it_Status item = Pending \<and> it_Result item = None
    \<and> (\<exists>row \<in> set (work_items (db w')). scan_new_item row = item)"
  using assms
  by (auto simp: create_item_handler_def postgres_store_def write_error_def write_json_def Let_def
      split: option.splits if_splits prod.splits sum.splits dest!: create_work_item_Inr)

text \<open>A statement's error is the driver's, a violated constraint, or the statement's own.\<close>

lemma exec_auto_Inl:
  assumes "exec_auto st w = (Inl e, w')"
  shows "e = driver_error \<or> e = constraint_error
    \<or> (\<exists>eff sq. st (clock (next_turn w)) (db (arrive w)) (seqs (arrive w)) = (Inl e, eff, sq))"
  using assms
  by (auto simp: exec_auto_def Let_def run_stmt_def answer_def split: prod.splits sum.splits if_splits)

lemma opaque_errors [simp]:
  "\<not> errors_is driver_error x" "\<not> errors_is constraint_error x" "\<not> errors_is sequence_error x"
  by (simp_all add: driver_error_def constraint_error_def sequence_error_def)

lemma create_work_item_error: "create_work_item title Pending w = (Inl e, w') \<Longrightarrow> \<not> errors_is e x"
  by (auto simp: create_work_item_def create_item_stmt_def Let_def
      split: prod.splits sum.splits if_splits dest!: exec_auto_Inl)

text \<open>A handler that answers 400 has not called the store.\<close>

lemma bad_request_no_call:
  "create_item_handler postgres_store r w = (resp, w') \<Longrightarrow> rs_status resp = 400 \<Longrightarrow> w' = w"
  "list_items_handler postgres_store r w = (resp, w') \<Longrightarrow> rs_status resp \<noteq> 400"
  "get_job_handler postgres_store r w = (resp, w') \<Longrightarrow> rs_status resp = 400 \<Longrightarrow> w' = w"
  "process_item_handler postgres_store r w = (resp, w') \<Longrightarrow> rs_status resp = 400 \<Longrightarrow> w' = w"
  by (auto simp: create_item_handler_def list_items_handler_def get_job_handler_def process_item_handler_def
      postgres_store_def write_error_def write_json_def Let_def
      split: option.splits if_splits prod.splits sum.splits dest: create_work_item_error)

section \<open>Requests through the mux\<close>

lemma route_of_in:
  "route_of mux r = Some (x, h) \<Longrightarrow> \<exists>pattern. (pattern, h) \<in> set mux \<and> match_pattern pattern r = Some x"
  by (induction mux r rule: route_of.induct) (auto split: option.splits)

definition business_handlers :: "(string \<times> world handler) set" where
  "business_handlers = (\<lambda>(pattern, permission, handle). (pattern, handle))
     ` set (work_item_routes postgres_store @ processing_routes postgres_store)"

lemma business_handlers_cases:
  assumes "(pattern, handle) \<in> business_handlers"
  obtains "pattern = ''POST /items''" "handle = create_item_handler postgres_store"
    | "pattern = ''GET /items''" "handle = list_items_handler postgres_store"
    | "pattern = ''GET /processing-jobs/{id}''" "handle = get_job_handler postgres_store"
    | "pattern = ''POST /items/{id}/process''" "handle = process_item_handler postgres_store"
  using assms by (auto simp: business_handlers_def work_item_routes_def processing_routes_def)

text \<open>
  What serving a request can be: a business handler's own response on its own route, the readiness
  check, or a response that leaves the store alone.
\<close>

lemma serve_cases:
  assumes mux: "new_application_handler app_version is_ready postgres_store protect = Some mux"
    and guard: "configured_guard validate_token protect"
    and run: "serve mux r (v, w) = (resp, (v', w'))"
  shows "(\<exists>pattern handle x. (pattern, handle) \<in> business_handlers \<and> match_pattern pattern r = Some x
      \<and> handle (r\<lparr>rq_id := x\<rparr>) w = (resp, w'))
    \<or> w' = w \<and> rs_status resp \<in> {200, 401, 403, 404, 405, 500, 503}
    \<or> w' = snd (Ready w) \<and> rs_status resp \<in> {200, 503} \<and> rs_body resp \<noteq> ErrorPage"
proof (cases "route_of mux r")
  case None
  with run have "w' = w \<and> rs_status resp = (if other_method mux r then 405 else 404)"
    by (auto simp: serve_def)
  then show ?thesis by simp
next
  case (Some xh)
  then obtain x h where xh: "route_of mux r = Some (x, h)" by (cases xh) auto
  with run have h: "h (r\<lparr>rq_id := x\<rparr>) (v, w) = (resp, (v', w'))" by (simp add: serve_def)
  obtain pattern where p: "(pattern, h) \<in> set mux" "match_pattern pattern r = Some x"
    using route_of_in [OF xh] by blast
  define B where "B = set (map (\<lambda>(pattern, permission, handle). (pattern, protect pattern permission handle))
          (work_item_routes postgres_store @ processing_routes postgres_store))"
  have "set mux = {(''GET /health'', health_handler), (''GET /ready'', ready_handler is_ready postgres_store),
      (''GET /version'', version_handler (if app_version = [] then ''dev'' else app_version))} \<union> B"
    unfolding B_def option.inject [THEN iffD1, OF mux [unfolded application_mux], symmetric]
    by (simp del: map_append set_map)
  with p(1) consider "h = health_handler" | "h = ready_handler is_ready postgres_store"
    | "h = version_handler (if app_version = [] then ''dev'' else app_version)" | "(pattern, h) \<in> B"
    by auto
  then show ?thesis
  proof cases
    case 4
    then obtain permission handle where
      r: "(pattern, permission, handle) \<in> set (work_item_routes postgres_store @ processing_routes postgres_store)"
      and hp: "h = protect pattern permission handle" by (auto simp: B_def)
    from r have "(pattern, handle) \<in> business_handlers" by (force simp: business_handlers_def)
    with guard_cases [OF guard h [unfolded hp]] p(2) show ?thesis by blast
  qed (use h in \<open>auto simp: health_handler_def version_handler_def ready_handler_def write_json_def
      postgres_store_def split: if_splits prod.splits option.splits\<close>)
qed

lemma handlers_evolve: "(pattern, handle) \<in> business_handlers \<Longrightarrow> handle r w = (resp, w') \<Longrightarrow> evolves w w'"
  by (erule business_handlers_cases)
     (auto simp: create_item_handler_def list_items_handler_def get_job_handler_def
      process_item_handler_def postgres_store_def write_error_def write_json_def Let_def
      split: option.splits if_splits prod.splits sum.splits
      dest: create_work_item_evolves list_work_items_evolves api_get_processing_job_evolves
        accept_processing_job_evolves)

text \<open>Every request keeps a valid database valid and its history.\<close>

lemma serve_evolves:
  assumes "new_application_handler app_version is_ready postgres_store protect = Some mux"
    and "configured_guard validate_token protect" and "serve mux r (v, w) = (resp, (v', w'))"
  shows "evolves w w'"
  using serve_cases [OF assms] handlers_evolve Ready_evolves by (metis evolves_refl prod.collapse)

section \<open>A refused client\<close>

text \<open>What the bearer guard answers a client the validator does not admit.\<close>

lemma require_bearer_token_refuses:
  assumes "require_bearer_token validate_token pattern permission handle r (v, s) = (resp, (v', s'))"
    and "\<not> admitted validate_token permission (rq_authorization r) v"
  shows "s' = s \<and> rs_status resp =
    (case bearer_token (rq_authorization r) of
       None \<Rightarrow> 401
     | Some token \<Rightarrow>
         (case fst (validate_token token v) of
            Rejected category \<Rightarrow> 401 | Undecided err \<Rightarrow> 503 | NilDereference \<Rightarrow> 500 | Authenticated caller \<Rightarrow> 403))"
  using assms
  by (auto simp: require_bearer_token_def admitted_def write_error_def write_json_def
      split: option.splits prod.splits verdict.splits if_splits)

lemma serve_needed:
  assumes "new_application_handler app_version is_ready store protect = Some mux"
    and "needed r = Some permission"
  shows "\<exists>pattern handle x. serve mux r vs = protect pattern permission handle (r\<lparr>rq_id := x\<rparr>) vs"
proof -
  let ?business = "map (\<lambda>(pattern, permission, handle). (pattern, protect pattern permission handle))
      (work_item_routes store @ processing_routes store)"
  have no: "match_pattern ''GET /health'' r = None" "match_pattern ''GET /ready'' r = None"
    "match_pattern ''GET /version'' r = None"
    using assms(2) by (auto simp: needed_def split: if_splits)
  have mux: "mux = [(''GET /health'', health_handler), (''GET /ready'', ready_handler is_ready store),
      (''GET /version'', version_handler (if app_version = [] then ''dev'' else app_version))] @ ?business"
    using assms(1) unfolding application_mux by (rule option.inject [THEN iffD1, symmetric])
  have "route_of mux r = route_of ?business r" using no by (simp add: mux del: map_append)
  then obtain pattern handle x where "route_of mux r = Some (x, protect pattern permission handle)"
    using assms(2) no
    by (auto simp: work_item_routes_def processing_routes_def needed_def split: option.splits if_splits)
  then have "serve mux r vs = protect pattern permission handle (r\<lparr>rq_id := x\<rparr>) vs"
    by (simp add: serve_def)
  then show ?thesis by blast
qed

section \<open>The job an acceptance names\<close>

lemma accepted_only_by_process:
  assumes "(pattern, handle) \<in> business_handlers" and "handle r w = (resp, w')" and "rs_status resp = 202"
  shows "pattern = ''POST /items/{id}/process'' \<and> handle = process_item_handler postgres_store"
  using assms(1)
proof (cases rule: business_handlers_cases)
  case 1
  with assms(2,3) show ?thesis
    by (auto simp: create_item_handler_def write_error_def write_json_def Let_def
        split: option.splits if_splits prod.splits sum.splits)
next
  case 2
  with assms(2,3) show ?thesis
    by (auto simp: list_items_handler_def write_error_def write_json_def split: prod.splits sum.splits)
next
  case 3
  with assms(2,3) show ?thesis
    by (auto simp: get_job_handler_def write_error_def write_json_def
        split: option.splits if_splits prod.splits sum.splits)
qed simp

lemma serve_accepted:
  assumes "new_application_handler app_version is_ready postgres_store protect = Some mux"
    and "configured_guard validate_token protect"
    and "serve mux r (v, w) = (resp, (v', w'))" and "rs_status resp = 202"
  shows "\<exists>x i job. match_pattern ''POST /items/{id}/process'' r = Some x \<and> parse_int64 x = Some i \<and> 0 < i
    \<and> rs_body resp = ProcessingJobResponse job
    \<and> jb_WorkItemID job = i \<and> jb_State job = Accepted \<and> responsible (db w') (jb_ID job) i"
proof -
  from serve_cases [OF assms(1-3)] assms(4) obtain pattern handle x where
    h: "(pattern, handle) \<in> business_handlers" "match_pattern pattern r = Some x"
      "handle (r\<lparr>rq_id := x\<rparr>) w = (resp, w')" by auto
  with accepted_only_by_process [OF h(1,3) assms(4)] process_item_accepted [of "r\<lparr>rq_id := x\<rparr>" w resp w', OF _ assms(4)]
  show ?thesis by auto
qed

text \<open>Looking for the job of a responsibility finds it, unless the call fails.\<close>

lemma responsible_job_found:
  assumes "world_ok w" and "responsible (db w) j i" and "api_get_processing_job j w = (r, w')"
  shows "case r of Inl err \<Rightarrow> \<not> errors_is err ErrProcessingJobNotFound
    | Inr job \<Rightarrow> jb_ID job = j \<and> jb_WorkItemID job = i"
proof -
  have ok: "world_ok (arrive w)" and "responsible (db (arrive w)) j i"
    using evolves_world_ok [OF evolves_arrive assms(1)] responsible_evolves [OF assms(2,1) evolves_arrive] .
  then obtain q where q: "q \<in> set (processing_jobs (db (arrive w)))" "pj_id q = j" "pj_work_item_id q = i"
    by (auto simp: responsible_def)
  have u: "unique_key pj_id (processing_jobs (db (arrive w)))"
    using ok by (simp add: world_ok_def db_ok_def constraint_defs)
  have st: "api_select_job_stmt j now (db (arrive w)) sq = (Inr q, id, sq)" for now sq
    using row_at_unique [OF u q(1)] q(2) by (simp add: api_select_job_stmt_def query_row_by_key)
  show ?thesis
  proof (cases "exec_auto (api_select_job_stmt j) w")
    case (Pair r1 w1)
    with assms(3) q show ?thesis
      by (cases r1)
         (auto simp: api_get_processing_job_def scan_processing_job_def st [folded q(2)] dest!: exec_auto_Inl exec_auto_Inr
            split: if_splits)
  qed
qed

lemma get_job_responsible:
  assumes "world_ok w" and "responsible (db w) j i" and "parse_int64 (rq_id r) = Some j"
    and "get_job_handler postgres_store r w = (resp, w')" and "0 < j"
  shows "rs_status resp = 503
    \<or> rs_status resp = 200 \<and> (\<exists>job. rs_body resp = ProcessingJobResponse job \<and> jb_ID job = j \<and> jb_WorkItemID job = i)"
  using assms responsible_job_found [OF assms(1,2)]
  by (fastforce simp: get_job_handler_def postgres_store_def write_error_def write_json_def
      split: prod.splits sum.splits if_splits)

section \<open>Sample requests\<close>

definition sample_request :: "string \<Rightarrow> string \<Rightarrow> string \<Rightarrow> bytes \<Rightarrow> http_request" where
  "sample_request verb path authorization body =
     \<lparr>rq_method = verb, rq_path = path, rq_id = [], rq_authorization = authorization, rq_body = body\<rparr>"

definition sample_process_request :: http_request where
  "sample_process_request = sample_request ''POST'' ''/items/1/process'' ''Bearer k1'' []"

lemma sample_process_route:
  "rq_method sample_process_request = ''POST''"
  "segments sample_process_request = [[], ''items'', ''1'', ''process'']"
  "needed sample_process_request = Some ItemsProcess"
  by (simp_all add: sample_process_request_def sample_request_def needed_def match_pattern_def cut_def)

lemma sample_jwx_calls:
  "jx_len sample_jwx = length" "jx_lookup_key sample_jwx ks k = (k \<in> set ks)"
  "jx_parse_jws sample_jwx raw = Some [(Some ''RS256'', Some raw)]"
  "jx_parse_jwt sample_jwx raw ks iss aud skew now = (if raw \<in> set ks then Inr sample_claims else Inl (Opaque ''jwt''))"
  by (simp_all add: sample_jwx_def)

lemma sample_reader: "\<not> has_permission (pr_Permissions (principal_of sample_jwx sample_claims)) ItemsProcess"
  by (simp add: principal_of_def Let_def sample_jwx_def sample_claims_def obj_get_def parse_def Client_def
      known_def permission_defs has_permission_def)

lemma parse_sample_id: "parse_int64 ''1'' = Some 1"
  by (simp add: parse_int64_def parse_signed_def parse_unsigned_def digit_value_def byte_def in_int64_def
      int64_min_def int64_max_def)

section \<open>Properties\<close>

text \<open>
  C25 (no business without permission). A request to a business route whose bearer token the
  validator does not accept with the permission the route requires never reaches the store: it
  is answered 401 without a valid token, 403 with a valid token that lacks the permission, and 503
  while the signing keys are unavailable; never with a crash.
\<close>

theorem business_requires_permission:
  assumes "validator_ok lib v" and "others_keep lib env"
    and "new_application_handler app_version is_ready store (require_bearer_token (validate lib env)) = Some mux"
    and "needed r = Some permission"
    and "\<not> admitted (validate lib env) permission (rq_authorization r) v"
    and "serve mux r (v, s) = (resp, (v', s'))"
  shows "s' = s \<and> rs_status resp =
    (case bearer_token (rq_authorization r) of
       None \<Rightarrow> 401
     | Some token \<Rightarrow>
         (case fst (validate lib env token v) of
            Rejected category \<Rightarrow> 401 | Undecided err \<Rightarrow> 503 | NilDereference \<Rightarrow> 500 | Authenticated caller \<Rightarrow> 403))
    \<and> rs_status resp \<noteq> 500"
proof -
  obtain pattern handle x where "require_bearer_token (validate lib env) pattern permission handle (r\<lparr>rq_id := x\<rparr>) (v, s)
      = (resp, (v', s'))"
    using serve_needed [OF assms(3,4)] assms(6) by metis
  from require_bearer_token_refuses [OF this] assms(5) have status: "s' = s \<and> rs_status resp =
    (case bearer_token (rq_authorization r) of
       None \<Rightarrow> 401
     | Some token \<Rightarrow>
         (case fst (validate lib env token v) of
            Rejected category \<Rightarrow> 401 | Undecided err \<Rightarrow> 503 | NilDereference \<Rightarrow> 500 | Authenticated caller \<Rightarrow> 403))"
    by simp
  have "fst (validate lib env token v) \<noteq> NilDereference" for token
    using validate_keeps(2) [OF assms(1,2)] by (metis prod.collapse)
  with status show ?thesis by (auto split: option.splits verdict.splits)
qed

theorem business_requires_permission_witness:
  "\<exists>mux resp v' w'. new_application_handler ''1'' True postgres_store
      (require_bearer_token (validate sample_jwx (sample_env (Inr [''k1'']) (Inr [''k1''])))) = Some mux
    \<and> serve mux sample_process_request (sample_validator, sample_open_world) = (resp, (v', w'))
    \<and> rs_status resp = 403 \<and> w' = sample_open_world"
proof -
  let ?validate = "validate sample_jwx (sample_env (Inr [''k1'']) (Inr [''k1'']))"
  obtain mux where mux: "new_application_handler ''1'' True postgres_store (require_bearer_token ?validate) = Some mux"
    by (simp add: application_mux)
  obtain resp v' w' where run: "serve mux sample_process_request (sample_validator, sample_open_world) = (resp, (v', w'))"
    by (metis prod.collapse)
  have token: "bearer_token (rq_authorization sample_process_request) = Some ''k1''"
    by (simp add: bearer_token_def sample_process_request_def sample_request_def cut_def equal_fold_def
        trim_space_def trim_def is_space_def byte_def)
  have caller: "\<exists>p v'. ?validate ''k1'' sample_validator = (Authenticated p, v') \<and> \<not> has_permission (pr_Permissions p) ItemsProcess"
    by (simp add: validate_def sample_jwx_calls sample_env_def sample_validator_def sample_authn_config_def
        allowed_def validator_keys_def verify_token_def sample_reader)
  then have out: "\<not> admitted ?validate ItemsProcess (rq_authorization sample_process_request) sample_validator"
    by (auto simp: admitted_def token)
  from business_requires_permission [OF sample_validator_ok sample_others mux sample_process_route(3) out run]
  show ?thesis using mux run token caller by auto
qed

text \<open>
  C3 (202 is a durable responsibility). Whatever guard is configured, whatever calls fail and whatever
  other sessions commit: a request answered 202 was a POST to the process route of an item, and when
  the answer leaves, the committed database holds the job the body names, for that item, with the
  message that will hand it to the worker.
\<close>

theorem accepted_is_responsible:
  assumes "new_application_handler app_version is_ready postgres_store protect = Some mux"
    and "configured_guard validate_token protect"
    and "serve mux r (v, w) = (resp, (v', w'))" and "rs_status resp = 202"
  shows "\<exists>x i job. match_pattern ''POST /items/{id}/process'' r = Some x \<and> parse_int64 x = Some i \<and> 0 < i
    \<and> rs_body resp = ProcessingJobResponse job
    \<and> jb_WorkItemID job = i \<and> jb_State job = Accepted \<and> responsible (db w') (jb_ID job) i"
  using serve_accepted [OF assms] .

lemma sample_accepted_run:
  "\<exists>mux resp v w' job. new_application_handler ''1'' True postgres_store without_authentication = Some mux
    \<and> serve mux sample_process_request ((), sample_open_world) = (resp, (v, w')) \<and> rs_status resp = 202
    \<and> rs_body resp = ProcessingJobResponse job \<and> jb_ID job = 1 \<and> jb_CreatedAt job = 0"
proof -
  obtain mux where mux: "new_application_handler ''1'' True postgres_store
      (without_authentication :: (unit, world) guard) = Some mux"
    by (simp add: application_mux)
  have route: "serve mux sample_process_request ((), sample_open_world) =
      without_authentication ''POST /items/{id}/process'' ItemsProcess (process_item_handler postgres_store)
        (sample_process_request\<lparr>rq_id := ''1''\<rparr>) ((), sample_open_world)"
    by (rule serve_routes(5) [OF mux sample_process_route(1,2)]) simp
  obtain job w' where accept: "accept_processing_job 1 sample_open_world = ((job, None), w')" and id: "jb_ID job = 1" "jb_CreatedAt job = 0"
    using accept_processing_job_calm_at [OF sample_open_ok(3,1,2,5), of 1]
    by (auto simp: next_turn_def quiet_turn_def sample_open_world_def sample_open_database_def sample_item_def row_at_def
        scan_processing_job_def new_job_row_def)
  then have "serve mux sample_process_request ((), sample_open_world) =
      (write_json [] 202 (ProcessingJobResponse job), ((), w'))"
    by (simp add: route without_authentication_def process_item_handler_def postgres_store_def parse_sample_id)
  with mux id show ?thesis by (fastforce simp: write_json_def)
qed

theorem accepted_is_responsible_witness:
  "\<exists>w' :: world. responsible (db w') 1 1 \<and> (\<exists>mux resp v. serve mux sample_process_request ((), sample_open_world)
      = (resp, (v, w')) \<and> rs_status resp = 202)"
proof -
  obtain mux resp v w' job where run: "new_application_handler ''1'' True postgres_store without_authentication = Some mux"
    "serve mux sample_process_request ((), sample_open_world) = (resp, (v, w'))" "rs_status resp = 202"
    "rs_body resp = ProcessingJobResponse job" "jb_ID job = 1"
    using sample_accepted_run by blast
  from accepted_is_responsible [OF run(1) configured_guardI(1) run(2,3)]
  obtain x i where "match_pattern ''POST /items/{id}/process'' sample_process_request = Some x"
    "parse_int64 x = Some i" "responsible (db w') 1 i"
    using run(4,5) by auto
  moreover have "match_pattern ''POST /items/{id}/process'' sample_process_request = Some ''1''"
    using sample_process_route by (simp add: route_patterns_id)
  ultimately show ?thesis using run(2,3) parse_sample_id by auto
qed

text \<open>
  A job the API is responsible for is never unknown: whatever has happened since, a GET of its id that the
  guard lets through is answered with that job and its item, or, if the database call fails, 503.
\<close>

lemma serve_known_job:
  assumes "world_ok w'" and "responsible (db w') j i" and "evolves w' w2"
    and "new_application_handler app_version is_ready postgres_store protect = Some mux"
    and "configured_guard validate_token protect"
    and "match_pattern ''GET /processing-jobs/{id}'' r2 = Some x" and "parse_int64 x = Some j" and "0 < j"
    and "serve mux r2 (v2, w2) = (resp2, (v3, w3))"
  shows "rs_status resp2 \<in> {401, 403, 500, 503}
    \<or> rs_status resp2 = 200 \<and> (\<exists>job2. rs_body resp2 = ProcessingJobResponse job2
        \<and> jb_ID job2 = j \<and> jb_WorkItemID job2 = i)"
proof -
  have there: "responsible (db w2) j i" "world_ok w2"
    using responsible_evolves evolves_world_ok assms(1-3) by blast+
  have "x \<noteq> []" "rq_method r2 \<in> {''GET'', ''HEAD''}" "segments r2 = [[], ''processing-jobs'', x]"
    using assms(6) by (simp_all add: route_patterns_id)
  from serve_routes(4) [OF assms(4) this(2,3,1)] assms(9)
  have "protect ''GET /processing-jobs/{id}'' ItemsRead (get_job_handler postgres_store) (r2\<lparr>rq_id := x\<rparr>) (v2, w2)
      = (resp2, (v3, w3))" by simp
  from guard_cases [OF assms(5) this]
    get_job_responsible [OF there(2,1), of "r2\<lparr>rq_id := x\<rparr>" resp2 w3] assms(7,8)
  show ?thesis by auto
qed

lemma accepted_job_never_unknown:
  assumes "world_ok w" and "new_application_handler app_version is_ready postgres_store protect = Some mux"
    and "configured_guard validate_token protect"
    and "serve mux r (v, w) = (resp, (v', w'))" and "rs_status resp = 202"
    and "rs_body resp = ProcessingJobResponse job" and "evolves w' w2"
    and "match_pattern ''GET /processing-jobs/{id}'' r2 = Some x" and "parse_int64 x = Some (jb_ID job)"
    and "0 < jb_ID job" and "serve mux r2 (v2, w2) = (resp2, (v3, w3))"
  shows "rs_status resp2 \<in> {401, 403, 500, 503}
    \<or> rs_status resp2 = 200 \<and> (\<exists>job2. rs_body resp2 = ProcessingJobResponse job2
        \<and> jb_ID job2 = jb_ID job \<and> jb_WorkItemID job2 = jb_WorkItemID job)"
proof -
  have "responsible (db w') (jb_ID job) (jb_WorkItemID job)"
    using serve_accepted [OF assms(2-5)] assms(6) by auto
  moreover have "world_ok w'" using serve_evolves [OF assms(2-4)] assms(1) by (rule evolves_world_ok)
  ultimately show ?thesis using serve_known_job [OF _ _ assms(7,2,3,8-11)] by blast
qed

text \<open>
  A request answered 201 was a POST to /items whose body is one object; the item the answer shows has its
  trimmed, non-empty title, is pending, has no analysis, and is a row of the committed database.
\<close>

lemma serve_created:
  assumes "new_application_handler app_version is_ready postgres_store protect = Some mux"
    and "configured_guard validate_token protect"
    and "serve mux r (v, w) = (resp, (v', w'))" and "rs_status resp = 201"
  shows "match_pattern ''POST /items'' r \<noteq> None
    \<and> (\<exists>request item. decode_create_request (rq_body r) = Some request
      \<and> rs_body resp = WorkItemResponse item \<and> it_Title item = trim_space (cr_Title request)
      \<and> it_Title item \<noteq> [] \<and> it_Status item = Pending \<and> it_Result item = None
      \<and> (\<exists>row \<in> set (work_items (db w')). scan_new_item row = item))"
proof -
  from serve_cases [OF assms(1-3)] assms(4) obtain pattern handle x where
    h: "(pattern, handle) \<in> business_handlers" "match_pattern pattern r = Some x"
      "handle (r\<lparr>rq_id := x\<rparr>) w = (resp, w')" by auto
  from h(1) show ?thesis
  proof (cases rule: business_handlers_cases)
    case 1
    with h create_item_created [of "r\<lparr>rq_id := x\<rparr>" w resp w', OF _ assms(4)] show ?thesis by auto
  qed (use h assms(4) in \<open>auto simp: list_items_handler_def get_job_handler_def process_item_handler_def
      write_error_def write_json_def split: option.splits if_splits prod.splits sum.splits\<close>)
qed

definition sample_create_request :: http_request where
  "sample_create_request = sample_request ''POST'' ''/items'' [] ''{\"title\": \" Plan \"}''"

lemma sample_create_decoded:
  "decode_create_request (rq_body sample_create_request) = Some \<lparr>cr_Title = '' Plan '', cr_Status = []\<rparr>"
  by code_simp

lemma sample_created:
  "\<exists>item w'. create_work_item ''Plan'' Pending sample_open_world = (Inr item, w') \<and> it_ID item = 2 \<and> it_CreatedAt item = 0"
proof -
  let ?row = "\<lparr>wi_id = 2, wi_title = ''Plan'', wi_status = Pending, wi_created_at = 0\<rparr>"
  let ?d = "sample_open_database\<lparr>work_items := [sample_item, ?row]\<rparr>"
  have "immediate_ok ?d" and "deferred_ok ?d"
    by (simp_all add: constraint_defs deferred_defs sample_open_database_def sample_item_def unique_key_def
        work_item_row_ok_def pg_text_def)
  moreover have "create_item_stmt ''Plan'' (clock (next_turn sample_open_world)) (db sample_open_world)
      (seqs sample_open_world) = (Inr ?row, (\<lambda>d. d\<lparr>work_items := insert_row ?row (work_items d)\<rparr>),
        (seqs sample_open_world)\<lparr>seq_work_items := 2\<rparr>)"
    by (simp add: create_item_stmt_def Let_def sample_open_world_def next_turn_def quiet_turn_def int64_max_def)
  ultimately have "exec_auto (create_item_stmt ''Plan'') sample_open_world = (Inr ?row,
      (tick sample_open_world)\<lparr>db := ?d, seqs := (seqs sample_open_world)\<lparr>seq_work_items := 2\<rparr>\<rparr>)"
    using exec_auto_calm [where st = "create_item_stmt ''Plan''", OF sample_open_ok(3)]
    by (simp add: sample_open_world_def sample_open_database_def insert_row_def)
  then show ?thesis by (simp add: create_work_item_def scan_new_item_def)
qed

lemma sample_created_run:
  "\<exists>mux item w'. new_application_handler ''1'' True postgres_store (without_authentication :: (unit, world) guard) = Some mux
    \<and> serve mux sample_create_request ((), sample_open_world) = (write_json [] 201 (WorkItemResponse item), ((), w'))
    \<and> it_CreatedAt item = 0"
proof -
  obtain mux where mux: "new_application_handler ''1'' True postgres_store
      (without_authentication :: (unit, world) guard) = Some mux"
    by (simp add: application_mux)
  have route: "serve mux sample_create_request ((), sample_open_world) =
      without_authentication ''POST /items'' ItemsCreate (create_item_handler postgres_store)
        (sample_create_request\<lparr>rq_id := []\<rparr>) ((), sample_open_world)"
    by (rule serve_routes(2) [OF mux]) (simp_all add: sample_create_request_def sample_request_def)
  have t: "trim_space '' Plan '' = ''Plan''" "trim_space [] = []"
    by (simp_all add: trim_space_def trim_def is_space_def byte_def)
  obtain item w' where c: "create_work_item ''Plan'' Pending sample_open_world = (Inr item, w')" "it_CreatedAt item = 0"
    using sample_created by blast
  then have "serve mux sample_create_request ((), sample_open_world) = (write_json [] 201 (WorkItemResponse item), ((), w'))"
    using sample_create_decoded
    by (simp add: route without_authentication_def create_item_handler_def t postgres_store_def)
  with mux c(2) show ?thesis by blast
qed

lemma business_responses:
  assumes "(pattern, handle) \<in> business_handlers" and "handle r w = (resp, w')"
  shows "rs_body resp \<noteq> ErrorPage \<and> rs_status resp \<notin> {401, 403, 405} \<and> (rs_status resp = 400 \<longrightarrow> w' = w)"
  using assms(1)
proof (cases rule: business_handlers_cases)
  case 1
  with assms(2) bad_request_no_call(1) [of r w resp w'] show ?thesis
    by (auto simp: create_item_handler_def write_error_def write_json_def Let_def
        split: option.splits if_splits prod.splits sum.splits)
next
  case 2
  with assms(2) show ?thesis
    by (auto simp: list_items_handler_def write_error_def write_json_def split: prod.splits sum.splits)
next
  case 3
  with assms(2) show ?thesis
    by (auto simp: get_job_handler_def write_error_def write_json_def
        split: option.splits if_splits prod.splits sum.splits)
next
  case 4
  with assms(2) show ?thesis
    by (auto simp: process_item_handler_def write_error_def write_json_def
        split: option.splits if_splits prod.splits)
qed

text \<open>
  C34 (what is refused for its form or its authority). A request answered 400, 401, 403, 404 by the mux,
  or 405 has made no store call: nothing of the world behind the store has changed, not even which calls
  of the other sessions came next.
\<close>

theorem refused_requests_touch_nothing:
  assumes "new_application_handler app_version is_ready postgres_store protect = Some mux"
    and "configured_guard validate_token protect"
    and "serve mux r (v, w) = (resp, (v', w'))"
    and "rs_status resp \<in> {400, 401, 403, 405} \<or> rs_body resp = ErrorPage"
  shows "w' = w"
proof -
  from serve_cases [OF assms(1-3)] consider
    pattern handle x where "(pattern, handle) \<in> business_handlers" "handle (r\<lparr>rq_id := x\<rparr>) w = (resp, w')"
    | "w' = w" | "rs_status resp \<in> {200, 503}" "rs_body resp \<noteq> ErrorPage"
    by blast
  then show ?thesis
  proof cases
    case (1 pattern handle x)
    with business_responses [OF this] assms(4) show ?thesis by auto
  qed (use assms(4) in auto)
qed

definition sample_bad_request :: http_request where
  "sample_bad_request = sample_request ''POST'' ''/items/x/process'' [] []"

theorem refused_requests_touch_nothing_witness:
  "\<exists>mux resp v w'. serve mux sample_bad_request ((), sample_open_world) = (resp, (v, w')) \<and> rs_status resp = 400
    \<and> w' = sample_open_world"
proof -
  obtain mux where mux: "new_application_handler ''1'' True postgres_store
      (without_authentication :: (unit, world) guard) = Some mux"
    by (simp add: application_mux)
  have route: "serve mux sample_bad_request ((), sample_open_world) =
      without_authentication ''POST /items/{id}/process'' ItemsProcess (process_item_handler postgres_store)
        (sample_bad_request\<lparr>rq_id := ''x''\<rparr>) ((), sample_open_world)"
    by (rule serve_routes(5) [OF mux]) (simp_all add: sample_bad_request_def sample_request_def)
  have "parse_int64 ''x'' = None"
    by (simp add: parse_int64_def parse_signed_def parse_unsigned_def digit_value_def byte_def)
  then have run: "serve mux sample_bad_request ((), sample_open_world)
      = (write_error 400 ''invalid_item_id'', ((), sample_open_world))"
    by (simp add: route without_authentication_def process_item_handler_def)
  from refused_requests_touch_nothing [OF mux configured_guardI(1) run]
  show ?thesis using run by (fastforce simp: write_error_def write_json_def)
qed

text \<open>
  C30 (the process route, answer by answer). On a valid database where no call fails and no other session
  interferes: an unknown item is answered 404, a done item 409, an item with an active job 409 naming
  that job, all without a change; any other item 202 with its new accepted job.
\<close>

theorem process_answers:
  assumes "calm w" and "db_ok (db w)" and "seqs_ok (seqs w) (db w)" and "seqs_left (seqs w)"
    and "parse_int64 (rq_id r) = Some i" and "0 < i"
  shows "\<exists>resp w'. process_item_handler postgres_store r w = (resp, w') \<and>
    (case row_at wi_id (work_items (db w)) i of
       None \<Rightarrow> resp = write_error 404 ''work_item_not_found'' \<and> db w' = db w
     | Some row \<Rightarrow>
         if wi_status row = Done then resp = write_error 409 ''work_item_already_done'' \<and> db w' = db w
         else case find (active_job i) (processing_jobs (db w)) of
           Some q \<Rightarrow> resp = write_json [] 409 (ErrorResponse ''processing_already_active'' (pj_id q)) \<and> db w' = db w
         | None \<Rightarrow> (\<exists>now j m. resp = write_json [] 202 (ProcessingJobResponse (scan_processing_job (new_job_row j i now)))
             \<and> db w' = with_acceptance m j i now (db w)))"
proof -
  obtain res w' where run: "accept_processing_job i w = (res, w')" and
    branches: "case row_at wi_id (work_items (db w)) i of
       None \<Rightarrow> res = (no_job, Some (Sentinel ErrWorkItemNotFound)) \<and> db w' = db w
     | Some r \<Rightarrow>
         if wi_status r = Done then res = (no_job, Some (Sentinel ErrWorkItemDone)) \<and> db w' = db w
         else case find (active_job i) (processing_jobs (db w)) of
           Some q \<Rightarrow> res = (no_job\<lparr>jb_ID := pj_id q\<rparr>, Some (Sentinel ErrProcessingAlreadyActive)) \<and> db w' = db w
         | None \<Rightarrow> (\<exists>now. res = (scan_processing_job (new_job_row (seq_processing_jobs (seqs w) + 1) i now), None)
             \<and> db w' = with_acceptance (seq_outbox_messages (seqs w) + 1) (seq_processing_jobs (seqs w) + 1) i now (db w)
             \<and> seqs w' = next_sequences (seqs w))"
    using accept_processing_job_calm [OF assms(1-4), of i] by blast
  show ?thesis
  proof (cases "row_at wi_id (work_items (db w)) i")
    case None
    with run branches assms(5,6) show ?thesis by (simp add: process_item_handler_def postgres_store_def)
  next
    case row: (Some row)
    show ?thesis
    proof (cases "find (active_job i) (processing_jobs (db w))")
      case None
      with row run branches assms(5,6) show ?thesis
        by (fastforce simp: process_item_handler_def postgres_store_def split: if_splits)
    next
      case (Some q)
      with row run branches assms(5,6) show ?thesis
        by (simp add: process_item_handler_def postgres_store_def split: if_splits)
    qed
  qed
qed

theorem process_answers_witness:
  "\<exists>resp w'. process_item_handler postgres_store (sample_process_request\<lparr>rq_id := ''1''\<rparr>) sample_world = (resp, w')
    \<and> resp = write_json [] 409 (ErrorResponse ''processing_already_active'' 7) \<and> db w' = sample_database"
proof -
  have "seqs_left (seqs sample_world)"
    by (simp add: seqs_left_def sample_world_def sample_sequences_def int64_max_def)
  moreover have "db_ok (db sample_world)" "seqs_ok (seqs sample_world) (db sample_world)"
    using sample_db_ok sample_seqs_ok by (simp_all add: sample_world_def)
  ultimately show ?thesis
    using process_answers [OF sample_calm, of "sample_process_request\<lparr>rq_id := ''1''\<rparr>" 1] parse_sample_id
    by (simp add: sample_world_def sample_database_def sample_item_def sample_job_def row_at_def active_job_def)
qed

text \<open>
  C40 (a title PostgreSQL cannot store). A title with a zero byte, which JSON can write, passes the checks of the
  handler, but no TEXT column holds it: the request is answered 503, as if the database were away,
  and nothing is stored.
\<close>

theorem nul_title_unavailable:
  assumes "calm w" and "db_ok (db w)"
    and "decode_create_request (rq_body r) = Some request" and "CHR 0x00 \<in> set (trim_space (cr_Title request))"
    and "trim_space (cr_Status request) = []"
  shows "\<exists>w'. create_item_handler postgres_store r w = (write_error 503 ''persistence_unavailable'', w')
    \<and> db w' = db w"
proof -
  let ?title = "trim_space (cr_Title request)"
  have "\<exists>e w'. exec_auto (create_item_stmt ?title) w = (Inl e, w') \<and> db w' = db w"
    using assms(1,2,4)
    by (auto simp: exec_auto_def run_stmt_def create_item_stmt_def Let_def arrive_isolated calm_isolated
        calm_next answer_def immediate_ok_def work_items_ok_def work_item_row_ok_def pg_text_def db_ok_def
        split: if_splits)
  then obtain e w' where "create_work_item ?title Pending w = (Inl e, w')" "db w' = db w"
    by (auto simp: create_work_item_def)
  with create_work_item_error [OF this(1)] assms(3,4,5) show ?thesis
    by (auto simp: create_item_handler_def postgres_store_def Let_def)
qed

definition sample_nul_request :: http_request where
  "sample_nul_request = sample_request ''POST'' ''/items'' [] (''{\"title\": \"a'' @ [CHR 0x5C] @ ''u0000b\"}'')"

lemma nul_body: "string_body (CHR ''a'' # CHR 0x5C # ''u0000b\"}'') = Some ([CHR ''a'', CHR 0x00, CHR ''b''], ''}'')"
proof -
  have "(char_of (0 :: nat) :: char) = CHR 0x00" by code_simp
  then show ?thesis
    by (simp add: string_body.simps string_piece_def byte_def hex_value_def low_surrogate_def encode_rune_def)
qed

lemma sample_nul_decoded:
  "decode_create_request (rq_body sample_nul_request) = Some \<lparr>cr_Title = [CHR ''a'', CHR 0x00, CHR ''b''], cr_Status = []\<rparr>"
proof -
  have "json_next (rq_body sample_nul_request) = Inr (JObj [(''title'', JStr [CHR ''a'', CHR 0x00, CHR ''b''])], [])"
    by (simp add: sample_nul_request_def sample_request_def json_next_def skip_ws_def json_ws_def byte_def
        parse_value.simps parse_name.simps finish.simps max_nesting_def parse_scalar_def nul_body
        string_body.simps [of "CHR ''t'' # t" for t] string_body.simps [of "CHR ''i'' # t" for t]
        string_body.simps [of "CHR ''l'' # t" for t] string_body.simps [of "CHR ''e'' # t" for t]
        string_body.simps [of "CHR 0x22 # t" for t] string_piece_def)
  then show ?thesis
    by (simp add: decode_create_request_def decode_struct_def set_member_def create_request_fields_def
        field_matches_def set_string_def json_next_def skip_ws_def)
qed

theorem nul_title_unavailable_witness:
  "\<exists>w'. create_item_handler postgres_store sample_nul_request sample_open_world
      = (write_error 503 ''persistence_unavailable'', w') \<and> db w' = sample_open_database"
proof -
  have t: "trim_space [CHR ''a'', CHR 0x00, CHR ''b''] = [CHR ''a'', CHR 0x00, CHR ''b'']" "trim_space [] = []"
    by (simp_all add: trim_space_def trim_def is_space_def byte_def)
  show ?thesis
    using nul_title_unavailable [OF sample_open_ok(3,1) sample_nul_decoded] by (simp add: t) (simp add: sample_open_world_def)
qed

end
