(* ===== verification/ApplicationRuns.thy ===== *)
theory ApplicationRuns
  imports Application HttpRuns
begin

text \<open>
  The properties of the API's start-up and server: which guard a started API has, what its readiness says
  while it drains.
\<close>

section \<open>Samples\<close>

definition sample_server :: "unit http_server" where
  "sample_server = new_http_server '':8080'' ()"

definition sample_server_env :: server_env where
  "sample_server_env =
     \<lparr>se_listen = None, se_shutdown = True, se_serve = Some (Sentinel HttpErrServerClosed), se_Shutdown = None\<rparr>"

definition sample_ready_request :: http_request where
  "sample_ready_request = sample_request ''GET'' ''/ready'' [] []"

definition sample_lookup :: "string \<Rightarrow> string" where
  "sample_lookup k =
     (if k = ''DATABASE_URL'' then ''postgres://db'' else if k = ''RABBITMQ_PUBLISHER_URL'' then ''amqp://mq''
      else if k = ''AUTHENTICATION'' then ''disabled'' else [])"

lemma sample_api_config:
  "load_api_config sample_lookup (\<lambda>_. Inl (Opaque ''no file'')) = Inr
     \<lparr>ac_Address = '':8080'', ac_DatabaseURL = ''postgres://db'', ac_RabbitMQPublisherURL = ''amqp://mq'',
      ac_RabbitMQQueue = ''work_item_processing''\<rparr>"
  by (simp add: load_api_config_def Value_def sample_lookup_def defaultWorkItemProcessingQueue_def)

lemma sample_disabled: "load_config sample_lookup url_parse b = Inr disabled_config"
proof -
  have "trim_space ''disabled'' = ''disabled''" by (simp add: trim_space_def trim_def is_space_def byte_def)
  then show ?thesis by (simp add: load_config_def sample_lookup_def ModeDisabled_def)
qed

section \<open>Properties\<close>

text \<open>
  C28 (no API without an explicit decision on authentication). When the API starts, its business routes
  are behind the bearer guard with a validator made from a complete https policy, unless
  AUTHENTICATION says disabled; registering them never panics; both credentials are there.
\<close>

theorem started_api_is_guarded:
  assumes "api_start version lookup read_file (load_config lookup url_parse issuer_first) new_v validate_token new_store
      = Inr (config, server, v)"
  shows "ac_DatabaseURL config \<noteq> [] \<and> ac_RabbitMQPublisherURL config \<noteq> []
    \<and> (\<exists>store protect. new_store (ac_DatabaseURL config) = Inr store
        \<and> (\<forall>is_ready. sv_Handler server is_ready = new_application_handler version is_ready store protect
             \<and> sv_Handler server is_ready \<noteq> None)
        \<and> (if trim_space (lookup ''AUTHENTICATION'') = ''disabled'' then protect = without_authentication \<and> v = None
           else (\<exists>c v0. protect = require_bearer_token validate_token \<and> v = Some v0 \<and> new_v c = Inr v0
             \<and> https_url url_parse (cf_Issuer c) \<and> https_url url_parse (cf_JWKSURL c) \<and> cf_Audience c \<noteq> []
             \<and> cf_Algorithms c \<noteq> [])))"
proof -
  obtain c protect store where
    config: "load_api_config lookup read_file = Inr config" and
    c: "load_config lookup url_parse issuer_first = Inr c" and
    auth: "authentication_from_environment (Inr c) new_v validate_token = Inr (protect, v)" and
    store: "new_store (ac_DatabaseURL config) = Inr store" and
    server: "server = new_http_server (ac_Address config)
        (\<lambda>is_ready. new_application_handler version is_ready store protect)"
    using assms
    by (auto simp: api_start_def authentication_from_environment_def split: sum.splits if_splits)
  have "ac_DatabaseURL config \<noteq> [] \<and> ac_RabbitMQPublisherURL config \<noteq> []"
    using config by (auto simp: load_api_config_def Let_def split: sum.splits if_splits dest: Value_nonempty)
  moreover have "sv_Handler server is_ready = new_application_handler version is_ready store protect
      \<and> sv_Handler server is_ready \<noteq> None" for is_ready
    by (simp add: server new_http_server_def application_mux)
  moreover have "if trim_space (lookup ''AUTHENTICATION'') = ''disabled'' then protect = without_authentication \<and> v = None
      else (\<exists>c v0. protect = require_bearer_token validate_token \<and> v = Some v0 \<and> new_v c = Inr v0
        \<and> https_url url_parse (cf_Issuer c) \<and> https_url url_parse (cf_JWKSURL c) \<and> cf_Audience c \<noteq> []
        \<and> cf_Algorithms c \<noteq> [])"
    using load_config_cases [OF c] auth
    by (auto simp: authentication_from_environment_def ModeDisabled_def ModeOIDC_def disabled_config_def
        split: sum.splits if_splits)
  ultimately show ?thesis using store by blast
qed

theorem started_api_is_guarded_witness:
  "\<exists>config server. api_start ''1'' sample_lookup (\<lambda>_. Inl (Opaque ''no file''))
      (load_config sample_lookup (\<lambda>_. None) True) (\<lambda>_. Inr ()) (\<lambda>_ v. (Rejected ''malformed'', v)) (\<lambda>_. Inr postgres_store)
      = Inr (config, server, None)
    \<and> sv_Handler server True = new_application_handler ''1'' True postgres_store without_authentication"
proof -
  let ?start = "api_start ''1'' sample_lookup (\<lambda>_. Inl (Opaque ''no file''))
      (load_config sample_lookup (\<lambda>_. None) True) (\<lambda>_. Inr ()) (\<lambda>_ v. (Rejected ''malformed'', v)) (\<lambda>_. Inr postgres_store)"
  obtain config server where start: "?start = Inr (config, server, None)"
    by (simp add: api_start_def sample_api_config sample_disabled authentication_from_environment_def disabled_config_def)
  have "trim_space (sample_lookup ''AUTHENTICATION'') = ''disabled''"
    by (simp add: sample_lookup_def trim_space_def trim_def is_space_def byte_def)
  with started_api_is_guarded [OF start] start show ?thesis by auto
qed

text \<open>
  C33 (not ready while draining and after). At any moment of the server's run from the call that begins the graceful
  shutdown on, while requests in flight are still served, and on every branch when the listener is closed
  and when the server has returned, an error of \<open>Serve\<close> included: GET /ready answers 503 without asking
  the database, so no new traffic is sent to it.
\<close>

theorem draining_is_not_ready:
  assumes "run_http_server env server grace = (err, before @ after)"
    and "after = [] \<or> hd after \<in> {ShutdownCalled grace, ListenerClosed} \<or> ShutdownCalled grace \<in> set before"
    and "new_application_handler version (ready_after before) store protect = Some mux"
    and "rq_method r \<in> {''GET'', ''HEAD''}" and "rq_path r = ''/ready''"
  shows "serve mux r vs = (write_json [] 503 (StatusResponse ''not_ready''), vs)"
proof -
  have "segments r = [[], ''ready'']" using assms(5) by simp
  from serve_routes(1) [OF assms(3,4) this] run_http_server_ready [OF assms(1,2)]
  show ?thesis by (simp add: ready_handler_def)
qed

text \<open>The sample server when \<open>Serve\<close> has failed and it has returned.\<close>

theorem draining_is_not_ready_witness:
  "\<exists>err events mux. run_http_server (sample_server_env\<lparr>se_shutdown := False, se_serve := Some (Opaque ''accept'')\<rparr>)
      sample_server shutdownTimeout = (Some err, events)
    \<and> new_application_handler ''1'' (ready_after events) postgres_store without_authentication = Some mux
    \<and> serve mux sample_ready_request ((), sample_open_world)
      = (write_json [] 503 (StatusResponse ''not_ready''), ((), sample_open_world))"
proof -
  let ?events = "[Listening '':8080'' True, ReadinessSet True, Logged ''readiness changed: ready'', Serving,
      ServeEnded, ReadinessSet False, ListenerClosed]"
  have run: "run_http_server (sample_server_env\<lparr>se_shutdown := False, se_serve := Some (Opaque ''accept'')\<rparr>)
      sample_server shutdownTimeout = (Some (Wrap ''serve HTTP'' (Opaque ''accept'')), ?events @ [])"
    by (simp add: run_http_server_def sample_server_env_def sample_server_def new_http_server_def errorf_w_def)
  obtain mux where mux: "new_application_handler ''1'' (ready_after ?events) postgres_store
      (without_authentication :: (unit, world) guard) = Some mux"
    by (simp add: application_mux)
  have "rq_method sample_ready_request \<in> {''GET'', ''HEAD''}" "rq_path sample_ready_request = ''/ready''"
    by (simp_all add: sample_ready_request_def sample_request_def)
  from draining_is_not_ready [OF run disjI1 [OF refl] mux this] run mux show ?thesis
    by (intro exI [of _ "Wrap ''serve HTTP'' (Opaque ''accept'')"] exI [of _ ?events] exI [of _ mux]) simp
qed

end
