(* ===== verification/ApiMain.thy ===== *)
theory ApiMain
  imports ApplicationRuns RabbitPublisher
begin

text \<open>
  \<open>main\<close> of \<open>api/main.go\<close>: start-up, then the HTTP server and the outbox publisher over one PostgreSQL
  store, the publisher on RabbitMQ connections of the configured URL and queue. What signals, the
  listener, the AMQP library and the broker do is the environment. And the properties of the whole API
  process: it ends only on request, and what it published the broker confirmed.
\<close>

section \<open>The publisher factory\<close>

text \<open>
  One iteration of the publisher's loop as the broker is met: whether the context is done at the top, the
  answer of \<open>amqp.Dial\<close> if a publisher is opened, the broker's answers to a publication and the time of
  it, how the connection that is open answers its closes, how the wait ends.
\<close>

record broker_turn =
  bt_ctx_err :: bool
  bt_dial :: "string \<Rightarrow> publisher_connection result"
  bt_now :: timestamp
  bt_broker :: "publication \<Rightarrow> broker_answers"
  bt_open :: publisher_connection
  bt_wait :: wait_event

definition publisher_factory :: "string \<Rightarrow> string \<Rightarrow> broker_turn \<Rightarrow> publisher_turn" where
  "publisher_factory connection_url queue b =
     \<lparr>pt_ctx_err = bt_ctx_err b,
      pt_new = map_sum id (\<lambda>_. ()) (fst (new_rabbitmq_publisher (bt_dial b) connection_url queue)),
      pt_publish = Publish queue (bt_now b) (bt_broker b),
      pt_close = fst (close_rabbitmq_publisher \<lparr>rp_connection = bt_open b, rp_queue = queue\<rparr>),
      pt_wait = bt_wait b\<rparr>"

section \<open>The process\<close>

text \<open>
  A returned error is the text of \<open>log.Fatal\<close>, which exits at once; only a return without one runs the
  deferred \<open>store.Close()\<close>.
\<close>

datatype api_main_event = Started string string | PoolClosed

definition api_main ::
  "string \<Rightarrow> (string \<Rightarrow> string) \<Rightarrow> (string \<Rightarrow> bytes result) \<Rightarrow> authn_config result \<Rightarrow> (authn_config \<Rightarrow> 'v result)
     \<Rightarrow> (string \<Rightarrow> 'v option \<Rightarrow> verdict \<times> 'v option) \<Rightarrow> (string \<Rightarrow> world application_store result)
     \<Rightarrow> world outbox_store \<Rightarrow> server_env \<Rightarrow> bool \<Rightarrow> bool \<Rightarrow> broker_turn list \<Rightarrow> world
     \<Rightarrow> loop_outcome \<times> api_main_event list \<times> server_event list \<times> outbox_event list \<times> world" where
  "api_main version lookup read_file auth_config new_v validate_token new_store outbox
     env http_first parent_done bs w =
     (case api_start version lookup read_file auth_config new_v validate_token new_store of
        Inl err \<Rightarrow> (Returned (Some err), [], [], [], w)
      | Inr (config, server, v) \<Rightarrow>
          (case run_api env http_first parent_done server outbox
                  (map (publisher_factory (ac_RabbitMQPublisherURL config) (ac_RabbitMQQueue config)) bs) w of
             (out, http_events, outbox_events, w') \<Rightarrow>
               (out,
                Started version (ac_Address config) # (if out = Returned None then [PoolClosed] else []),
                http_events, outbox_events, w')))"

section \<open>What the publisher tried\<close>

text \<open>Every attempt of a run is a publication of one of its turns.\<close>

lemma publish_next_tried:
  "publish_next_outbox_message store publish s = (r, events, s') \<Longrightarrow> Tried m e \<in> set events \<Longrightarrow> e = publish m"
  by (auto simp: publish_next_outbox_message_def Let_def split: sum.splits option.splits prod.splits if_splits)

lemma close_publisher_tries_nothing:
  "Tried m e \<notin> set (snd (close_publisher b cerr))"
  "close_publisher b cerr = (err, events) \<Longrightarrow> Tried m e \<in> set events \<Longrightarrow> False"
  by (auto simp: close_publisher_def split: if_splits)

lemma run_outbox_publisher_tried:
  "run_outbox_publisher store reconnect idle_poll store_retry ts publisher s = (out, events, s') \<Longrightarrow>
     Tried m e \<in> set events \<Longrightarrow> \<exists>t \<in> set ts. e = pt_publish t m"
proof (induction ts arbitrary: publisher s out events s')
  case Nil
  then show ?case by simp
next
  case (Cons t ts)
  obtain processed err ev1 s1 where p: "publish_next_outbox_message store (pt_publish t) s = ((processed, err), ev1, s1)"
    by (metis prod.collapse)
  note one = publish_next_tried [OF p, of m e]
  define Q where "Q = (\<exists>t \<in> set ts. e = pt_publish t m)"
  have later: "run_outbox_publisher store reconnect idle_poll store_retry ts b v = (o2, ev2, s2) \<Longrightarrow>
      Tried m e \<in> set ev2 \<Longrightarrow> Q" for b v o2 ev2 s2
    unfolding Q_def by (rule Cons.IH)
  have "e = pt_publish t m \<or> Q"
    using Cons.prems p
    by (cases err)
       (auto simp: Let_def close_publisher_tries_nothing(1) split: if_splits prod.splits
        dest: one later close_publisher_tries_nothing(2))
  then show ?case by (auto simp: Q_def)
qed

text \<open>And a message that was tried is a row of the outbox, with its payload as PostgreSQL prints it.\<close>

definition scanned_from :: "(json \<Rightarrow> bytes) \<Rightarrow> world \<Rightarrow> outbox_message \<Rightarrow> bool" where
  "scanned_from jt w m =
     (\<exists>row. row_at ob_id (outbox_messages (db w)) (om_ID m) = Some row \<and> om_Payload m = jt (ob_payload row))"

lemma scanned_from_evolves: "scanned_from jt w m \<Longrightarrow> world_ok w \<Longrightarrow> evolves w w' \<Longrightarrow> scanned_from jt w' m"
  by (fastforce simp: scanned_from_def outbox_continues_def dest: evolves_continues continues_rowD(3))

lemma begin_attempt_scanned:
  assumes "begin_outbox_publish_attempt jt locked w = (Inr m, w')" and "world_ok w"
  shows "scanned_from jt w' m"
proof -
  obtain row where e: "exec_auto (begin_attempt_stmt locked) w = (Inr row, w')" and m: "m = scan_outbox_message jt row"
    using assms(1) by (auto simp: begin_outbox_publish_attempt_def split: prod.splits sum.splits if_splits)
  from exec_auto_Inr [OF e] obtain r where r: "next_message locked (outbox_messages (db (arrive w))) = Some r"
    "row = attempt_row r"
    "db w' = (db (arrive w))\<lparr>outbox_messages :=
        update_where (\<lambda>q. ob_id q = ob_id r) attempt_row (outbox_messages (db (arrive w)))\<rparr>"
    by (auto simp: begin_attempt_stmt_def split: option.splits)
  have "world_ok w'" using evolves_world_ok [OF begin_outbox_publish_attempt_evolves [OF assms(1)] assms(2)] .
  then have u: "unique_key ob_id (outbox_messages (db w'))" by (simp add: world_ok_def db_ok_def constraint_defs)
  have "attempt_row r \<in> set (outbox_messages (db w'))"
    using next_message_Some [OF r(1)] by (auto simp: r(3) set_update_where)
  from row_at_unique [OF u this] show ?thesis by (auto simp: scanned_from_def m r(2) scan_outbox_message_def)
qed

lemma publish_next_scanned:
  assumes run: "publish_next_outbox_message (postgres_outbox_store jt locked) publish w = (r, events, w')"
    and ok: "world_ok w" and tried: "Tried m e \<in> set events"
  shows "scanned_from jt w' m"
proof -
  obtain r1 w1 where b: "begin_outbox_publish_attempt jt (locked w) w = (r1, w1)" by (metis surj_pair)
  have ok1: "world_ok w1" using evolves_world_ok [OF begin_outbox_publish_attempt_evolves [OF b] ok] .
  from run tried b obtain m1 where r1: "r1 = Inr m1"
    by (cases r1) (auto simp: publish_next_outbox_message_def postgres_outbox_store_def split: if_splits)
  note s1 = begin_attempt_scanned [OF b [unfolded r1] ok]
  from run b r1 tried have "m = m1 \<and> evolves w1 w'"
    by (auto simp: publish_next_outbox_message_def postgres_outbox_store_def Let_def
        split: prod.splits option.splits dest: mark_outbox_published_evolves record_outbox_publish_failure_evolves)
  with scanned_from_evolves [OF s1 ok1] show ?thesis by simp
qed

lemma run_outbox_publisher_scanned:
  "run_outbox_publisher (postgres_outbox_store jt locked) reconnect idle_poll store_retry ts publisher w
     = (out, events, w') \<Longrightarrow> world_ok w \<Longrightarrow> Tried m e \<in> set events \<Longrightarrow> scanned_from jt w' m"
proof (induction ts arbitrary: publisher w out events w')
  case Nil
  then show ?case by simp
next
  case (Cons t ts)
  let ?store = "postgres_outbox_store jt locked"
  obtain processed err ev1 w1 where p: "publish_next_outbox_message ?store (pt_publish t) w = ((processed, err), ev1, w1)"
    by (metis prod.collapse)
  note one = publish_next_scanned [OF p Cons.prems(2), of m e]
  have ok1: "world_ok w1" using evolves_world_ok [OF publish_next_evolves [OF p] Cons.prems(2)] .
  define Q where "Q = scanned_from jt w' m"
  have later: Q if "run_outbox_publisher ?store reconnect idle_poll store_retry ts b w = (o2, ev2, w')"
      "Tried m e \<in> set ev2" for b o2 ev2
    unfolding Q_def by (rule Cons.IH [OF that(1) Cons.prems(2) that(2)])
  have later1: Q if "run_outbox_publisher ?store reconnect idle_poll store_retry ts b w1 = (o2, ev2, w')"
      "Tried m e \<in> set ev2" for b o2 ev2
    unfolding Q_def by (rule Cons.IH [OF that(1) ok1 that(2)])
  have here: Q if "run_outbox_publisher ?store reconnect idle_poll store_retry ts b w1 = (o2, ev2, w')"
      "Tried m e \<in> set ev1" for b o2 ev2
    unfolding Q_def by (rule scanned_from_evolves [OF one [OF that(2)] ok1 run_outbox_publisher_evolves [OF that(1)]])
  have last: Q if "w1 = w'" "Tried m e \<in> set ev1" using one that by (simp add: Q_def)
  have Q
    using Cons.prems p
    by (cases err)
       (auto simp: Let_def close_publisher_tries_nothing(1) split: if_splits prod.splits
        dest: later later1 here last close_publisher_tries_nothing(2))
  then show ?case by (simp add: Q_def)
qed

section \<open>Properties\<close>

text \<open>
  The broker confirmed a publication: it sent a confirmation, which was positive, and did not return the
  message as unroutable.
\<close>

definition broker_confirmed :: "broker_turn \<Rightarrow> publication \<Rightarrow> bool" where
  "broker_confirmed b p =
     (let a = bt_broker b p in ba_publish a = Inr True \<and> ba_wait a = Inr True \<and> ba_returns a = NothingReturned)"

text \<open>The queue the API is configured for.\<close>

definition configured_queue :: "(string \<Rightarrow> string) \<Rightarrow> string" where
  "configured_queue lookup =
     (if lookup ''RABBITMQ_QUEUE'' = [] then defaultWorkItemProcessingQueue else lookup ''RABBITMQ_QUEUE'')"

lemma started_queue:
  "api_start version lookup read_file auth_config new_v validate_token new_store = Inr (config, server, v) \<Longrightarrow>
     ac_RabbitMQQueue config = configured_queue lookup"
  by (auto simp: api_start_def load_api_config_def configured_queue_def Let_def split: sum.splits)

lemma run_api_publisher:
  "run_api env http_first parent_done server outbox ts w = (out, http_events, events, w') \<Longrightarrow>
     \<exists>out1. run_outbox_publisher outbox outboxPublisherReconnectDelay outboxPublisherIdlePollDelay
       outboxPublisherStoreRetryDelay ts False w = (out1, events, w')"
  by (auto simp: run_api_def split: prod.splits loop_outcome.splits)

text \<open>
  C11 (published means confirmed). Over a whole run of the API, whatever other sessions commit between any
  two calls, as long as they publish at most the messages \<open>P\<close>: a message that is published afterwards was
  published before, is one of \<open>P\<close>, or the broker confirmed a persistent, mandatory publication to the
  configured queue with the message's id and, as its body, the payload stored in the outbox.
\<close>

theorem published_only_if_confirmed:
  assumes "world_ok w" and "others_publish P w"
    and "api_main version lookup read_file auth_config new_v validate_token new_store
      (postgres_outbox_store jsonb_text locked) env http_first parent_done bs w = (out, log, http_events, events, w')"
    and "published_in w' k"
  shows "published_in w k \<or> k \<in> P
    \<or> (\<exists>b \<in> set bs. \<exists>p row. broker_confirmed b p \<and> pn_key p = configured_queue lookup \<and> pn_mandatory p
         \<and> pg_DeliveryMode (pn_msg p) = Persistent \<and> pg_MessageId (pn_msg p) = format_int k
         \<and> row_at ob_id (outbox_messages (db w')) k = Some row \<and> pg_Body (pn_msg p) = jsonb_text (ob_payload row))"
proof (cases "api_start version lookup read_file auth_config new_v validate_token new_store")
  case (Inl err)
  with assms(3,4) show ?thesis by (simp add: api_main_def)
next
  case (Inr csv)
  then obtain config server v where
    start: "api_start version lookup read_file auth_config new_v validate_token new_store = Inr (config, server, v)"
    by (metis prod_cases3)
  let ?ts = "map (publisher_factory (ac_RabbitMQPublisherURL config) (ac_RabbitMQQueue config)) bs"
  obtain out1 where run: "run_outbox_publisher (postgres_outbox_store jsonb_text locked) outboxPublisherReconnectDelay
      outboxPublisherIdlePollDelay outboxPublisherStoreRetryDelay ?ts False w = (out1, events, w')"
    using assms(3) start run_api_publisher by (fastforce simp: api_main_def split: prod.splits)
  show ?thesis
  proof (cases "published_in w k \<or> k \<in> P")
    case False
    with run_outbox_publisher_published [OF run assms(2,4)] obtain m where m: "Tried m None \<in> set events" "om_ID m = k"
      by (auto simp: confirmed_def)
    then obtain b where b: "b \<in> set bs" "Publish (ac_RabbitMQQueue config) (bt_now b) (bt_broker b) m = None"
      using run_outbox_publisher_tried [OF run m(1)] by (auto simp: publisher_factory_def)
    from run_outbox_publisher_scanned [OF run assms(1) m(1)] obtain row where
      "row_at ob_id (outbox_messages (db w')) k = Some row" "om_Payload m = jsonb_text (ob_payload row)"
      by (auto simp: scanned_from_def m(2))
    with b m(2) started_queue [OF start] show ?thesis
      by (intro disjI2 bexI [of _ b] exI [of _ "publication_of (ac_RabbitMQQueue config) (bt_now b) m"] exI [of _ row])
         (simp_all add: Publish_None_iff broker_confirmed_def publication_of_def)
  qed blast
qed

text \<open>A run of the API whose publisher publishes the sample message, then is told to stop.\<close>

definition sample_broker_connection :: publisher_connection where
  "sample_broker_connection =
     \<lparr>pc_channel = Inr (), pc_confirm = None, pc_channel_close = None, pc_connection_close = None\<rparr>"

definition sample_broker_turn :: "bool \<Rightarrow> broker_turn" where
  "sample_broker_turn stop =
     \<lparr>bt_ctx_err = stop, bt_dial = (\<lambda>_. Inr sample_broker_connection), bt_now = 0,
      bt_broker = (\<lambda>p. \<lparr>ba_publish = Inr True, ba_wait = Inr True, ba_returns = NothingReturned\<rparr>),
      bt_open = sample_broker_connection, bt_wait = DelayElapsed\<rparr>"

definition sample_api ::
  "loop_outcome \<times> api_main_event list \<times> server_event list \<times> outbox_event list \<times> world" where
  "sample_api =
     api_main ''1'' sample_lookup (\<lambda>_. Inl (Opaque ''no file'')) (load_config sample_lookup (\<lambda>_. None) True)
       (\<lambda>_. Inr ()) (\<lambda>_ v. (Rejected ''malformed'', v)) (\<lambda>_. Inr postgres_store)
       (postgres_outbox_store sample_jsonb_text (\<lambda>_ _. False)) sample_server_env True True
       [sample_broker_turn False, sample_broker_turn True] sample_world"

lemma sample_api_publishes:
  "\<exists>log http_events events w'. sample_api = (Returned None, log, http_events, events, w') \<and> published_in w' 4"
proof -
  let ?t = "publisher_factory ''amqp://mq'' ''work_item_processing'' (sample_broker_turn False)"
  have confirms: "pt_publish ?t m = None" for m
    by (simp add: publisher_factory_def Publish_None_iff sample_broker_turn_def)
  have ok: "db_ok (db sample_world)" "ob_publish_attempts sample_outbox < int32_max"
    using sample_db_ok by (simp_all add: sample_world_def sample_outbox_def int32_max_def)
  from publisher_round [OF sample_calm ok(1) sample_next ok(2), of sample_jsonb_text "pt_publish ?t"] confirms
  obtain ev w' now where run: "publish_next_outbox_message (postgres_outbox_store sample_jsonb_text (\<lambda>_ _. False))
      (pt_publish ?t) sample_world = ((True, None), ev, w')"
    and w': "db w' = with_published (ob_id sample_outbox) now (with_attempt (ob_id sample_outbox) (db sample_world))"
    by auto
  have "published_in w' 4"
    by (auto simp: published_in_def w' with_published_def with_attempt_def set_update_where sample_world_def
        sample_database_def sample_outbox_def unpublished_message_def unpublished_def attempt_row_def published_row_def)
  with run show ?thesis
    by (simp add: sample_api_def api_main_def api_start_def sample_api_config sample_disabled run_api_def
        authentication_from_environment_def disabled_config_def publisher_factory_def sample_broker_turn_def
        new_rabbitmq_publisher_def close_rabbitmq_publisher_def close_publisher_def close_error_def
        sample_broker_connection_def sample_server_env_def run_http_server_def run_application_def Let_def)
qed

theorem published_only_if_confirmed_witness:
  "\<exists>out log http_events events w'. sample_api = (out, log, http_events, events, w')
    \<and> (\<exists>p row. broker_confirmed (sample_broker_turn False) p \<and> pn_key p = configured_queue sample_lookup
         \<and> pg_MessageId (pn_msg p) = format_int 4 \<and> row_at ob_id (outbox_messages (db w')) 4 = Some row
         \<and> pg_Body (pn_msg p) = sample_jsonb_text (ob_payload row))"
proof -
  obtain out log http_events events w' where
    run: "sample_api = (out, log, http_events, events, w')"
    and p: "published_in w' 4" using sample_api_publishes by blast
  have "\<not> published_in sample_world 4"
    by (simp add: published_in_def sample_world_def sample_database_def sample_outbox_def unpublished_def)
  with published_only_if_confirmed [OF sample_world_ok isolated_publish [OF calm_isolated [OF sample_calm], of "{}"]
      run [unfolded sample_api_def] p] obtain b q row where
    b: "b \<in> set [sample_broker_turn False, sample_broker_turn True]" "broker_confirmed b q" and
    q: "pn_key q = configured_queue sample_lookup" "pg_MessageId (pn_msg q) = format_int 4"
      "row_at ob_id (outbox_messages (db w')) 4 = Some row" "pg_Body (pn_msg q) = sample_jsonb_text (ob_payload row)"
    by blast
  have "broker_confirmed (sample_broker_turn False) q" by (simp add: broker_confirmed_def sample_broker_turn_def)
  with run q show ?thesis by blast
qed

text \<open>
  C31 (the API stops). Once the publisher's context is done at the top of an iteration, the process returns,
  with the broker publisher closed, whatever calls failed before; it returns without error only if the
  shutdown was requested, and then closes the pool.
\<close>

theorem api_stops:
  assumes "b \<in> set bs" and "bt_ctx_err b"
  shows "\<exists>err log http_events events w'. api_main version lookup read_file auth_config new_v validate_token new_store
      outbox env http_first parent_done bs w = (Returned err, log, http_events, events, w')
    \<and> publication_phases NoPublisher events = Some NoPublisher
    \<and> (err \<noteq> None \<or> parent_done \<and> last log = PoolClosed)"
proof (cases "api_start version lookup read_file auth_config new_v validate_token new_store")
  case (Inl err)
  then show ?thesis by (simp add: api_main_def)
next
  case (Inr csv)
  then obtain config server v where
    start: "api_start version lookup read_file auth_config new_v validate_token new_store = Inr (config, server, v)"
    by (metis prod_cases3)
  let ?ts = "map (publisher_factory (ac_RabbitMQPublisherURL config) (ac_RabbitMQQueue config)) bs"
  have "\<exists>t \<in> set ?ts. pt_ctx_err t" using assms by (auto simp: publisher_factory_def)
  from run_outbox_publisher_stops [OF this] obtain perr events w' where
    run: "run_outbox_publisher outbox outboxPublisherReconnectDelay outboxPublisherIdlePollDelay
      outboxPublisherStoreRetryDelay ?ts False w = (Returned perr, events, w')" by metis
  from run_outbox_publisher_phases [OF this] have "publication_phases NoPublisher events = Some NoPublisher"
    by (simp add: open_phase_def)
  moreover obtain herr http_events where "run_http_server env server shutdownTimeout = (herr, http_events)"
    by (metis surj_pair)
  ultimately show ?thesis
    using start run run_application_None [of http_first parent_done herr perr]
    by (cases "run_application http_first parent_done herr perr") (simp_all add: api_main_def run_api_def)
qed

theorem api_stops_witness:
  "\<exists>log http_events events w'. sample_api = (Returned None, log, http_events, events, w')
    \<and> publication_phases NoPublisher events = Some NoPublisher \<and> last log = PoolClosed"
proof -
  obtain log http_events events w' where r: "sample_api = (Returned None, log, http_events, events, w')"
    using sample_api_publishes by blast
  have "sample_broker_turn True \<in> set [sample_broker_turn False, sample_broker_turn True]"
    "bt_ctx_err (sample_broker_turn True)" by (simp_all add: sample_broker_turn_def)
  from api_stops [OF this, of "''1''" sample_lookup "\<lambda>_. Inl (Opaque ''no file'')" "load_config sample_lookup (\<lambda>_. None) True"
      "\<lambda>_. Inr ()" "\<lambda>_ v. (Rejected ''malformed'', v)" "\<lambda>_. Inr postgres_store"
      "postgres_outbox_store sample_jsonb_text (\<lambda>_ _. False)" sample_server_env True True sample_world, folded sample_api_def, unfolded r]
  show ?thesis unfolding r by simp
qed

end
