(* ===== verification/Lifecycle.thy ===== *)
theory Lifecycle
  imports ApiRuns WorkerRuns
begin

text \<open>
  What the operations of both programs do to the committed database, as one relation: the
  transactions of the API's handlers, of the outbox publisher and of the worker. Above it the
  abstract specification: the life of one work item. Every transaction is at most one step in the
  life of one item.
\<close>

section \<open>Transactions\<close>

text \<open>
  The outbox publisher moves outbox rows and nothing else: row by row, each continues the one that was there.
\<close>

definition outbox_moves :: "database \<Rightarrow> database \<Rightarrow> bool" where
  "outbox_moves d d' =
     (work_items d' = work_items d \<and> processing_jobs d' = processing_jobs d
      \<and> work_item_results d' = work_item_results d
      \<and> list_all2 outbox_continues (outbox_messages d) (outbox_messages d'))"

datatype actor = Api | Publisher | Worker

inductive transaction :: "actor \<Rightarrow> database \<Rightarrow> database \<Rightarrow> bool" where
  nothing: "transaction a d d"
| new_item: "wi_id r \<notin> wi_id ` set (work_items d) \<Longrightarrow> wi_status r = Pending \<Longrightarrow>
     transaction Api d (d\<lparr>work_items := insert_row r (work_items d)\<rparr>)"
| acceptance: "acceptable i d \<Longrightarrow> j \<notin> pj_id ` set (processing_jobs d) \<Longrightarrow>
     transaction Api d (with_acceptance m j i now d)"
| publication: "outbox_moves d d' \<Longrightarrow> transaction Publisher d d'"
| completion: "row_at wi_id (work_items d) i = Some ir \<Longrightarrow> wi_status ir = Pending \<Longrightarrow>
     row_at pj_id (processing_jobs d) j = Some jr \<Longrightarrow> pj_work_item_id jr = i \<Longrightarrow> pj_state jr = Accepted \<Longrightarrow>
     transaction Worker d (completed j i (wi_title ir) now d)"
| failed_attempt: "transaction Worker d (with_failed_attempt j i code workerProcessingMaxAttempts now d)"

inductive_cases api_transaction: "transaction Api d d'"
inductive_cases publisher_transaction: "transaction Publisher d d'"
inductive_cases worker_transaction_cases: "transaction Worker d d'"

lemma outbox_moves_refl [simp]: "outbox_moves d d"
  by (simp add: outbox_moves_def list_all2_same outbox_continues_refl)

lemma outbox_moves_trans: "outbox_moves a b \<Longrightarrow> outbox_moves b c \<Longrightarrow> outbox_moves a c"
  unfolding outbox_moves_def by (auto intro: list_all2_trans [OF outbox_continues_trans])

lemma outbox_moves_update:
  assumes "\<And>r. outbox_continues r (f r) \<or> \<not> P r"
  shows "outbox_moves d (d\<lparr>outbox_messages := update_where P f (outbox_messages d)\<rparr>)"
  using assms by (auto simp: outbox_moves_def update_where_def list.rel_map list_all2_same outbox_continues_refl)

section \<open>The life of a work item\<close>

text \<open>
  The abstract specification: an item does not exist, is open, is being processed by one job, or is
  finished. Processing ends with a finished item or, when the job failed for good, with an open one
  that can be accepted again.
\<close>

datatype phase_of_item = Absent | Open | Processing int64 | Finished

inductive item_step :: "phase_of_item \<Rightarrow> phase_of_item \<Rightarrow> bool" where
  create: "item_step Absent Open"
| accept: "item_step Open (Processing j)"
| finish: "item_step (Processing j) Finished"
| give_up: "item_step (Processing j) Open"

inductive_cases item_step_from_Finished: "item_step Finished p"
inductive_simps item_step_from_Processing: "item_step (Processing j) p"

definition item_phase :: "database \<Rightarrow> int64 \<Rightarrow> phase_of_item" where
  "item_phase d i =
     (case row_at wi_id (work_items d) i of
        None \<Rightarrow> Absent
      | Some r \<Rightarrow>
          (if wi_status r = Done then Finished
           else case find (active_job i) (processing_jobs d) of
             Some q \<Rightarrow> Processing (pj_id q)
           | None \<Rightarrow> Open))"

definition actives :: "database \<Rightarrow> int64 \<Rightarrow> int64 set" where
  "actives d i = pj_id ` {q \<in> set (processing_jobs d). active_job i q}"

definition item_status :: "database \<Rightarrow> int64 \<Rightarrow> string option" where
  "item_status d i = map_option wi_status (row_at wi_id (work_items d) i)"

text \<open>At most one job of an item is active, so the phase is read off the item's status and its active jobs.\<close>

lemma actives_unique:
  assumes "db_ok d" and "q \<in> set (processing_jobs d)" "active_job i q"
    and "q' \<in> set (processing_jobs d)" "active_job i q'"
  shows "q = q'"
proof -
  have "unique_key pj_work_item_id (filter active_or_successful (processing_jobs d))"
    using assms(1) by (simp add: db_ok_def constraint_defs)
  from unique_key_eq [OF this, of q q'] assms(2-5) show ?thesis
    by (simp add: active_job_def active_or_successful_def)
qed

lemma item_phase_reads:
  assumes "db_ok d"
  shows "item_phase d i =
    (case item_status d i of
       None \<Rightarrow> Absent
     | Some st \<Rightarrow> if st = Done then Finished
         else if actives d i = {} then Open else Processing (the_elem (actives d i)))"
proof (cases "find (active_job i) (processing_jobs d)")
  case None
  then have "actives d i = {}" by (auto simp: actives_def find_None_iff)
  with None show ?thesis by (auto simp: item_phase_def item_status_def split: option.splits)
next
  case (Some q)
  then have q: "q \<in> set (processing_jobs d)" "active_job i q" by (auto simp: find_Some_iff)
  then have "actives d i = {pj_id q}" using actives_unique [OF assms] by (auto simp: actives_def)
  with Some show ?thesis by (auto simp: item_phase_def item_status_def split: option.splits)
qed

lemma item_phase_finished: "item_status d i = Some Done \<Longrightarrow> item_phase d i = Finished"
  by (auto simp: item_phase_def item_status_def)

lemma item_phase_cong:
  "db_ok d \<Longrightarrow> db_ok d' \<Longrightarrow> item_status d' i = item_status d i \<Longrightarrow> actives d' i = actives d i \<Longrightarrow>
     item_phase d' i = item_phase d i"
  by (simp add: item_phase_reads split: option.split)

text \<open>Active jobs belong to items that exist.\<close>

lemma actives_absent: "db_ok d \<Longrightarrow> item_status d i = None \<Longrightarrow> actives d i = {}"
  by (auto simp: actives_def active_job_def item_status_def row_at_None_iff db_ok_def constraint_defs list_all_iff)

section \<open>Every transaction is a step in the life of at most one item\<close>

definition one_item_moves :: "database \<Rightarrow> database \<Rightarrow> int64 \<Rightarrow> bool" where
  "one_item_moves d d' i =
     ((item_phase d' i = item_phase d i \<or> item_step (item_phase d i) (item_phase d' i))
      \<and> (\<forall>k. k \<noteq> i \<longrightarrow> item_phase d' k = item_phase d k))"

lemma one_item_movesI:
  assumes "db_ok d" and "db_ok d'"
    and "\<And>k. k \<noteq> i \<Longrightarrow> item_status d' k = item_status d k" and "\<And>k. k \<noteq> i \<Longrightarrow> actives d' k = actives d k"
    and "item_phase d' i = item_phase d i \<or> item_step (item_phase d i) (item_phase d' i)"
  shows "one_item_moves d d' i"
  using item_phase_cong [OF assms(1,2)] assms(3-5) by (simp add: one_item_moves_def)

lemma new_item_moves:
  assumes "db_ok d" and "db_ok (d\<lparr>work_items := insert_row r (work_items d)\<rparr>)"
    and "wi_id r \<notin> wi_id ` set (work_items d)" and "wi_status r = Pending"
  shows "one_item_moves d (d\<lparr>work_items := insert_row r (work_items d)\<rparr>) (wi_id r)"
proof (rule one_item_movesI [OF assms(1,2)])
  let ?d = "d\<lparr>work_items := insert_row r (work_items d)\<rparr>"
  have none: "row_at wi_id (work_items d) (wi_id r) = None" using assms(3) by (simp add: row_at_None_iff)
  have "item_status d (wi_id r) = None" by (simp add: item_status_def none)
  with actives_absent [OF assms(1)] have "actives ?d (wi_id r) = {}" by (simp add: actives_def)
  moreover have "item_status ?d (wi_id r) = Some Pending" by (simp add: item_status_def row_at_insert none assms(4))
  moreover have "Pending \<noteq> Done" by (simp add: Pending_def Done_def)
  ultimately show "item_phase ?d (wi_id r) = item_phase d (wi_id r) \<or> item_step (item_phase d (wi_id r)) (item_phase ?d (wi_id r))"
    using \<open>item_status d (wi_id r) = None\<close> by (simp add: item_phase_reads assms(1,2) item_step.create)
qed (auto simp: item_status_def row_at_insert actives_def split: option.split)

lemma acceptance_moves:
  assumes "db_ok d" and "db_ok (with_acceptance m j i now d)" and a: "acceptable i d"
  shows "one_item_moves d (with_acceptance m j i now d) i"
proof (rule one_item_movesI [OF assms(1,2)])
  let ?d = "with_acceptance m j i now d"
  note defs = with_acceptance_def with_new_message_def with_new_job_def
  show "item_status ?d k = item_status d k" for k by (simp add: item_status_def defs)
  show "actives ?d k = actives d k" if "k \<noteq> i" for k
    using that by (auto simp: actives_def defs active_job_def new_job_row_def)
  have "actives d i = {}" using a by (auto simp: actives_def acceptable_def)
  moreover have "new_job_row j i now \<in> {q \<in> set (processing_jobs ?d). active_job i q}"
    by (simp add: defs active_job_def new_job_row_def)
  then have "actives ?d i \<noteq> {}" unfolding actives_def by blast
  moreover obtain st where "item_status d i = Some st" "st \<noteq> Done"
    using a by (auto simp: acceptable_def item_status_def split: option.splits)
  moreover have "item_status ?d i = item_status d i" by (simp add: item_status_def defs)
  ultimately show "item_phase ?d i = item_phase d i \<or> item_step (item_phase d i) (item_phase ?d i)"
    by (simp add: item_phase_reads assms(1,2) item_step.accept)
qed

lemma publication_moves:
  assumes "db_ok d" and "db_ok d'" and "outbox_moves d d'"
  shows "one_item_moves d d' i"
  using assms(3) item_phase_cong [OF assms(1,2)]
  by (simp add: one_item_moves_def outbox_moves_def item_status_def actives_def)

text \<open>The jobs an update of one job leaves active.\<close>

lemma actives_update_other:
  assumes "\<And>r. P r \<Longrightarrow> pj_work_item_id r = i" and "\<And>r. pj_work_item_id (f r) = pj_work_item_id r"
    and "k \<noteq> i" and "processing_jobs d' = update_where P f (processing_jobs d)"
  shows "actives d' k = actives d k"
proof -
  have "{q \<in> set (processing_jobs d'). active_job k q} = {q \<in> set (processing_jobs d). active_job k q}"
    using assms(1-3) by (auto simp: assms(4) set_update_where active_job_def)
  then show ?thesis by (simp add: actives_def)
qed

lemma actives_update_sub:
  assumes "\<And>r. pj_id (f r) = pj_id r" and "\<And>r. P r \<Longrightarrow> active_job i r"
    and "processing_jobs d' = update_where P f (processing_jobs d)"
  shows "actives d' i \<subseteq> actives d i"
proof
  fix x assume "x \<in> actives d' i"
  then obtain q where q: "q \<in> set (processing_jobs d)" "x = pj_id (if P q then f q else q)"
    "active_job i (if P q then f q else q)"
    by (auto simp: actives_def assms(3) set_update_where)
  then have "active_job i q" and "x = pj_id q" using assms(1) assms(2) [of q] by (cases "P q"; simp)+
  with q(1) show "x \<in> actives d i" by (auto simp: actives_def)
qed

lemma completed_item_status:
  assumes "row_at wi_id (work_items d) i = Some ir" and "wi_status ir = Pending"
  shows "item_status (completed j i t now d) k = (if k = i then Some Done else item_status d k)"
  using assms
  by (cases "k = i")
     (auto simp: item_status_def completed_def with_result_def with_done_item_def with_succeeded_job_def
        done_update.row_at_update pending_item_def map_option_case split: option.split dest: row_at_Some_in)

lemma completion_moves:
  assumes ok: "db_ok d" and ok': "db_ok (completed j i t now d)"
    and item: "row_at wi_id (work_items d) i = Some ir" "wi_status ir = Pending"
    and job: "row_at pj_id (processing_jobs d) j = Some jr" "pj_work_item_id jr = i" "pj_state jr = Accepted"
  shows "one_item_moves d (completed j i t now d) i"
proof (rule one_item_movesI [OF ok ok'])
  let ?d = "completed j i t now d"
  note defs = completed_def with_result_def with_done_item_def with_succeeded_job_def
  note st = completed_item_status [OF item]
  from st show "k \<noteq> i \<Longrightarrow> item_status ?d k = item_status d k" for k by simp
  show "k \<noteq> i \<Longrightarrow> actives ?d k = actives d k" for k
    by (rule actives_update_other [of "open_job j i" i "succeed_row now" k])
       (simp_all add: open_job_def succeed_row_def defs)
  have "actives d i \<noteq> {}" using job row_at_Some_in [OF job(1)] by (auto simp: actives_def active_job_def)
  then show "item_phase ?d i = item_phase d i \<or> item_step (item_phase d i) (item_phase ?d i)"
    using st item by (simp add: item_phase_reads ok ok' item_status_def Pending_def Done_def item_step.finish)
qed

lemma failed_attempt_moves:
  assumes ok: "db_ok d" and ok': "db_ok (with_failed_attempt j i code n now d)"
  shows "one_item_moves d (with_failed_attempt j i code n now d) i"
proof (rule one_item_movesI [OF ok ok'])
  let ?d = "with_failed_attempt j i code n now d"
  have st: "item_status ?d k = item_status d k" for k by (simp add: item_status_def with_failed_attempt_def)
  then show "item_status ?d k = item_status d k" for k .
  show "k \<noteq> i \<Longrightarrow> actives ?d k = actives d k" for k
    by (rule actives_update_other [of "open_job j i" i "record_failure_row code n now" k])
       (simp_all add: open_job_def record_failure_row_def with_failed_attempt_def)
  have sub: "actives ?d i \<subseteq> actives d i"
    by (rule actives_update_sub [of "record_failure_row code n now" "open_job j i"])
       (simp_all add: record_failure_row_def open_job_def active_job_def with_failed_attempt_def)
  have single: "x = y" if "x \<in> actives d i" "y \<in> actives d i" for x y
    using that actives_unique [OF ok] by (auto simp: actives_def)
  have "actives ?d i = actives d i \<or> actives ?d i = {} \<and> actives d i \<noteq> {}"
  proof (cases "actives ?d i = {}")
    case False
    then obtain x where "x \<in> actives ?d i" by blast
    then have x: "x \<in> actives ?d i" "x \<in> actives d i" using sub by auto
    have "actives d i \<subseteq> actives ?d i" using single [OF _ x(2)] x(1) by auto
    with sub have "actives ?d i = actives d i" by auto
    then show ?thesis by simp
  qed auto
  then show "item_phase ?d i = item_phase d i \<or> item_step (item_phase d i) (item_phase ?d i)"
    unfolding item_phase_reads [OF ok] item_phase_reads [OF ok'] st
    by (auto intro: item_step.give_up split: option.split)
qed

text \<open>The refinement: a transaction of the system is a step, or none, in the life of one item.\<close>

lemma transaction_refines:
  assumes "transaction a d d'" and "db_ok d" and "db_ok d'"
  shows "\<exists>i. one_item_moves d d' i"
  using assms
proof (cases rule: transaction.cases)
  case nothing
  then show ?thesis by (simp add: one_item_moves_def)
qed (use assms in \<open>blast intro: new_item_moves acceptance_moves publication_moves completion_moves failed_attempt_moves\<close>)+

end
