(* ===== verification/Transactions.thy ===== *)
theory Transactions
  imports Lifecycle HttpRuns
begin

text \<open>
  Every operation of the two programs, alone on the database and whichever of its calls fail, is one
  transaction: the detailed, statement-by-statement definitions implement the relation of \<open>Lifecycle\<close>.
\<close>

section \<open>Isolated worlds\<close>

lemma isolated_rely: "isolated w \<Longrightarrow> rely w"
  by (auto simp: isolated_def rely_def others_ok_def seqs_le_def)

lemma isolated_world_ok: "isolated w \<Longrightarrow> db_ok (db w) \<Longrightarrow> seqs_ok (seqs w) (db w) \<Longrightarrow> world_ok w"
  by (simp add: world_ok_def isolated_rely)

lemma read_only_isolated:
  assumes "isolated w" and "exec_auto st w = (r, w')" and "\<And>now d sq v eff sq'. st now d sq = (Inr v, eff, sq') \<Longrightarrow> eff = id"
  shows "db w' = db w" and "isolated w'"
  using exec_auto_isolated(1,2) [OF assms(1,2)] assms(3) by (force, simp)

section \<open>The API\<close>

lemma create_work_item_transaction:
  assumes iso: "isolated w" and ok: "world_ok w" and run: "create_work_item t st w = (r, w')"
  shows "transaction Api (db w) (db w')"
proof (cases "exec_auto (create_item_stmt t) w")
  case (Pair r1 w1)
  show ?thesis
  proof (cases "st = Pending")
    case False
    with run show ?thesis by (simp add: create_work_item_def transaction.nothing)
  next
    case True
    with run Pair have w': "w' = w1" by (auto simp: create_work_item_def split: sum.splits)
    have ok': "db_ok (db w')"
      using evolves_world_ok [OF create_work_item_evolves [OF run] ok] by (simp add: world_ok_def)
    from exec_auto_isolated(2) [OF iso Pair] show ?thesis
    proof
      assume "db w1 = db w"
      then show ?thesis by (simp add: w' transaction.nothing)
    next
      assume "\<exists>v eff sq. create_item_stmt t (clock (next_turn w)) (db w) (seqs w) = (Inr v, eff, sq) \<and> db w1 = eff (db w)"
      then obtain row where row: "db w' = (db w)\<lparr>work_items := insert_row row (work_items (db w))\<rparr>" "wi_status row = Pending"
        by (auto simp: w' create_item_stmt_def Let_def split: if_splits)
      with ok' have "wi_id row \<notin> wi_id ` set (work_items (db w))"
        by (simp add: db_ok_def constraint_defs)
      with row show ?thesis by (simp add: transaction.new_item)
    qed
  qed
qed

lemma accepted_database_acceptable:
  assumes ok: "db_ok d" and ok': "db_ok (with_acceptance m j i now d)"
  shows "acceptable i d" and "j \<notin> pj_id ` set (processing_jobs d)"
proof -
  note defs = with_acceptance_def with_new_message_def with_new_job_def
  let ?row = "new_job_row j i now"
  show "j \<notin> pj_id ` set (processing_jobs d)"
    using ok' by (simp add: db_ok_def constraint_defs defs) (simp add: new_job_row_def)
  have "i \<in> wi_id ` set (work_items d)"
    using ok' by (simp add: db_ok_def constraint_defs defs) (simp add: new_job_row_def)
  then obtain r where r: "row_at wi_id (work_items d) i = Some r"
    using row_at_None_iff [of wi_id "work_items d" i] by fastforce
  have active: "active_or_successful ?row" by (simp add: active_or_successful_def new_job_row_def)
  have "filter active_or_successful (insert_row ?row (processing_jobs d))
      = insert_row ?row (filter active_or_successful (processing_jobs d))"
    using active by (simp add: insert_row_def)
  then have other: "i \<notin> pj_work_item_id ` set (filter active_or_successful (processing_jobs d))"
    using ok' by (simp add: db_ok_def constraint_defs defs) (simp add: new_job_row_def)
  then have "\<not> active_job i q" if "q \<in> set (processing_jobs d)" for q
    using that by (auto simp: active_job_def active_or_successful_def)
  moreover have "wi_status r \<noteq> Done"
  proof
    assume "wi_status r = Done"
    then have "i \<in> wr_work_item_id ` set (work_item_results d)"
      using ok row_at_Some_in [OF r] by (auto simp: db_ok_def deferred_defs list_all_iff)
    then obtain q where "q \<in> set (processing_jobs d)" "pj_work_item_id q = i" "pj_state q = Succeeded"
      using ok by (auto simp: db_ok_def deferred_defs list_all_iff)
    with other show False by (auto simp: active_or_successful_def)
  qed
  ultimately show "acceptable i d" using r by (simp add: acceptable_def)
qed

lemma accept_processing_job_transaction:
  assumes iso: "isolated w" and ok: "world_ok w" and run: "accept_processing_job i w = (r, w')"
  shows "transaction Api (db w) (db w')"
proof -
  obtain job err where r: "r = (job, err)" by (cases r)
  have ok': "db_ok (db w')"
    using evolves_world_ok [OF accept_processing_job_evolves [OF run] ok] by (simp add: world_ok_def)
  have ok0: "db_ok (db w)" using ok by (simp add: world_ok_def)
  from accept_processing_job_isolated [OF iso run [unfolded r]] show ?thesis
  proof (elim disjE exE conjE)
    fix j m now
    assume w': "db w' = with_acceptance m j i now (db w)"
    from accepted_database_acceptable [OF ok0 ok' [unfolded w']] show ?thesis
      unfolding w' by (rule transaction.acceptance)
  qed (simp add: transaction.nothing)
qed

lemma probe_all_reads: "isolated w \<Longrightarrow> probe_all n w = (r, w') \<Longrightarrow> db w' = db w"
proof (induction n arbitrary: w r)
  case (Suc n)
  obtain r1 w1 where e: "exec_auto probe_stmt w = (r1, w1)" by (metis surj_pair)
  have "db w1 = db w" "isolated w1"
    using read_only_isolated [OF Suc.prems(1) e] by (auto simp: probe_stmt_def)
  with Suc e show ?case by (auto split: sum.splits if_splits)
qed simp

lemma handler_transaction:
  assumes "(pattern, handle) \<in> business_handlers" and "isolated w" and "world_ok w" and "handle r w = (resp, w')"
  shows "transaction Api (db w) (db w')"
  using assms(1)
proof (cases rule: business_handlers_cases)
  case 1
  with assms(2-4) show ?thesis
    by (auto simp: create_item_handler_def postgres_store_def Let_def
        split: option.splits if_splits prod.splits sum.splits
        intro: transaction.nothing create_work_item_transaction)
next
  case 2
  obtain r1 w1 where e: "exec_auto list_items_stmt w = (r1, w1)" by (metis surj_pair)
  have "db w1 = db w" using read_only_isolated(1) [OF assms(2) e] by (simp add: list_items_stmt_def)
  with 2 assms(4) e show ?thesis
    by (auto simp: list_items_handler_def postgres_store_def list_work_items_def
        split: sum.splits intro: transaction.nothing)
next
  case 3
  have "db w1 = db w" if "exec_auto (api_select_job_stmt j) w = (r1, w1)" for j r1 w1
    using read_only_isolated(1) [OF assms(2) that] by (simp add: api_select_job_stmt_def)
  with 3 assms(4) show ?thesis
    by (auto simp: get_job_handler_def postgres_store_def api_get_processing_job_def
        split: option.splits if_splits prod.splits sum.splits intro: transaction.nothing)
next
  case 4
  with assms(2-4) show ?thesis
    by (auto simp: process_item_handler_def postgres_store_def
        split: option.splits if_splits prod.splits
        intro: transaction.nothing accept_processing_job_transaction)
qed

section \<open>The outbox publisher\<close>

lemma publisher_row_continues:
  "outbox_continues r (attempt_row r)"
  "unpublished_message k r \<Longrightarrow> outbox_continues r (published_row now r)"
  "outbox_continues r (publish_failure_row code r)"
  by (auto simp: outbox_continues_def attempt_row_def published_row_def publish_failure_row_def
      unpublished_message_def unpublished_def)

lemma begin_attempt_moves:
  assumes "isolated w" and "begin_outbox_publish_attempt jt locked w = (r, w')"
  shows "outbox_moves (db w) (db w')"
    and "r = Inr m \<Longrightarrow> \<exists>row \<in> set (outbox_messages (db w)). m = scan_outbox_message jt (attempt_row row) \<and> unpublished row"
proof -
  obtain r1 where e: "exec_auto (begin_attempt_stmt locked) w = (r1, w')"
    and r1: "r = Inr m \<Longrightarrow> \<exists>row. r1 = Inr row \<and> m = scan_outbox_message jt row"
    using assms(2) by (auto simp: begin_outbox_publish_attempt_def split: prod.splits sum.splits if_splits)
  note s = exec_auto_isolated [OF assms(1) e]
  show "outbox_moves (db w) (db w')"
    using s(2) by (auto simp: begin_attempt_stmt_def publisher_row_continues intro!: outbox_moves_update
        split: option.splits)
  show "\<exists>row \<in> set (outbox_messages (db w)). m = scan_outbox_message jt (attempt_row row) \<and> unpublished row" if "r = Inr m"
    using r1 [OF that] s(3) next_message_Some
    by (fastforce simp: begin_attempt_stmt_def split: option.splits)
qed

text \<open>The publisher's three operations leave an isolated world isolated.\<close>

lemma outbox_operations_isolated:
  "isolated w \<Longrightarrow> begin_outbox_publish_attempt jt locked w = (r, w') \<Longrightarrow> isolated w'"
  "isolated w \<Longrightarrow> mark_outbox_published k w = (e, w') \<Longrightarrow> isolated w'"
  "isolated w \<Longrightarrow> record_outbox_publish_failure k code w = (e, w') \<Longrightarrow> isolated w'"
  by (auto simp: begin_outbox_publish_attempt_def mark_outbox_published_def record_outbox_publish_failure_def
      split: prod.splits sum.splits if_splits dest: exec_auto_isolated(1))

lemma publish_next_isolated:
  "isolated w \<Longrightarrow> publish_next_outbox_message (postgres_outbox_store jt locked) publish w = (r, events, w') \<Longrightarrow> isolated w'"
  by (auto simp: publish_next_outbox_message_def postgres_outbox_store_def Let_def
      split: prod.splits sum.splits option.splits if_splits dest: outbox_operations_isolated)

lemma mark_published_moves:
  assumes "isolated w" and "mark_outbox_published k w = (r, w')"
  shows "outbox_moves (db w) (db w')"
proof -
  obtain r1 where e: "exec_auto (mark_published_stmt k) w = (r1, w')"
    using assms(2) by (auto simp: mark_outbox_published_def split: prod.splits sum.splits if_splits)
  from exec_auto_isolated(2) [OF assms(1) e] show ?thesis
    by (auto simp: mark_published_stmt_def publisher_row_continues intro!: outbox_moves_update)
qed

lemma record_publish_failure_moves:
  assumes "isolated w" and "record_outbox_publish_failure k code w = (r, w')"
  shows "outbox_moves (db w) (db w')"
proof -
  obtain r1 where e: "exec_auto (publish_failure_stmt k code) w = (r1, w')"
    using assms(2) by (auto simp: record_outbox_publish_failure_def split: prod.splits sum.splits if_splits)
  from exec_auto_isolated(2) [OF assms(1) e] show ?thesis
    by (auto simp: publish_failure_stmt_def publisher_row_continues intro!: outbox_moves_update)
qed

text \<open>One round: its outbox moves, and what it tried is a message of the outbox, as the store reads it.\<close>

lemma publish_next_moves:
  assumes iso: "isolated w"
    and run: "publish_next_outbox_message (postgres_outbox_store jt locked) publish w = (r, events, w')"
  shows "outbox_moves (db w) (db w')"
    and "Tried m e \<in> set events \<Longrightarrow>
      \<exists>row \<in> set (outbox_messages (db w)). m = scan_outbox_message jt (attempt_row row) \<and> unpublished row"
proof -
  obtain r1 w1 where b: "begin_outbox_publish_attempt jt (locked w) w = (r1, w1)" by (metis surj_pair)
  note s1 = begin_attempt_moves [OF iso b]
  have iso1: "isolated w1" by (rule outbox_operations_isolated(1) [OF iso b])
  have moves: "outbox_moves (db w) (db w') \<and>
    (\<forall>m e. Tried m e \<in> set events \<longrightarrow>
      (\<exists>row \<in> set (outbox_messages (db w)). m = scan_outbox_message jt (attempt_row row) \<and> unpublished row))"
  proof (cases r1)
    case (Inl err)
    with run b s1 show ?thesis
      by (auto simp: publish_next_outbox_message_def postgres_outbox_store_def split: if_splits)
  next
    case (Inr msg)
    obtain e2 w2 where f: "record_outbox_publish_failure (om_ID msg) outboxPublishFailureCode w1 = (e2, w2)"
      by (metis surj_pair)
    obtain e3 w3 where d: "mark_outbox_published (om_ID msg) w1 = (e3, w3)" by (metis surj_pair)
    note moves = outbox_moves_trans [OF s1(1) record_publish_failure_moves [OF iso1 f]]
      outbox_moves_trans [OF s1(1) mark_published_moves [OF iso1 d]]
    from run b Inr f d moves s1(2) [OF Inr] show ?thesis
      by (cases "publish msg"; cases e2; cases e3)
         (auto simp: publish_next_outbox_message_def postgres_outbox_store_def Let_def)
  qed
  then show "outbox_moves (db w) (db w')"
    and "Tried m e \<in> set events \<Longrightarrow>
      \<exists>row \<in> set (outbox_messages (db w)). m = scan_outbox_message jt (attempt_row row) \<and> unpublished row"
    by blast+
qed

section \<open>The worker\<close>

lemma get_job_isolated:
  assumes "isolated w" and "get_processing_job exec_auto j i w = (r, w')"
  shows "db w' = db w" and "isolated w'" and "seqs w' = seqs w"
proof -
  obtain r1 where e: "exec_auto (select_job_stmt j) w = (r1, w')"
    using assms(2) by (auto simp: get_processing_job_def Let_def split: prod.splits sum.splits if_splits)
  show "db w' = db w" and "isolated w'"
    using read_only_isolated [OF assms(1) e] by (simp_all add: select_job_stmt_def)
  show "seqs w' = seqs w"
    using e assms(1)
    by (auto simp: exec_auto_def Let_def run_stmt_def select_job_stmt_def arrive_isolated
        split: prod.splits sum.splits if_splits)
qed

lemma complete_processing_job_transaction:
  assumes "isolated w" and "world_ok w" and "complete_processing_job j i w = (r, w')"
  shows "transaction Worker (db w) (db w')"
proof -
  have "job_row_ok jr" if "row_at pj_id (processing_jobs (db w)) j = Some jr" for jr
    using assms(2) row_at_Some_in [OF that] by (auto simp: world_ok_def db_ok_def constraint_defs list_all_iff)
  then have "pj_state jr = Accepted" if "row_at pj_id (processing_jobs (db w)) j = Some jr" "\<not> terminal (pj_state jr)" for jr
    using that by (auto simp: job_row_ok_def terminal_def)
  with complete_processing_job_isolated [OF assms(1,3)] show ?thesis
    by (auto intro: transaction.nothing transaction.completion)
qed

lemma record_processing_failure_transaction:
  assumes "isolated w" and "record_processing_failure j i code workerProcessingMaxAttempts w = (r, w')"
  shows "transaction Worker (db w) (db w')"
proof -
  obtain r1 w1 where e: "exec_auto (record_failure_stmt j i code workerProcessingMaxAttempts) w = (r1, w1)" by (metis surj_pair)
  note s = exec_auto_isolated [OF assms(1) e]
  have "db w1 = db w \<or> db w1 = with_failed_attempt j i code workerProcessingMaxAttempts (clock (next_turn w)) (db w)"
    using s(2) by (auto simp: record_failure_stmt_def with_failed_attempt_def)
  then have w1: "transaction Worker (db w) (db w1)"
    by (elim disjE) (simp_all add: transaction.nothing transaction.failed_attempt)
  obtain r2 w2 where e2: "exec_auto (select_job_stmt j) w1 = (r2, w2)" by (metis surj_pair)
  have w2: "db w2 = db w1" using read_only_isolated(1) [OF s(1) e2] by (simp add: select_job_stmt_def)
  have "w' \<in> {w, w1, w2}"
    using assms(2) e e2
    by (auto simp: record_processing_failure_def Let_def split: sum.splits if_splits)
  with w1 w2 transaction.nothing show ?thesis by auto
qed

text \<open>A delivery, with a processor of its own that leaves the database alone.\<close>

lemma worker_transaction:
  assumes iso: "isolated w" and ok: "world_ok w"
    and run: "handle_worker_message_with_processor postgres_worker_store processor payload w = (r, w')"
    and proc: "\<And>m v. snd (processor m v) = v"
  shows "transaction Worker (db w) (db w')"
proof (cases "\<exists>m. accepted_message payload m")
  case False
  with handler_rejects_unaccepted [of payload postgres_worker_store processor w] run show ?thesis
    by (auto intro: transaction.nothing)
next
  case True
  then obtain m where m: "decode_worker_message payload = Inr m" "validate_worker_message m = None"
    by (auto simp: accepted_message_def)
  obtain r1 w1 where g: "get_processing_job exec_auto (wm_JobID m) (wm_WorkItemID m) w = (r1, w1)"
    by (metis surj_pair)
  note s1 = get_job_isolated [OF iso g]
  have ok1: "world_ok w1" using evolves_world_ok [OF get_processing_job_evolves [OF g] ok] .
  obtain perr where p: "processor m w1 = (perr, w1)" using proc [of m w1] by (cases "processor m w1") simp
  obtain r2 w2 where c: "complete_processing_job (wm_JobID m) (wm_WorkItemID m) w1 = (r2, w2)" by (metis surj_pair)
  obtain r3 w3 where f: "record_processing_failure (wm_JobID m) (wm_WorkItemID m) workerProcessingFailureCode
      workerProcessingMaxAttempts w1 = (r3, w3)" by (metis surj_pair)
  note t = complete_processing_job_transaction [OF s1(2) ok1 c] record_processing_failure_transaction [OF s1(2) f]
  from run m g p c f have "w' \<in> {w1, w2, w3}"
    by (cases r1; cases r2; cases r3; cases perr)
       (auto simp: handler_defs postgres_worker_store_def split: if_splits)
  with t s1(1) show ?thesis by (auto intro: transaction.nothing)
qed

end
