(* ===== verification/Rejections.thy ===== *)
theory Rejections
  imports Transactions
begin

text \<open>
  What the worker rejects for good: only a payload that is no message, or that names a job which is not open
  for that item in the committed database of that moment. An accepted job's own message is acknowledged or
  returned to the queue, never dropped.
\<close>

section \<open>The errors of single calls\<close>

lemma exec_tx_Inl:
  assumes "exec_tx st x = (Inl e, x')"
  shows "e = driver_error \<or> e = constraint_error
    \<or> (\<exists>eff sq. st (tx_start x) (tx_view (tx_arrive x)) (seqs (tx_world (tx_arrive x))) = (Inl e, eff, sq))"
  using assms
  by (auto simp: exec_tx_def Let_def run_stmt_def split: prod.splits sum.splits if_splits)

lemma begin_tx_Inl: "begin_tx w = (Inl e, x) \<Longrightarrow> e = driver_error"
  by (auto simp: begin_tx_def answer_def split: if_splits)

lemma commit_tx_Inl: "commit_tx x = (Inl e, w) \<Longrightarrow> e = driver_error \<or> e = constraint_error"
  by (auto simp: commit_tx_def Let_def answer_def split: if_splits)

text \<open>The errors the handler rejects on.\<close>

definition rejecting :: "go_error \<Rightarrow> bool" where
  "rejecting e =
     (errors_is e WorkerErrProcessingJobNotFound \<or> errors_is e WorkerErrProcessingJobMismatch
      \<or> errors_is e WorkerErrWorkItemNotPending)"

lemma rejecting_simps [simp]:
  "\<not> rejecting driver_error" "\<not> rejecting constraint_error" "\<not> rejecting job_conflict"
  "\<not> rejecting (Opaque t)" "rejecting (Wrap t e) = rejecting e"
  "\<not> rejecting (Sentinel PgxErrNoRows)" "\<not> rejecting (Sentinel WorkerErrProcessingJobConflict)"
  by (simp_all add: rejecting_def job_conflict_def)

section \<open>A known job, an accepted job, and its item\<close>

definition open_in :: "database \<Rightarrow> int64 \<Rightarrow> int64 \<Rightarrow> bool" where
  "open_in d j i =
     (\<exists>r. row_at pj_id (processing_jobs d) j = Some r \<and> pj_work_item_id r = i \<and> pj_state r = Accepted)"

definition known_in :: "database \<Rightarrow> int64 \<Rightarrow> int64 \<Rightarrow> bool" where
  "known_in d j i = (\<exists>r. row_at pj_id (processing_jobs d) j = Some r \<and> pj_work_item_id r = i)"

lemma open_in_item_pending:
  assumes "db_ok d" and "open_in d j i"
  shows "\<exists>ir. row_at wi_id (work_items d) i = Some ir \<and> wi_status ir = Pending"
proof -
  obtain q where q: "q \<in> set (processing_jobs d)" "pj_work_item_id q = i" "pj_state q = Accepted"
    using assms(2) row_at_Some_in unfolding open_in_def by fastforce
  then have "i \<in> wi_id ` set (work_items d)"
    using assms(1) by (auto simp: db_ok_def constraint_defs list_all_iff)
  then obtain ir where ir: "row_at wi_id (work_items d) i = Some ir"
    using row_at_None_iff [of wi_id "work_items d" i] by fastforce
  have "wi_status ir \<noteq> Done"
  proof
    assume "wi_status ir = Done"
    then have "i \<in> wr_work_item_id ` set (work_item_results d)"
      using assms(1) row_at_Some_in [OF ir] by (auto simp: db_ok_def deferred_defs list_all_iff)
    then obtain p where p: "p \<in> set (processing_jobs d)" "pj_work_item_id p = i" "pj_state p = Succeeded"
      using assms(1) by (auto simp: db_ok_def deferred_defs list_all_iff)
    moreover have "unique_key pj_work_item_id (filter active_or_successful (processing_jobs d))"
      using assms(1) by (simp add: db_ok_def constraint_defs)
    ultimately have "p = q" using q by (auto simp: active_or_successful_def dest!: unique_key_eq [of _ _ p q])
    with p q show False by (simp add: Accepted_def Succeeded_def)
  qed
  moreover have "work_item_row_ok ir"
    using assms(1) row_at_Some_in [OF ir] by (auto simp: db_ok_def constraint_defs list_all_iff)
  ultimately show ?thesis using ir by (auto simp: work_item_row_ok_def)
qed

section \<open>Operations that report such an error\<close>

text \<open>
  When an operation reports an error the handler rejects on, the job is not open in the committed tables
  of that moment: it is not there, belongs to another item, or its item is done and so the job settled.
  And the operation has written nothing.
\<close>

lemma exec_auto_read:
  assumes "exec_auto st w = (r, w')" and "\<And>now d sq v eff sq'. st now d sq = (Inr v, eff, sq') \<Longrightarrow> eff = id"
  shows "db w' = db (arrive w)"
proof -
  have "eff = id" if "run_stmt st now d sq = (q, eff, sq')" for now d sq q eff sq'
    using that assms(2) by (auto simp: run_stmt_def split: prod.splits sum.splits if_splits)
  with assms(1) show ?thesis by (fastforce simp: exec_auto_def Let_def split: if_splits prod.splits)
qed

lemma select_job_auto:
  assumes "exec_auto (select_job_stmt j) w = (r, w')"
  shows "r = Inr row \<Longrightarrow> row_at pj_id (processing_jobs (db w')) j = Some row"
    and "r = Inl e \<Longrightarrow> e = driver_error \<or> e = constraint_error
      \<or> e = Sentinel PgxErrNoRows \<and> row_at pj_id (processing_jobs (db w')) j = None"
proof -
  have d: "db w' = db (arrive w)" by (rule exec_auto_read [OF assms]) (simp add: select_job_stmt_def)
  show "r = Inr row \<Longrightarrow> row_at pj_id (processing_jobs (db w')) j = Some row"
    using exec_auto_Inr [of "select_job_stmt j" w row w'] assms
    by (auto simp: d select_job_stmt_def query_row_by_key split: option.splits)
  show "r = Inl e \<Longrightarrow> e = driver_error \<or> e = constraint_error
      \<or> e = Sentinel PgxErrNoRows \<and> row_at pj_id (processing_jobs (db w')) j = None"
    using exec_auto_Inl [of "select_job_stmt j" w e w'] assms
    by (auto simp: d select_job_stmt_def query_row_by_key split: option.splits)
qed

lemma get_job_rejecting:
  assumes "get_processing_job exec_auto j i w = (Inl e, w')" and "rejecting e"
  shows "\<not> open_in (db w') j i"
proof -
  obtain r where q: "exec_auto (select_job_stmt j) w = (r, w')"
    using assms(1) by (auto simp: get_processing_job_def Let_def split: prod.splits sum.splits if_splits)
  show ?thesis
  proof (cases r)
    case (Inl e1)
    with select_job_auto(2) [OF q Inl] q assms show ?thesis
      by (auto simp: get_processing_job_def open_in_def)
  next
    case (Inr row)
    with select_job_auto(1) [OF q Inr] q assms show ?thesis
      by (auto simp: get_processing_job_def Let_def scan_worker_processing_job_def open_in_def split: if_splits)
  qed
qed

lemma record_failure_rejecting:
  assumes "record_processing_failure j i code n w = (Inl e, w')" and "rejecting e"
  shows "\<not> open_in (db w') j i" and "isolated w \<Longrightarrow> db w' = db w"
proof -
  obtain r1 w1 where e1: "exec_auto (record_failure_stmt j i code n) w = (r1, w1)" by (metis surj_pair)
  obtain r2 w2 where e2: "exec_auto (select_job_stmt j) w1 = (r2, w2)" by (metis surj_pair)
  from assms e1 have "\<not> is_ok r1" by (cases r1) (auto simp: record_processing_failure_def Let_def split: if_splits)
  then obtain err where r1: "r1 = Inl err" by (cases r1) auto
  have err: "err = driver_error \<or> err = constraint_error \<or> err = Sentinel PgxErrNoRows"
    using exec_auto_Inl [OF e1 [unfolded r1]]
    by (auto simp: record_failure_stmt_def query_row_def split: list.splits)
  with assms e1 r1 e2 have no_rows: "err = Sentinel PgxErrNoRows" and w': "w' = w2" "(case r2 of
      Inl e2 \<Rightarrow> e2 = Sentinel PgxErrNoRows | Inr row \<Rightarrow> pj_work_item_id row \<noteq> i)"
    using select_job_auto(2) [OF e2]
    by (auto simp: record_processing_failure_def classify_unrecorded_def scan_worker_processing_job_def
        split: if_splits sum.splits)
  from w' select_job_auto [OF e2] show "\<not> open_in (db w') j i"
    by (cases r2) (auto simp: open_in_def driver_error_def constraint_error_def)
  assume iso: "isolated w"
  from e1 r1 no_rows have "db w1 = db w"
    by (auto simp: exec_auto_def Let_def arrive_isolated iso run_stmt_def answer_def driver_error_def constraint_error_def
        split: if_splits prod.splits sum.splits)
  with read_only_isolated(1) [OF exec_auto_isolated(1) [OF iso e1] e2] w'(1) show "db w' = db w"
    by (simp add: select_job_stmt_def)
qed

lemma exec_tx_db: "exec_tx st x = (r, x') \<Longrightarrow> db (tx_world x') = db (tx_world (tx_arrive x))"
  by (auto simp: exec_tx_def Let_def split: prod.splits if_splits)

text \<open>A transaction that has written nothing reads the committed tables.\<close>

lemma unwritten_view: "tx_writes x = id \<Longrightarrow> tx_view (tx_arrive x) = db (tx_world (tx_arrive x))"
  using tx_arrive_locks [of x] by (simp add: tx_view_def)

lemma get_job_tx_rejecting:
  assumes none: "tx_writes x = id" and run: "get_processing_job exec_tx j i x = (Inl e, x')" and "rejecting e"
  shows "\<not> open_in (db (tx_world x')) j i"
proof -
  obtain r where q: "exec_tx (select_job_stmt j) x = (r, x')"
    using run by (auto simp: get_processing_job_def Let_def split: prod.splits sum.splits if_splits)
  note d = exec_tx_db [OF q] and view = unwritten_view [OF none]
  show ?thesis
  proof (cases r)
    case (Inl e1)
    from exec_tx_Inl [OF q [unfolded Inl]] have "e1 = driver_error \<or> e1 = constraint_error
        \<or> e1 = Sentinel PgxErrNoRows \<and> row_at pj_id (processing_jobs (db (tx_world x'))) j = None"
      by (auto simp: d view select_job_stmt_def query_row_by_key split: option.splits)
    with q Inl run \<open>rejecting e\<close> show ?thesis by (auto simp: get_processing_job_def open_in_def)
  next
    case (Inr row)
    from exec_tx_Inr [OF q [unfolded Inr]] have "row_at pj_id (processing_jobs (db (tx_world x'))) j = Some row"
      by (auto simp: d view select_job_stmt_def query_row_by_key split: option.splits)
    with q Inr run \<open>rejecting e\<close> show ?thesis
      by (auto simp: get_processing_job_def Let_def scan_worker_processing_job_def open_in_def split: if_splits)
  qed
qed

lemma complete_pending_rejecting:
  assumes ok: "tx_ok x" and none: "tx_writes x = id"
    and run: "complete_pending_item j i x = (Inl e, w')" and "rejecting e"
  shows "\<not> open_in (db w') j i \<and> (isolated (tx_world x) \<longrightarrow> db w' = db (tx_world x))"
proof -
  obtain r1 x1 where e1: "exec_tx (select_item_stmt i) x = (r1, x1)" by (metis surj_pair)
  have "tx_ok x1" using select_item.exec_tx_evolves [OF e1] ok by (simp add: tx_evolves_def)
  then have ok1: "db_ok (db (tx_world x1))" by (simp add: tx_ok_def world_ok_def)
  note d = exec_tx_db [OF e1] and view = unwritten_view [OF none]
  show ?thesis
  proof (cases r1)
    case (Inl e1')
    from exec_tx_Inl [OF e1 [unfolded Inl]] have "\<not> rejecting e1'"
      by (auto simp: select_item_stmt_def query_row_def split: list.splits)
    with run e1 Inl \<open>rejecting e\<close> show ?thesis by (auto simp: complete_pending_item_def)
  next
    case (Inr item)
    from exec_tx_Inr [OF e1 [unfolded Inr]] have item: "row_at wi_id (work_items (db (tx_world x1))) i = Some item"
      by (auto simp: d view select_item_stmt_def query_row_by_key split: option.splits)
    obtain cs ws where a: "analyze_title (wi_title item) = (cs, ws)" by (metis surj_pair)
    have no_rows: "\<not> rejecting err" if "query_row rs = Inl err" for rs :: "processing_job_row list" and err
      using that by (auto simp: query_row_def split: list.splits)
    from run e1 Inr a \<open>rejecting e\<close> have "wi_status item \<noteq> Pending \<and> w' = tx_world x1"
      by (auto simp: complete_pending_item_def insert_result_stmt_def finish_item_stmt_def succeed_job_stmt_def
          rollback_tx_def split: prod.splits sum.splits if_splits dest!: exec_tx_Inl commit_tx_Inl no_rows)
    with open_in_item_pending [OF ok1, of j i] item exec_tx_isolated(2) [OF _ e1] show ?thesis by auto
  qed
qed

lemma complete_rejecting:
  assumes ok: "world_ok w" and run: "complete_processing_job j i w = (Inl e, w')" and "rejecting e"
  shows "\<not> open_in (db w') j i \<and> (isolated w \<longrightarrow> db w' = db w)"
proof -
  obtain r0 x0 where e0: "begin_tx w = (r0, x0)" by (metis surj_pair)
  note ok0 = begin_tx_ok(1) [OF e0 ok]
  obtain r1 x1 where e1: "exec_tx (ItemLockSQL i) x0 = (r1, x1)" by (metis surj_pair)
  obtain r2 x2 where e2: "get_processing_job exec_tx j i x1 = (r2, x2)" by (metis surj_pair)
  have w0: "tx_writes x0 = id" using e0 by (auto simp: begin_tx_def)
  have w1: "tx_writes x1 = id" by (rule exec_tx_reads [OF e1 w0]) (simp add: ItemLockSQL_def)
  have "\<exists>q. exec_tx (select_job_stmt j) x1 = (q, x2)"
    using e2 by (auto simp: get_processing_job_def Let_def split: prod.splits sum.splits if_splits)
  then have w2: "tx_writes x2 = id" using exec_tx_reads [of "select_job_stmt j" x1 _ x2] w1
    by (auto simp: select_job_stmt_def)
  have ok2: "tx_ok x2"
    using item_lock.exec_tx_evolves [OF e1] get_processing_job_tx_evolves [OF e2] ok0 by (simp add: tx_evolves_def)
  have alone: "isolated (tx_world x2) \<and> db (tx_world x2) = db w" if iso: "isolated w"
  proof -
    have x0: "isolated (tx_world x0)" "db (tx_world x0) = db w"
      using e0 iso by (auto simp: begin_tx_def arrive_isolated)
    note s1 = exec_tx_isolated(1,2) [OF x0(1) e1]
    from get_job_tx_isolated(1,2) [OF s1(1) e2] s1(2) x0(2) show ?thesis by simp
  qed
  show ?thesis
  proof (cases "\<exists>job. r0 = Inr () \<and> r1 = Inr () \<and> r2 = Inr job \<and> \<not> terminal (wj_State job)")
    case True
    with run e0 e1 e2 have "complete_pending_item j i x2 = (Inl e, w')"
      by (auto simp: complete_processing_job_def terminal_def)
    from complete_pending_rejecting [OF ok2 w2 this assms(3)] alone show ?thesis by auto
  next
    case False
    with run e0 e1 e2 \<open>rejecting e\<close> have "r2 = Inl e \<and> w' = tx_world x2"
      by (cases r0; cases r1; cases r2)
         (auto simp: complete_processing_job_def rollback_tx_def terminal_def ItemLockSQL_def
            split: if_splits dest!: begin_tx_Inl exec_tx_Inl)
    with get_job_tx_rejecting [OF w1 _ \<open>rejecting e\<close>] e2 alone show ?thesis by auto
  qed
qed

section \<open>The handler\<close>

lemma world_ok_unique: "world_ok w \<Longrightarrow> unique_key pj_id (processing_jobs (db w))"
  by (simp add: world_ok_def db_ok_def constraint_defs)

lemma handler_evolves:
  assumes proc: "\<And>m v. snd (processor m v) = v"
    and run: "handle_worker_message_with_processor postgres_worker_store processor payload w = (r, w')"
  shows "evolves w w'"
proof -
  have keep: "v' = v" if "processor m v = (e, v')" for m v e v' using proc [of m v] that by simp
  from run show ?thesis
    by (auto simp: handler_defs postgres_worker_store_def split: sum.splits prod.splits option.splits if_splits
        dest!: keep get_processing_job_evolves complete_processing_job_evolves record_processing_failure_evolves
        intro: evolves_trans)
qed

text \<open>A rejected delivery's job is not open when the handler returns; alone, nothing has changed.\<close>

lemma rejected_not_open:
  assumes ok: "world_ok w" and m: "accepted_message payload m"
    and proc: "\<And>m v. snd (processor m v) = v"
    and run: "handle_worker_message_with_processor postgres_worker_store processor payload w = ((settlementReject, err), w')"
  shows "\<not> open_in (db w') (wm_JobID m) (wm_WorkItemID m)" and "isolated w \<Longrightarrow> db w' = db w"
proof -
  let ?j = "wm_JobID m" and ?i = "wm_WorkItemID m"
  have d: "decode_worker_message payload = Inr m" "validate_worker_message m = None"
    using m by (auto simp: accepted_message_def)
  obtain r1 w1 where g: "get_processing_job exec_auto ?j ?i w = (r1, w1)" by (metis surj_pair)
  have ok1: "world_ok w1" using evolves_world_ok [OF get_processing_job_evolves [OF g] ok] .
  obtain perr where p: "processor m w1 = (perr, w1)" using proc [of m w1] by (cases "processor m w1") simp
  obtain r2 w2 where c: "complete_processing_job ?j ?i w1 = (r2, w2)" by (metis surj_pair)
  obtain r3 w3 where f: "record_processing_failure ?j ?i workerProcessingFailureCode
      workerProcessingMaxAttempts w1 = (r3, w3)" by (metis surj_pair)
  from run d g p c f have cases: "(\<exists>e. r1 = Inl e \<and> rejecting e \<and> w' = w1)
      \<or> (\<exists>e. r2 = Inl e \<and> rejecting e \<and> w' = w2) \<or> (\<exists>e. r3 = Inl e \<and> rejecting e \<and> w' = w3)"
    by (cases r1; cases r2; cases r3; cases perr)
       (auto simp: handler_defs postgres_worker_store_def rejecting_def split: if_splits)
  note ops = get_job_rejecting complete_rejecting [OF ok1] record_failure_rejecting
  from cases g c f ops show "\<not> open_in (db w') ?j ?i" by blast
  assume iso: "isolated w"
  note s1 = get_job_isolated [OF iso g]
  from cases s1(1) c f ops(2,4) s1(2) show "db w' = db w" by metis
qed

text \<open>So alone on the database it names a job that is not there for that item.\<close>

lemma known_job_not_rejected:
  assumes iso: "isolated w" and ok: "world_ok w" and m: "accepted_message payload m"
    and job: "known_in (db w) (wm_JobID m) (wm_WorkItemID m)"
    and proc: "\<And>m v. snd (processor m v) = v"
    and run: "handle_worker_message_with_processor postgres_worker_store processor payload w = ((settlementReject, err), w')"
  shows False
proof -
  let ?j = "wm_JobID m" and ?i = "wm_WorkItemID m"
  from job obtain r where r: "row_at pj_id (processing_jobs (db w)) ?j = Some r" "pj_work_item_id r = ?i"
    by (auto simp: known_in_def)
  from rejected_not_open [OF ok m proc run] iso r have "pj_state r \<noteq> Accepted" by (auto simp: open_in_def)
  moreover have "job_row_ok r"
    using ok row_at_Some_in [OF r(1)] by (auto simp: world_ok_def db_ok_def constraint_defs list_all_iff)
  ultimately have closed: "pj_state r = Succeeded \<or> pj_state r = Failed" by (auto simp: job_row_ok_def)
  have d: "decode_worker_message payload = Inr m" "validate_worker_message m = None"
    using m by (auto simp: accepted_message_def)
  obtain r1 w1 where g: "get_processing_job exec_auto ?j ?i w = (r1, w1)" by (metis surj_pair)
  then obtain q where q: "exec_auto (select_job_stmt ?j) w = (q, w1)"
    by (auto simp: get_processing_job_def Let_def split: prod.splits sum.splits if_splits)
  have w1: "db w1 = db w" by (rule get_job_isolated(1) [OF iso g])
  show False
  proof (cases r1)
    case (Inl e)
    with select_job_auto [OF q] q g run d r show False
      by (cases q) (auto simp: w1 get_processing_job_def Let_def scan_worker_processing_job_def handler_defs
          postgres_worker_store_def job_mismatch_def driver_error_def constraint_error_def split: if_splits)
  next
    case (Inr wj)
    with select_job_auto [OF q] q g r have "wj = scan_worker_processing_job r"
      by (cases q) (auto simp: w1 get_processing_job_def Let_def split: if_splits)
    with closed run d g Inr show False
      by (auto simp: handler_defs postgres_worker_store_def scan_worker_processing_job_def split: if_splits)
  qed
qed

section \<open>Properties\<close>

text \<open>
  C23 (only foreign messages are dropped). Whatever other sessions commit between any two calls, whichever
  calls fail and whatever the processor says: when a delivery is rejected without requeue, the handler says
  why, and its payload is no message, or the job it names is not open for that item in the committed
  database of that moment. Alone on the database nothing has changed, and the database does not hold the
  job for that item at all. So an accepted job's message is never dropped.
\<close>

theorem rejected_is_foreign:
  assumes "world_ok w" and "\<And>m v. snd (processor m v) = v"
    and "handle_worker_message_with_processor postgres_worker_store processor payload w = ((settlementReject, err), w')"
  shows "err \<noteq> None
    \<and> \<not> (\<exists>m. accepted_message payload m
         \<and> (\<exists>r \<in> set (processing_jobs (db w')). pj_id r = wm_JobID m \<and> pj_work_item_id r = wm_WorkItemID m
              \<and> pj_state r = Accepted))
    \<and> (isolated w \<longrightarrow> db w' = db w \<and> \<not> (\<exists>m. accepted_message payload m
         \<and> (\<exists>r \<in> set (processing_jobs (db w)). pj_id r = wm_JobID m \<and> pj_work_item_id r = wm_WorkItemID m)))"
proof (intro conjI impI)
  show "err \<noteq> None" using handler_settles(2) [OF assms(3)] by simp
  have ok': "world_ok w'" using evolves_world_ok [OF handler_evolves [OF assms(2,3)] assms(1)] .
  show "\<not> (\<exists>m. accepted_message payload m
         \<and> (\<exists>r \<in> set (processing_jobs (db w')). pj_id r = wm_JobID m \<and> pj_work_item_id r = wm_WorkItemID m
              \<and> pj_state r = Accepted))"
    using rejected_not_open(1) [OF assms(1) _ assms(2,3)] row_at_unique [OF world_ok_unique [OF ok']]
    unfolding open_in_def by metis
  assume iso: "isolated w"
  show "db w' = db w"
  proof (cases "\<exists>m. accepted_message payload m")
    case True
    with rejected_not_open(2) [OF assms(1) _ assms(2,3) iso] show ?thesis by blast
  next
    case False
    with handler_rejects_unaccepted [of payload postgres_worker_store processor w] assms(3) show ?thesis by auto
  qed
  show "\<not> (\<exists>m. accepted_message payload m
         \<and> (\<exists>r \<in> set (processing_jobs (db w)). pj_id r = wm_JobID m \<and> pj_work_item_id r = wm_WorkItemID m))"
    using known_job_not_rejected [OF iso assms(1) _ _ assms(2,3)] row_at_unique [OF world_ok_unique [OF assms(1)]]
    unfolding known_in_def by metis
qed

text \<open>The sample message, on a database without its job.\<close>

theorem rejected_is_foreign_witness:
  "\<exists>err w'. handle_worker_message_with_processor postgres_worker_store successful_processor sample_payload
      sample_open_world = ((settlementReject, Some err), w') \<and> db w' = sample_open_database"
proof -
  have d: "decode_worker_message sample_payload = Inr sample_message" "validate_worker_message sample_message = None"
    using sample_accepted by (auto simp: accepted_message_def)
  have "exec_auto (select_job_stmt 7) sample_open_world = (Inl (Sentinel PgxErrNoRows),
      (tick sample_open_world)\<lparr>seqs := seqs sample_open_world\<rparr>)"
    by (rule exec_auto_calm_error [OF sample_open_ok(3)])
       (use sample_open_ok(1) in \<open>simp_all add: db_ok_def select_job_stmt_def query_row_by_key row_at_def
          sample_open_world_def sample_open_database_def\<close>)
  then obtain err w' where run: "handle_worker_message_with_processor postgres_worker_store successful_processor
      sample_payload sample_open_world = ((settlementReject, Some err), w')"
    using d by (auto simp: handler_defs postgres_worker_store_def get_processing_job_def sample_message_def
        job_not_found_def)
  moreover have "isolated sample_open_world" using sample_open_ok(3) by (simp add: calm_isolated)
  ultimately have "db w' = db sample_open_world"
    using rejected_is_foreign [OF sample_open_ok(4) _ run] by (simp add: successful_processor_def)
  with run show ?thesis by (simp add: sample_open_world_def)
qed

end
