(* ===== verification/System.thy ===== *)
theory System
  imports Rejections
begin

text \<open>
  The whole system: the API's requests, the outbox publisher and the worker on one database, and the
  durable queue between them. A step is one operation, whichever of its calls fail; the operations of
  the processes come in any order. The operations themselves are the programs' definitions.
\<close>

section \<open>States\<close>

record system =
  sy_db :: database
  sy_seqs :: sequences
  sy_queue :: "bytes multiset"

definition initial_system :: system where
  "initial_system = \<lparr>sy_db = empty_database, sy_seqs = initial_sequences, sy_queue = {#}\<rparr>"

text \<open>An operation sees the database in a world of its own calls' turns, and leaves one.\<close>

definition system_world :: "turn list \<Rightarrow> system \<Rightarrow> world" where
  "system_world ts s = \<lparr>db = sy_db s, seqs = sy_seqs s, turns = ts\<rparr>"

definition system_after :: "world \<Rightarrow> bytes multiset \<Rightarrow> system" where
  "system_after w q = \<lparr>sy_db = db w, sy_seqs = seqs w, sy_queue = q\<rparr>"

definition alone :: "turn list \<Rightarrow> bool" where
  "alone ts = (\<forall>t \<in> set ts. others t = id)"

lemma system_simps [simp]:
  "db (system_world ts s) = sy_db s" "seqs (system_world ts s) = sy_seqs s"
  "sy_db (system_after w q) = db w" "sy_seqs (system_after w q) = seqs w" "sy_queue (system_after w q) = q"
  "isolated (system_world ts s) = alone ts"
  by (simp_all add: system_world_def system_after_def alone_def isolated_def)

section \<open>The broker\<close>

text \<open>
  What the queue gets of the publisher's attempts: every confirmed message, and of those without
  confirmation the ones that came through nevertheless.
\<close>

inductive broker_took :: "outbox_event list \<Rightarrow> bytes multiset \<Rightarrow> bool" where
  nothing: "broker_took [] {#}"
| confirmed: "broker_took es q \<Longrightarrow> broker_took (Tried m None # es) (add_mset (om_Payload m) q)"
| unconfirmed: "broker_took es q \<Longrightarrow> broker_took (Tried m (Some err) # es) (add_mset (om_Payload m) q)"
| lost: "broker_took es q \<Longrightarrow> broker_took (Tried m (Some err) # es) q"
| other: "broker_took es q \<Longrightarrow> \<forall>m e. ev \<noteq> Tried m e \<Longrightarrow> broker_took (ev # es) q"

inductive_cases broker_took_Nil: "broker_took [] q"
inductive_cases broker_took_Cons: "broker_took (ev # es) q"

lemma took_confirmed: "broker_took es q \<Longrightarrow> Tried m None \<in> set es \<Longrightarrow> om_Payload m \<in># q"
  by (induction rule: broker_took.induct) auto

lemma broker_took_append:
  "broker_took (es @ es') q \<Longrightarrow> \<exists>q1 q2. broker_took es q1 \<and> broker_took es' q2 \<and> q = q1 + q2"
proof (induction es arbitrary: q)
  case Nil
  then show ?case using broker_took.nothing by force
next
  case (Cons ev es)
  from Cons.prems have "broker_took (ev # (es @ es')) q" by simp
  then show ?case
  proof (cases rule: broker_took.cases)
    case (confirmed r m)
    from Cons.IH [OF confirmed(3)] obtain q1 q2 where q: "broker_took es q1" "broker_took es' q2" "r = q1 + q2" by blast
    with broker_took.confirmed [OF q(1), of m] confirmed(1,2) show ?thesis
      by (intro exI [of _ "add_mset (om_Payload m) q1"] exI [of _ q2]) simp
  next
    case (unconfirmed r m err)
    from Cons.IH [OF unconfirmed(3)] obtain q1 q2 where q: "broker_took es q1" "broker_took es' q2" "r = q1 + q2" by blast
    with broker_took.unconfirmed [OF q(1), of m err] unconfirmed(1,2) show ?thesis
      by (intro exI [of _ "add_mset (om_Payload m) q1"] exI [of _ q2]) simp
  next
    case (lost m err)
    from Cons.IH [OF lost(2)] obtain q1 q2 where q: "broker_took es q1" "broker_took es' q2" "q = q1 + q2" by blast
    with broker_took.lost [OF q(1), of m err] lost(1) show ?thesis by blast
  next
    case other
    from Cons.IH [OF other(1)] obtain q1 q2 where q: "broker_took es q1" "broker_took es' q2" "q = q1 + q2" by blast
    with broker_took.other [OF q(1) other(2)] show ?thesis by blast
  qed
qed

lemma broker_can_take: "\<exists>q. broker_took es q"
proof (induction es)
  case Nil
  then show ?case using broker_took.nothing by blast
next
  case (Cons ev es)
  then obtain q where q: "broker_took es q" ..
  consider (ok) m where "ev = Tried m None" | (err) m err where "ev = Tried m (Some err)"
    | (no) "\<forall>m e. ev \<noteq> Tried m e" by (cases ev) (auto simp: not_None_eq)
  then show ?case
  proof cases
    case ok
    with broker_took.confirmed [OF q, of m] show ?thesis by auto
  next
    case err
    with broker_took.lost [OF q, of m err] show ?thesis by auto
  next
    case no
    with broker_took.other [OF q, of ev] show ?thesis by auto
  qed
qed

text \<open>
  What a delivery's settlement does to the queue: a copy is gone only after a settlement that does not
  ask for redelivery; the settlement may also be lost, and the copy is delivered again.
\<close>

definition dismisses :: "amqp_call \<Rightarrow> bool" where
  "dismisses c = (case c of Ack all \<Rightarrow> True | Reject requeue \<Rightarrow> \<not> requeue | Nack all requeue \<Rightarrow> \<not> requeue)"

definition queue_after :: "settlement_trace \<Rightarrow> bytes \<Rightarrow> bytes multiset \<Rightarrow> bytes multiset \<Rightarrow> bool" where
  "queue_after tr p q q' = (q' = q \<or> (\<exists>c. (p, c) \<in> set tr \<and> dismisses c) \<and> q' = q - {#p#})"

text \<open>A processor of any verdict, which keeps its own effects out of the database.\<close>

definition judged :: "(worker_message \<Rightarrow> 's \<Rightarrow> go_error option) \<Rightarrow> 's processor" where
  "judged verdict m v = (verdict m v, v)"

lemma judged_keeps [simp]: "snd (judged verdict m v) = v"
  by (simp add: judged_def)

section \<open>Steps\<close>

text \<open>
  A request; a round of the publisher, which finds the rows of \<open>locked\<close> held, labelled with its events; a delivery,
  with the processor's verdict, labelled with its settlement.
\<close>

inductive request_step :: "system \<Rightarrow> system \<Rightarrow> bool" where
  handled: "(pattern, handle) \<in> business_handlers \<Longrightarrow> alone ts \<Longrightarrow>
     handle r (system_world ts s) = (resp, w') \<Longrightarrow> request_step s (system_after w' (sy_queue s))"

inductive publish_step ::
  "(json \<Rightarrow> bytes) \<Rightarrow> (world \<Rightarrow> int64 \<Rightarrow> bool) \<Rightarrow> outbox_event list \<Rightarrow> system \<Rightarrow> system \<Rightarrow> bool" for jt locked where
  round: "alone ts \<Longrightarrow>
     publish_next_outbox_message (postgres_outbox_store jt locked) broker (system_world ts s) = (res, events, w') \<Longrightarrow>
     broker_took events sent \<Longrightarrow> publish_step jt locked events s (system_after w' (sy_queue s + sent))"

inductive deliver_step ::
  "(worker_message \<Rightarrow> world \<Rightarrow> go_error option) \<Rightarrow> settlement_trace \<Rightarrow> system \<Rightarrow> system \<Rightarrow> bool" for verdict where
  delivered: "p \<in># sy_queue s \<Longrightarrow> alone ts \<Longrightarrow>
     process_rabbitmq_delivery_with_processor postgres_worker_store (judged verdict)
       \<lparr>Body = p, acknowledger = answers\<rparr> (system_world ts s) = (res, tr, w') \<Longrightarrow>
     queue_after tr p (sy_queue s) q' \<Longrightarrow> deliver_step verdict tr s (system_after w' q')"

text \<open>A step of the system is one of these, or a foreign message that comes to the queue.\<close>

inductive system_step :: "(json \<Rightarrow> bytes) \<Rightarrow> system \<Rightarrow> system \<Rightarrow> bool" for jt where
  request: "request_step s s' \<Longrightarrow> system_step jt s s'"
| publish: "publish_step jt locked events s s' \<Longrightarrow> system_step jt s s'"
| deliver: "deliver_step verdict tr s s' \<Longrightarrow> system_step jt s s'"
| stray: "system_step jt s (s\<lparr>sy_queue := add_mset p (sy_queue s)\<rparr>)"

text \<open>Steps of one kind, one after the other, with all their labels.\<close>

inductive traced :: "('l list \<Rightarrow> 's \<Rightarrow> 's \<Rightarrow> bool) \<Rightarrow> 'l list \<Rightarrow> 's \<Rightarrow> 's \<Rightarrow> bool" for step where
  stop: "traced step [] s s"
| go: "step es s s1 \<Longrightarrow> traced step es' s1 s' \<Longrightarrow> traced step (es @ es') s s'"

lemma traced_append: "traced step es s s1 \<Longrightarrow> traced step es' s1 s' \<Longrightarrow> traced step (es @ es') s s'"
proof (induction rule: traced.induct)
  case (go es s s1 es1 s2)
  from traced.go [OF go.hyps(1) go.IH [OF go.prems]] show ?case by simp
qed simp

lemma traced_one: "step es s s' \<Longrightarrow> traced step es s s'"
  using traced.go [OF _ traced.stop, of step es s s'] by simp

lemma traced_steps:
  assumes "traced step es s s'" and "\<And>es s s'. step es s s' \<Longrightarrow> R s s'"
  shows "R\<^sup>*\<^sup>* s s'"
  using assms by (induction rule: traced.induct) (auto intro: converse_rtranclp_into_rtranclp)

inductive system_reachable :: "(json \<Rightarrow> bytes) \<Rightarrow> system \<Rightarrow> bool" for jt where
  initial: "system_reachable jt initial_system"
| step: "system_reachable jt s \<Longrightarrow> system_step jt s s' \<Longrightarrow> system_reachable jt s'"

section \<open>Every step is one transaction on a valid database\<close>

definition data_ok :: "system \<Rightarrow> bool" where
  "data_ok s = (db_ok (sy_db s) \<and> seqs_ok (sy_seqs s) (sy_db s))"

lemma initial_data_ok: "data_ok initial_system"
  by (simp add: data_ok_def initial_system_def empty_database_ok)

lemma system_world_ok: "data_ok s \<Longrightarrow> alone ts \<Longrightarrow> world_ok (system_world ts s)"
  by (rule isolated_world_ok) (simp_all add: data_ok_def)

lemma data_ok_after: "evolves (system_world ts s) w' \<Longrightarrow> data_ok s \<Longrightarrow> alone ts \<Longrightarrow> data_ok (system_after w' q)"
  using evolves_world_ok [OF _ system_world_ok] by (simp add: data_ok_def world_ok_def)

text \<open>A delivery through the settlement: the handler's run, and its one call to the broker.\<close>

lemma processed_delivery:
  assumes "process_rabbitmq_delivery_with_processor store processor \<lparr>Body = p, acknowledger = answers\<rparr> w = (res, tr, w')"
  shows "\<exists>st err. handle_worker_message_with_processor store processor p w = ((st, err), w') \<and> tr = [(p, call_of st)]"
proof -
  obtain st err w1 where h: "handle_worker_message_with_processor store processor p w = ((st, err), w1)"
    by (metis prod.collapse)
  with assms handler_settles(1) [OF h] show ?thesis
    by (auto simp: process_rabbitmq_delivery_with_processor_def Let_def settle_rabbitmq_delivery_def call_of_def
        split: option.splits prod.splits if_splits)
qed

interpretation pg_judged: completer postgres_worker_store "judged verdict" "\<lambda>w. world_ok w \<and> evolves w0 w" settled
  for verdict w0
proof
  show "settled w' j i" if "GetProcessingJob postgres_worker_store j i w = (Inr job, w')"
      "wj_State job = Succeeded \<or> wj_State job = Failed" for w j i job w'
    using that by (simp add: postgres_worker_store_def get_job_settled)
  show "settled w' j i" if "world_ok w \<and> evolves w0 w"
      "CompleteProcessingJob postgres_worker_store j i w = (Inr c, w')" for w j i c w'
    using that by (rule pg_from.complete_settled)
  show "settled w' j i" if "world_ok w \<and> evolves w0 w"
      "RecordProcessingFailure postgres_worker_store j i workerProcessingFailureCode workerProcessingMaxAttempts w = (Inr f, w')"
      "pf_Disposition f \<noteq> processingFailureRetryable" for w j i f w'
    using that by (rule pg_from.record_settled)
qed (auto simp: postgres_worker_store_def judged_def dest: store_keeps
      intro: evolves_trans get_processing_job_evolves complete_processing_job_evolves
        record_processing_failure_evolves)

lemma handle_evolves:
  "handle_worker_message_with_processor postgres_worker_store (judged verdict) p w = (r, w') \<Longrightarrow> evolves w w'"
  by (rule handler_evolves [OF judged_keeps])

lemma system_step_transaction:
  assumes "system_step jt s s'" and ok: "data_ok s"
  shows "data_ok s' \<and> (\<exists>a. transaction a (sy_db s) (sy_db s'))"
  using assms(1)
proof cases
  case request
  then show ?thesis
  proof cases
    case (handled pattern handle ts r resp w')
    note w = system_world_ok [OF ok handled(3)]
    from handler_transaction [OF handled(2) _ w handled(4)] handlers_evolve [OF handled(2) handled(4)] handled ok
    show ?thesis by (auto intro: data_ok_after)
  qed
next
  case (publish locked events)
  from publish show ?thesis
  proof cases
    case (round ts broker res w' sent)
    have "transaction Publisher (sy_db s) (db w')"
      using publish_next_moves(1) [OF _ round(3)] round(2) by (auto intro: transaction.publication)
    moreover have "evolves (system_world ts s) w'"
      using round(3) by (cases res) (auto intro: publish_next_evolves)
    ultimately show ?thesis using round ok by (auto intro: data_ok_after)
  qed
next
  case (deliver verdict tr)
  from deliver show ?thesis
  proof cases
    case (delivered p ts answers res w' q')
    from processed_delivery [OF delivered(4)] obtain st err where
      h: "handle_worker_message_with_processor postgres_worker_store (judged verdict) p (system_world ts s) = ((st, err), w')"
      by blast
    note w = system_world_ok [OF ok delivered(3)]
    from worker_transaction [OF _ w h judged_keeps] handle_evolves [OF h] delivered ok
    show ?thesis by (auto intro: data_ok_after)
  qed
next
  case (stray p)
  with ok show ?thesis by (auto simp: data_ok_def intro: transaction.nothing)
qed

lemma reachable_data_ok: "system_reachable jt s \<Longrightarrow> data_ok s"
  by (induction rule: system_reachable.induct) (use initial_data_ok system_step_transaction in blast)+

end
