(* ===== verification/SystemRuns.thy ===== *)
theory SystemRuns
  imports System
begin

text \<open>
  What holds in every reachable state of the system: no accepted job is lost between the database and
  the queue, its attempts are bounded, items live by the abstract life cycle, and an accepted job can
  always be finished.
\<close>

section \<open>No accepted job is lost\<close>

text \<open>Every accepted job's message is still to be published, or in the queue.\<close>

definition carried :: "(json \<Rightarrow> bytes) \<Rightarrow> system \<Rightarrow> processing_job_row \<Rightarrow> bool" where
  "carried jt s q =
     (\<exists>m \<in> set (outbox_messages (sy_db s)).
        ob_processing_job_id m = pj_id q \<and> ob_payload m = process_payload (pj_id q) (pj_work_item_id q)
        \<and> (unpublished m \<or> jt (ob_payload m) \<in># sy_queue s))"

definition none_lost :: "(json \<Rightarrow> bytes) \<Rightarrow> system \<Rightarrow> bool" where
  "none_lost jt s = (\<forall>q \<in> set (processing_jobs (sy_db s)). pj_state q = Accepted \<longrightarrow> carried jt s q)"

text \<open>The API: what was carried stays carried, and a new job comes with its message.\<close>

lemma api_none_lost:
  assumes "transaction Api (sy_db s) d'" and "none_lost jt s"
  shows "none_lost jt (s\<lparr>sy_db := d', sy_seqs := sq\<rparr>)"
  using assms
  by (auto elim!: api_transaction simp: none_lost_def carried_def with_acceptance_def with_new_message_def
      with_new_job_def new_job_row_def new_outbox_row_def unpublished_def)

text \<open>The publisher: a message it leaves published was published before, or the broker has it.\<close>

lemma tried_message:
  assumes ok: "db_ok (db w)" and iso: "isolated w"
    and run: "publish_next_outbox_message (postgres_outbox_store jt locked) publish w = (res, events, w')"
    and tried: "Tried m e \<in> set events" and row: "row \<in> set (outbox_messages (db w))" "ob_id row = om_ID m"
  shows "om_Payload m = jt (ob_payload row)"
proof -
  obtain r where r: "r \<in> set (outbox_messages (db w))" "m = scan_outbox_message jt (attempt_row r)"
    using publish_next_moves(2) [OF iso run tried] by blast
  then have m: "om_ID m = ob_id r" "om_Payload m = jt (ob_payload r)"
    by (simp_all add: scan_outbox_message_def attempt_row_def)
  have "unique_key ob_id (outbox_messages (db w))" using ok by (simp add: db_ok_def constraint_defs)
  from unique_key_eq [OF this r(1) row(1)] m row(2) show ?thesis by simp
qed

lemma publisher_none_lost:
  assumes ok: "data_ok s" and ts: "alone ts" and lost: "none_lost jt s"
    and run: "publish_next_outbox_message (postgres_outbox_store jt locked) publish (system_world ts s) = (res, events, w')"
    and took: "broker_took events sent"
  shows "none_lost jt (system_after w' (sy_queue s + sent))"
proof -
  let ?w = "system_world ts s" and ?s' = "system_after w' (sy_queue s + sent)"
  have iso: "isolated ?w" and dok: "db_ok (db ?w)" using ts ok by (simp_all add: data_ok_def)
  have ev: "evolves ?w w'" using run by (cases res) (auto intro: publish_next_evolves)
  have w: "world_ok ?w" using system_world_ok [OF ok ts] .
  have jobs: "processing_jobs (db w') = processing_jobs (sy_db s)"
    using publish_next_moves(1) [OF iso run] by (simp add: outbox_moves_def)
  have "carried jt ?s' q" if c: "carried jt s q" for q
  proof -
    from c obtain m where m: "m \<in> set (outbox_messages (sy_db s))" "ob_processing_job_id m = pj_id q"
      "ob_payload m = process_payload (pj_id q) (pj_work_item_id q)" "unpublished m \<or> jt (ob_payload m) \<in># sy_queue s"
      unfolding carried_def by blast
    have u: "unique_key ob_id (outbox_messages (sy_db s))" using ok by (simp add: data_ok_def db_ok_def constraint_defs)
    from continues_rowD(3) [OF evolves_continues [OF ev w]] row_at_unique [OF u m(1)] obtain m' where
      "row_at ob_id (outbox_messages (db w')) (ob_id m) = Some m'" and cont: "outbox_continues m m'" by auto
    then have m': "m' \<in> set (outbox_messages (db w'))" "ob_id m' = ob_id m" by (auto dest: row_at_Some_in)
    have "unpublished m' \<or> jt (ob_payload m') \<in># sy_queue s + sent"
    proof (cases "unpublished m' \<or> jt (ob_payload m) \<in># sy_queue s")
      case True
      then show ?thesis using cont by (auto simp: outbox_continues_def)
    next
      case False
      then have "published_in w' (ob_id m)" using m' unfolding published_in_def by blast
      moreover have "\<not> published_in ?w (ob_id m)"
        using False m unique_key_eq [OF u _ m(1)] by (auto simp: published_in_def)
      ultimately have "ob_id m \<in> confirmed events"
        using publish_next_published [OF run isolated_publish [OF iso, of "{}"]] by blast
      then obtain t where t: "Tried t None \<in> set events" "om_ID t = ob_id m" by (auto simp: confirmed_def)
      then have "om_Payload t = jt (ob_payload m)"
        using tried_message [OF dok iso run t(1), of m] m(1) by simp
      with took_confirmed [OF took t(1)] have "jt (ob_payload m) \<in># sent" by simp
      then show ?thesis using cont by (auto simp: outbox_continues_def)
    qed
    with m m' cont show ?thesis unfolding carried_def by (auto simp: outbox_continues_def intro!: bexI [of _ m'])
  qed
  with lost show ?thesis by (simp add: none_lost_def jobs)
qed

text \<open>The worker: it accepts nothing, and touches no message.\<close>

lemma updated_accepted:
  assumes "q' \<in> set (update_where (open_job j i) f t)" and "pj_state q' = Accepted"
    and "\<And>r. pj_id (f r) = pj_id r" and "\<And>r. pj_work_item_id (f r) = pj_work_item_id r"
  shows "\<exists>q \<in> set t. pj_id q = pj_id q' \<and> pj_work_item_id q = pj_work_item_id q' \<and> pj_state q = Accepted"
proof -
  from assms(1) obtain q where q: "q \<in> set t" "q' = (if open_job j i q then f q else q)"
    by (auto simp: set_update_where)
  with assms(2-4) show ?thesis by (intro bexI [of _ q]) (auto simp: open_job_def)
qed

lemma worker_transaction_rows:
  assumes "transaction Worker d d'"
  shows "outbox_messages d' = outbox_messages d"
    and "q' \<in> set (processing_jobs d') \<Longrightarrow> pj_state q' = Accepted \<Longrightarrow>
      \<exists>q \<in> set (processing_jobs d). pj_id q = pj_id q' \<and> pj_work_item_id q = pj_work_item_id q' \<and> pj_state q = Accepted"
  using assms
  by (auto elim!: worker_transaction_cases intro: updated_accepted
      simp: completed_def with_result_def with_done_item_def with_succeeded_job_def with_failed_attempt_def
        succeed_row_def record_failure_row_def)

text \<open>What the message of a carried job says.\<close>

lemma carried_message_accepted:
  assumes jt: "jsonb_faithful jt" and ok: "data_ok s" and q: "q \<in> set (processing_jobs (sy_db s))"
  shows "accepted_message (jt (process_payload (pj_id q) (pj_work_item_id q))) (message_of (pj_id q) (pj_work_item_id q))"
proof -
  have item: "pj_work_item_id q \<in> wi_id ` set (work_items (sy_db s))"
    using ok q by (auto simp: data_ok_def db_ok_def constraint_defs list_all_iff)
  have j: "1 \<le> pj_id q" "pj_id q \<le> int64_max" using ok q by (auto simp: data_ok_def seqs_ok_def list_all_iff)
  have i: "1 \<le> pj_work_item_id q" "pj_work_item_id q \<le> int64_max"
    using ok item by (auto simp: data_ok_def seqs_ok_def list_all_iff)
  show ?thesis
    by (rule payload_accepted [OF jt]) (use j i in \<open>simp_all add: in_int64_def int64_min_def\<close>)
qed

lemma open_inI:
  assumes "db_ok d" and "q \<in> set (processing_jobs d)" and "pj_state q = Accepted"
  shows "open_in d (pj_id q) (pj_work_item_id q)"
proof -
  have "unique_key pj_id (processing_jobs d)" using assms(1) by (simp add: db_ok_def constraint_defs)
  with assms show ?thesis by (auto simp: open_in_def row_at_unique)
qed

lemma open_not_settled: "open_in (db w) j i \<Longrightarrow> \<not> settled w j i"
  by (auto simp: open_in_def settled_def terminal_def Accepted_def Succeeded_def Failed_def)

text \<open>A delivery that takes an accepted job's message out of the queue leaves the job settled.\<close>

lemma dismissed_is_settled:
  assumes ok: "data_ok s" and ts: "alone ts" and m: "accepted_message p m"
    and run: "handle_worker_message_with_processor postgres_worker_store (judged verdict) p (system_world ts s) = ((st, err), w')"
    and gone: "dismisses (call_of st)" and job: "open_in (db w') (wm_JobID m) (wm_WorkItemID m)"
  shows False
proof -
  note w = system_world_ok [OF ok ts]
  consider "st = settlementAck" | "st = settlementReject"
    using gone handler_settles(1) [OF run] by (auto simp: call_of_def dismisses_def)
  then show False
  proof cases
    case 1
    with pg_judged.ack_settled [of "system_world ts s" "system_world ts s" verdict p err w'] run w m
    have "settled w' (wm_JobID m) (wm_WorkItemID m)" by (auto simp: accepted_message_def)
    with open_not_settled [OF job] show False ..
  next
    case 2
    with rejected_not_open(1) [where processor = "judged verdict", OF w m judged_keeps] run job show False by blast
  qed
qed

lemma delivery_none_lost:
  assumes jt: "jsonb_faithful jt" and ok: "data_ok s" and ts: "alone ts" and lost: "none_lost jt s"
    and run: "handle_worker_message_with_processor postgres_worker_store (judged verdict) p (system_world ts s) = ((st, err), w')"
    and left: "queue_after [(p, call_of st)] p (sy_queue s) left_over"
  shows "none_lost jt (system_after w' left_over)"
  unfolding none_lost_def
proof (intro ballI impI)
  fix q' assume q': "q' \<in> set (processing_jobs (sy_db (system_after w' left_over)))" "pj_state q' = Accepted"
  note w = system_world_ok [OF ok ts]
  have t: "transaction Worker (sy_db s) (db w')" using worker_transaction [OF _ w run judged_keeps] ts by simp
  have ok': "data_ok (system_after w' left_over)" using data_ok_after [OF handle_evolves [OF run] ok ts] .
  obtain q where q: "q \<in> set (processing_jobs (sy_db s))" "pj_id q = pj_id q'" "pj_work_item_id q = pj_work_item_id q'"
    "pj_state q = Accepted" using worker_transaction_rows(2) [OF t, of q'] q' by auto
  let ?payload = "process_payload (pj_id q') (pj_work_item_id q')"
  have "carried jt s q" using lost q by (simp add: none_lost_def)
  then obtain m where m: "m \<in> set (outbox_messages (db w'))" "ob_processing_job_id m = pj_id q'"
    "ob_payload m = ?payload" "unpublished m \<or> jt ?payload \<in># sy_queue s"
    using q worker_transaction_rows(1) [OF t] unfolding carried_def by auto
  have "unpublished m \<or> jt ?payload \<in># left_over"
  proof (cases "unpublished m \<or> left_over = sy_queue s \<or> p \<noteq> jt ?payload")
    case True
    with m(4) left show ?thesis by (auto simp: queue_after_def in_diff_count)
  next
    case False
    with left have gone: "dismisses (call_of st)" by (auto simp: queue_after_def)
    have "accepted_message p (message_of (pj_id q') (pj_work_item_id q'))"
      using carried_message_accepted [OF jt ok q(1)] q False by simp
    from dismissed_is_settled [OF ok ts this run gone] open_inI [of "db w'" q'] q' ok'
    show ?thesis by (simp add: message_of_def data_ok_def)
  qed
  with m show "carried jt (system_after w' left_over) q'" by (auto simp: carried_def)
qed

lemma system_step_none_lost:
  assumes jt: "jsonb_faithful jt" and "system_step jt s s'" and ok: "data_ok s" and lost: "none_lost jt s"
  shows "none_lost jt s'"
  using assms(2)
proof cases
  case request
  then show ?thesis
  proof cases
    case (handled pattern handle ts r resp w')
    from handler_transaction [OF handled(2) _ system_world_ok [OF ok handled(3)] handled(4)] handled(3)
    have "transaction Api (sy_db s) (db w')" by simp
    from api_none_lost [OF this lost, of "seqs w'"] show ?thesis
      unfolding handled(1) by (simp add: system_after_def none_lost_def carried_def)
  qed
next
  case (publish locked events)
  from publish show ?thesis
  proof cases
    case round
    then show ?thesis using publisher_none_lost [OF ok _ lost] by auto
  qed
next
  case (deliver verdict tr)
  from deliver show ?thesis
  proof cases
    case (delivered p ts answers res w' q')
    from processed_delivery [OF delivered(4)] obtain st err where
      h: "handle_worker_message_with_processor postgres_worker_store (judged verdict) p (system_world ts s) = ((st, err), w')"
      and tr: "tr = [(p, call_of st)]" by blast
    show ?thesis unfolding delivered(1)
      by (rule delivery_none_lost [OF jt ok delivered(3) lost h delivered(5) [unfolded tr]])
  qed
next
  case stray
  with lost show ?thesis by (auto simp: none_lost_def carried_def)
qed

lemma reachable_none_lost: "system_reachable jt s \<Longrightarrow> jsonb_faithful jt \<Longrightarrow> none_lost jt s"
proof (induction rule: system_reachable.induct)
  case initial
  then show ?case by (simp add: none_lost_def initial_system_def empty_database_def)
next
  case (step s s')
  with system_step_none_lost reachable_data_ok show ?case by blast
qed

section \<open>Attempts are bounded\<close>

definition attempts_within :: "processing_job_row \<Rightarrow> bool" where
  "attempts_within q =
     (0 \<le> pj_attempt_count q \<and> pj_attempt_count q \<le> workerProcessingMaxAttempts
      \<and> (pj_state q = Accepted \<longrightarrow> pj_attempt_count q < workerProcessingMaxAttempts)
      \<and> (pj_state q = Failed \<longrightarrow> pj_attempt_count q = workerProcessingMaxAttempts))"

lemma attempts_within_rows:
  "attempts_within (new_job_row j i now)"
  "attempts_within q \<Longrightarrow> pj_state q = Accepted \<Longrightarrow> attempts_within (succeed_row now q)"
  "attempts_within q \<Longrightarrow> pj_state q = Accepted \<Longrightarrow>
     attempts_within (record_failure_row code workerProcessingMaxAttempts now q)"
  by (auto simp: attempts_within_def new_job_row_def succeed_row_def record_failure_row_def
      workerProcessingMaxAttempts_def Succeeded_def Failed_def Accepted_def)

lemma transaction_attempts:
  assumes "transaction a d d'" and "\<forall>q \<in> set (processing_jobs d). attempts_within q"
  shows "\<forall>q \<in> set (processing_jobs d'). attempts_within q"
  using assms
  by (cases rule: transaction.cases)
     (auto simp: with_acceptance_def with_new_message_def with_new_job_def outbox_moves_def completed_def
        with_result_def with_done_item_def with_succeeded_job_def with_failed_attempt_def set_update_where
        open_job_def intro: attempts_within_rows)

lemma reachable_attempts:
  "system_reachable jt s \<Longrightarrow> q \<in> set (processing_jobs (sy_db s)) \<Longrightarrow> attempts_within q"
proof (induction arbitrary: q rule: system_reachable.induct)
  case initial
  then show ?case by (simp add: initial_system_def empty_database_def)
next
  case (step s s')
  with system_step_transaction [OF step(2) reachable_data_ok [OF step(1)]] transaction_attempts show ?case by blast
qed

section \<open>An accepted job can always be finished\<close>

lemma calm_system_world: "calm (system_world [] s)"
  by (simp add: calm_def isolated_def no_faults_def system_world_def)

text \<open>One confirmed round of a publisher that no one is in the way of takes the first unpublished message.\<close>

abbreviation no_locks :: "world \<Rightarrow> int64 \<Rightarrow> bool" where
  "no_locks \<equiv> \<lambda>_ _. False"

lemma round_tries_once:
  "publish_next_outbox_message store (\<lambda>_. None) s = (res, events, s') \<Longrightarrow> Tried m e \<in> set events \<Longrightarrow> e = None"
  by (auto simp: publish_next_outbox_message_def Let_def split: sum.splits option.splits prod.splits if_splits)

lemma length_filter_map_less:
  assumes "\<And>x. P (f x) \<Longrightarrow> P x" and "r \<in> set t" and "P r" and "\<not> P (f r)"
  shows "length (filter P (map f t)) < length (filter P t)"
  using assms(2)
proof (induction t)
  case (Cons x t)
  have "length (filter P (map f t)) \<le> length (filter P t)" by (induction t) (auto dest: assms(1))
  with Cons assms(1,3,4) show ?case by (cases "x = r") (auto dest: assms(1))
qed simp

lemma can_publish:
  assumes ok: "data_ok s" and m: "m \<in> set (outbox_messages (sy_db s))" "unpublished m"
    and left: "\<And>m. m \<in> set (outbox_messages (sy_db s)) \<Longrightarrow> unpublished m \<Longrightarrow> ob_publish_attempts m < int32_max"
  shows "\<exists>es s'. publish_step jt no_locks es s s' \<and> (\<forall>m e. Tried m e \<in> set es \<longrightarrow> e = None)
    \<and> processing_jobs (sy_db s') = processing_jobs (sy_db s)
    \<and> (\<forall>m \<in> set (outbox_messages (sy_db s')). unpublished m \<longrightarrow> m \<in> set (outbox_messages (sy_db s)))
    \<and> length (filter unpublished (outbox_messages (sy_db s'))) < length (filter unpublished (outbox_messages (sy_db s)))"
proof -
  let ?w = "system_world [] s" and ?t = "outbox_messages (sy_db s)"
  have dok: "db_ok (sy_db s)" using ok by (simp add: data_ok_def)
  from m next_message_None [of "no_locks ?w" ?t] obtain r where
    r: "next_message (no_locks ?w) ?t = Some r" by fastforce
  note first = next_message_Some [OF r]
  have "r \<in> set ?t" and u: "unpublished r" using first by simp_all
  with publish_next_calm [OF calm_system_world, of s no_locks r jt "\<lambda>_. None"] r dok left obtain res events w' now where
    run: "publish_next_outbox_message (postgres_outbox_store jt no_locks) (\<lambda>_. None) ?w = (res, events, w')" and
    d: "db w' = with_published (ob_id r) now (with_attempt (ob_id r) (sy_db s))" by auto
  define f where "f q = (let a = (if ob_id q = ob_id r then attempt_row q else q) in
      if unpublished_message (ob_id r) a then published_row now a else a)" for q
  have rows: "outbox_messages (db w') = map f ?t"
    by (simp add: d with_published_def with_attempt_def update_where_def Let_def f_def)
  have keep: "f q = q" if "unpublished (f q)" for q
    using that by (auto simp: f_def Let_def attempt_row_def published_row_def unpublished_def unpublished_message_def
      split: if_splits)
  have "\<not> unpublished (f r)"
    using u by (simp add: f_def Let_def attempt_row_def published_row_def unpublished_def unpublished_message_def)
  moreover have "unpublished q" if "unpublished (f q)" for q using keep [OF that] that by simp
  ultimately have fewer: "length (filter unpublished (map f ?t)) < length (filter unpublished ?t)"
    using length_filter_map_less [of unpublished f r ?t] \<open>r \<in> set ?t\<close> u by blast
  obtain sent where sent: "broker_took events sent" using broker_can_take by blast
  have "publish_step jt no_locks events s (system_after w' (sy_queue s + sent))"
    by (rule publish_step.round [OF _ run sent]) (simp add: alone_def)
  moreover have "q \<in> set ?t" if "q \<in> set (map f ?t)" "unpublished q" for q
  proof -
    from that(1) obtain q0 where "q0 \<in> set ?t" "q = f q0" by auto
    with keep [of q0] that(2) show ?thesis by simp
  qed
  moreover have "processing_jobs (db w') = processing_jobs (sy_db s)" by (simp add: d with_published_def with_attempt_def)
  ultimately show ?thesis using round_tries_once [OF run] fewer
    by (intro exI [of _ events] exI [of _ "system_after w' (sy_queue s + sent)"]) (simp add: rows del: set_map)
qed

text \<open>So such rounds bring every accepted job's message to the queue.\<close>

lemma can_publish_all:
  assumes "jsonb_faithful jt" and "system_reachable jt s"
    and "q \<in> set (processing_jobs (sy_db s))" and "pj_state q = Accepted"
    and "\<And>m. m \<in> set (outbox_messages (sy_db s)) \<Longrightarrow> unpublished m \<Longrightarrow> ob_publish_attempts m < int32_max"
  shows "\<exists>es s'. traced (publish_step jt no_locks) es s s' \<and> (\<forall>m e. Tried m e \<in> set es \<longrightarrow> e = None)
    \<and> system_reachable jt s' \<and> q \<in> set (processing_jobs (sy_db s'))
    \<and> jt (process_payload (pj_id q) (pj_work_item_id q)) \<in># sy_queue s'"
  using assms(2-)
proof (induction "length (filter unpublished (outbox_messages (sy_db s)))" arbitrary: s rule: less_induct)
  case less
  have "carried jt s q" using reachable_none_lost [OF less.prems(1) assms(1)] less.prems(2,3) by (simp add: none_lost_def)
  then obtain m where m: "m \<in> set (outbox_messages (sy_db s))"
    "ob_payload m = process_payload (pj_id q) (pj_work_item_id q)" "unpublished m \<or> jt (ob_payload m) \<in># sy_queue s"
    unfolding carried_def by blast
  show ?case
  proof (cases "unpublished m")
    case False
    with m less.prems show ?thesis
      by (intro exI [of _ "[]"] exI [of _ s]) (simp add: traced.stop)
  next
    case True
    from can_publish [OF reachable_data_ok [OF less.prems(1)] m(1) True less.prems(4), of jt] obtain es s1 where
      s1: "publish_step jt no_locks es s s1" "\<forall>m e. Tried m e \<in> set es \<longrightarrow> e = None"
        "processing_jobs (sy_db s1) = processing_jobs (sy_db s)"
        "\<forall>m \<in> set (outbox_messages (sy_db s1)). unpublished m \<longrightarrow> m \<in> set (outbox_messages (sy_db s))"
        "length (filter unpublished (outbox_messages (sy_db s1))) < length (filter unpublished (outbox_messages (sy_db s)))"
      by blast
    have "system_reachable jt s1" using less.prems(1) s1(1) by (blast intro: system_reachable.step system_step.publish)
    from less.hyps [OF s1(5) this] s1(3,4) less.prems(2-4) obtain es' s2 where
      "traced (publish_step jt no_locks) es' s1 s2" "\<forall>m e. Tried m e \<in> set es' \<longrightarrow> e = None" "system_reachable jt s2"
      "q \<in> set (processing_jobs (sy_db s2))" "jt (process_payload (pj_id q) (pj_work_item_id q)) \<in># sy_queue s2"
      by metis
    with traced.go [of "publish_step jt no_locks", OF s1(1)] s1(2) show ?thesis
      by (intro exI [of _ "es @ es'"] exI [of _ s2]) auto
  qed
qed

lemma can_deliver:
  assumes jt: "jsonb_faithful jt" and r: "system_reachable jt s"
    and q: "q \<in> set (processing_jobs (sy_db s))" "pj_state q = Accepted"
    and p: "jt (process_payload (pj_id q) (pj_work_item_id q)) \<in># sy_queue s"
  shows "\<exists>s'. deliver_step (\<lambda>_ _. None) [(jt (process_payload (pj_id q) (pj_work_item_id q)), Ack False)] s s'
    \<and> item_phase (sy_db s') (pj_work_item_id q) = Finished
    \<and> (\<exists>q' \<in> set (processing_jobs (sy_db s')). pj_id q' = pj_id q \<and> pj_state q' = Succeeded)"
proof -
  let ?j = "pj_id q" and ?i = "pj_work_item_id q" and ?w = "system_world [] s"
  let ?p = "jt (process_payload ?j ?i)" and ?m = "message_of ?j ?i"
  have ok: "data_ok s" using reachable_data_ok [OF r] .
  then have dok: "db_ok (db ?w)" by (simp add: data_ok_def)
  have m: "accepted_message ?p ?m" by (rule carried_message_accepted [OF jt ok q(1)])
  have "unique_key pj_id (processing_jobs (sy_db s))" using dok by (simp add: db_ok_def constraint_defs)
  then have row: "row_at pj_id (processing_jobs (db ?w)) ?j = Some q" using q(1) by (simp add: row_at_unique)
  have o: "open_in (db ?w) ?j ?i" using row q(2) by (simp add: open_in_def)
  obtain ir where ir: "row_at wi_id (work_items (db ?w)) ?i = Some ir" "wi_status ir = Pending"
    using open_in_item_pending [OF dok o] by blast
  have "pj_attempt_count q < int32_max"
    using reachable_attempts [OF r q(1)] q(2)
    by (simp add: attempts_within_def workerProcessingMaxAttempts_def int32_max_def)
  then have "completable (wm_JobID ?m) (wm_WorkItemID ?m) (db ?w)"
    using row ir q(2) by (simp add: completable_def message_of_def)
  from delivery_completes [OF calm_system_world dok m this] ir(1) obtain w' now where
    h: "handle_worker_message postgres_worker_store ?p ?w = ((settlementAck, None), w')"
    and d: "db w' = completed ?j ?i (wi_title ir) now (sy_db s)" by (auto simp: message_of_def)
  have judge: "successful_processor = judged (\<lambda>_ _. None)"
    by (intro ext) (simp add: successful_processor_def judged_def)
  note h' = h [unfolded handle_worker_message_def judge]
  have "process_rabbitmq_delivery_with_processor postgres_worker_store (judged (\<lambda>_ _. None))
      \<lparr>Body = ?p, acknowledger = (\<lambda>_. None)\<rparr> ?w =
      ((\<lparr>Settlement = settlementAck, HandlingErr = None\<rparr>, None), [(?p, Ack False)], w')"
    by (simp add: process_rabbitmq_delivery_with_processor_def h' settle_rabbitmq_delivery_def)
  from deliver_step.delivered [OF p _ this, where q' = "sy_queue s"]
  have "deliver_step (\<lambda>_ _. None) [(?p, Ack False)] s (system_after w' (sy_queue s))" by (simp add: alone_def queue_after_def)
  moreover have "item_phase (db w') ?i = Finished"
    using completed_item_status [OF ir, of ?j "wi_title ir" now ?i] by (simp add: d item_phase_finished)
  moreover have "succeed_row now q \<in> set (processing_jobs (db w'))"
    using in_update_where [OF q(1), of "open_job ?j ?i" "succeed_row now"] q(2)
    by (simp add: d completed_def with_result_def with_done_item_def with_succeeded_job_def open_job_def)
  ultimately show ?thesis
    by (intro exI [of _ "system_after w' (sy_queue s)"] conjI bexI [of _ "succeed_row now q"])
       (simp_all add: succeed_row_def)
qed

section \<open>Requests are steps\<close>

lemma Ready_isolated: "isolated w \<Longrightarrow> db (snd (Ready w)) = db w \<and> seqs (snd (Ready w)) = seqs w"
proof -
  have "isolated w \<Longrightarrow> probe_all n w = (r, w') \<Longrightarrow> db w' = db w \<and> seqs w' = seqs w" for n r w'
  proof (induction n arbitrary: w r)
    case (Suc n)
    obtain r1 w1 where e: "exec_auto probe_stmt w = (r1, w1)" by (metis surj_pair)
    have "db w1 = db w" "isolated w1"
      using read_only_isolated [OF Suc.prems(1) e] by (auto simp: probe_stmt_def)
    moreover have "seqs w1 = seqs w"
      using e Suc.prems(1) by (auto simp: exec_auto_def Let_def run_stmt_def probe_stmt_def arrive_isolated
        split: prod.splits sum.splits if_splits)
    ultimately show ?case using Suc e by (auto split: sum.splits if_splits)
  qed simp
  then show "isolated w \<Longrightarrow> ?thesis" by (metis Ready_def prod.collapse)
qed

section \<open>A sample path\<close>

text \<open>An item is created and accepted, from the empty system.\<close>

definition sample_created_system :: system where
  "sample_created_system =
     system_after (snd (create_item_handler postgres_store sample_create_request (system_world [] initial_system))) {#}"

definition sample_accepted_system :: system where
  "sample_accepted_system =
     system_after (snd (process_item_handler postgres_store (sample_process_request\<lparr>rq_id := ''1''\<rparr>)
       (system_world [] sample_created_system))) {#}"

lemma request_reachable:
  assumes "system_reachable jt s" and "(pattern, handle) \<in> business_handlers"
  shows "system_reachable jt (system_after (snd (handle r (system_world [] s))) (sy_queue s))"
proof (rule system_reachable.step [OF assms(1)])
  show "system_step jt s (system_after (snd (handle r (system_world [] s))) (sy_queue s))"
    using request_step.handled [OF assms(2), of "[]" r s "fst (handle r (system_world [] s))" "snd (handle r (system_world [] s))"]
    by (intro system_step.request) (simp add: alone_def)
qed

lemma sample_reachable: "system_reachable jt sample_created_system" "system_reachable jt sample_accepted_system"
proof -
  have h: "(''POST /items'', create_item_handler postgres_store) \<in> business_handlers"
    "(''POST /items/{id}/process'', process_item_handler postgres_store) \<in> business_handlers"
    by (simp_all add: business_handlers_def work_item_routes_def processing_routes_def)
  from request_reachable [OF system_reachable.initial h(1)] show c: "system_reachable jt sample_created_system"
    by (simp add: sample_created_system_def initial_system_def)
  have "sy_queue sample_created_system = {#}" by (simp add: sample_created_system_def)
  with request_reachable [OF c h(2)] show "system_reachable jt sample_accepted_system"
    by (simp add: sample_accepted_system_def)
qed

lemma sample_created_rows:
  "sy_db sample_created_system = empty_database\<lparr>work_items :=
     [\<lparr>wi_id = 1, wi_title = ''Plan'', wi_status = Pending, wi_created_at = 0\<rparr>]\<rparr>"
  "sy_seqs sample_created_system = initial_sequences\<lparr>seq_work_items := 1\<rparr>"
proof -
  let ?w = "system_world [] initial_system"
  let ?row = "\<lparr>wi_id = 1, wi_title = ''Plan'', wi_status = Pending, wi_created_at = 0\<rparr>"
  let ?d = "empty_database\<lparr>work_items := [?row]\<rparr>"
  have "immediate_ok ?d" and "deferred_ok ?d"
    by (simp_all add: constraint_defs deferred_defs empty_database_def unique_key_def work_item_row_ok_def pg_text_def)
  moreover have "create_item_stmt ''Plan'' (clock (next_turn ?w)) (db ?w) (seqs ?w) =
      (Inr ?row, (\<lambda>d. d\<lparr>work_items := insert_row ?row (work_items d)\<rparr>), initial_sequences\<lparr>seq_work_items := 1\<rparr>)"
    by (simp add: create_item_stmt_def Let_def initial_system_def system_world_def next_turn_def quiet_turn_def
        int64_max_def initial_sequences_def)
  moreover have "insert_row ?row (work_items (db ?w)) = [?row]"
    by (simp add: initial_system_def empty_database_def insert_row_def)
  ultimately have "exec_auto (create_item_stmt ''Plan'') ?w = (Inr ?row,
      (tick ?w)\<lparr>db := ?d, seqs := initial_sequences\<lparr>seq_work_items := 1\<rparr>\<rparr>)"
    using exec_auto_calm [where st = "create_item_stmt ''Plan''", OF calm_system_world]
    by (simp add: initial_system_def)
  moreover have "trim_space '' Plan '' = ''Plan''" "trim_space [] = []"
    by (simp_all add: trim_space_def trim_def is_space_def byte_def)
  ultimately show "sy_db sample_created_system = ?d" and "sy_seqs sample_created_system = initial_sequences\<lparr>seq_work_items := 1\<rparr>"
    using sample_create_decoded
    by (simp_all add: sample_created_system_def create_item_handler_def Let_def postgres_store_def create_work_item_def)
qed

lemma sample_accepted_rows:
  "\<exists>now. sy_db sample_accepted_system = with_acceptance 1 1 1 now (sy_db sample_created_system)"
proof -
  let ?w = "system_world [] sample_created_system"
  have "data_ok sample_created_system" using reachable_data_ok sample_reachable(1) by blast
  then have ok: "db_ok (db ?w)" "seqs_ok (seqs ?w) (db ?w)" by (simp_all add: data_ok_def)
  have "seqs_left (seqs ?w)"
    by (simp add: sample_created_rows seqs_left_def initial_sequences_def int64_max_def)
  from accept_processing_job_calm [OF calm_system_world ok this, of 1] obtain res w' now where
    "accept_processing_job 1 ?w = (res, w')" "db w' = with_acceptance 1 1 1 now (sy_db sample_created_system)"
    by (auto simp: sample_created_rows row_at_def empty_database_def initial_sequences_def)
  then show ?thesis
    by (auto simp: sample_accepted_system_def process_item_handler_def parse_sample_id postgres_store_def
        split: prod.splits option.splits if_splits)
qed

text \<open>Its job and its message.\<close>

lemma sample_accepted_job:
  "\<exists>now. new_job_row 1 1 now \<in> set (processing_jobs (sy_db sample_accepted_system))
    \<and> outbox_messages (sy_db sample_accepted_system) = [new_outbox_row 1 1 1 now]"
  using sample_accepted_rows
  by (auto simp: sample_created_rows with_acceptance_def with_new_message_def with_new_job_def insert_row_def
      empty_database_def)

section \<open>Properties\<close>

text \<open>
  C1 (no accepted job is lost). Whatever requests arrive, whichever calls to PostgreSQL fail and wherever,
  whatever the broker loses of confirmations and settlements, and in whatever order the processes run:
  every job the API accepted and no one finished has its message in the outbox, to be published, or
  in the queue.
\<close>

theorem no_accepted_job_lost:
  assumes "jsonb_faithful jt" and "system_reachable jt s"
    and "q \<in> set (processing_jobs (sy_db s))" and "pj_state q = Accepted"
  shows "\<exists>m \<in> set (outbox_messages (sy_db s)).
     ob_processing_job_id m = pj_id q \<and> ob_payload m = process_payload (pj_id q) (pj_work_item_id q)
     \<and> (unpublished m \<or> jt (ob_payload m) \<in># sy_queue s)"
  using reachable_none_lost [OF assms(2,1)] assms(3,4) by (simp add: none_lost_def carried_def)

theorem no_accepted_job_lost_witness:
  "\<exists>q \<in> set (processing_jobs (sy_db sample_accepted_system)). pj_state q = Accepted
    \<and> (\<exists>m \<in> set (outbox_messages (sy_db sample_accepted_system)). ob_processing_job_id m = pj_id q)"
proof -
  obtain now where q: "new_job_row 1 1 now \<in> set (processing_jobs (sy_db sample_accepted_system))"
    using sample_accepted_job by blast
  moreover have "pj_state (new_job_row 1 1 now) = Accepted" by (simp add: new_job_row_def)
  ultimately show ?thesis
    using no_accepted_job_lost [OF sample_jsonb_faithful sample_reachable(2)] by blast
qed

text \<open>
  C4 (items live by the life cycle). Every step of the system, on any reachable state, moves at most one
  item, and along the abstract life cycle: it appears, is accepted by a job, and that job finishes it or
  gives it up; a finished item never moves again.
\<close>

theorem system_refines_item_life:
  assumes "system_reachable jt s" and "system_step jt s s'"
  shows "\<exists>i. one_item_moves (sy_db s) (sy_db s') i \<and> (item_phase (sy_db s) i = Finished \<longrightarrow> item_phase (sy_db s') i = Finished)"
proof -
  have ok: "data_ok s" using reachable_data_ok [OF assms(1)] .
  from system_step_transaction [OF assms(2) ok] obtain a where
    t: "data_ok s'" "transaction a (sy_db s) (sy_db s')" by blast
  from transaction_refines [OF t(2)] ok t(1) obtain i where i: "one_item_moves (sy_db s) (sy_db s') i"
    by (auto simp: data_ok_def)
  then have "item_phase (sy_db s) i = Finished \<longrightarrow> item_phase (sy_db s') i = Finished"
    by (auto simp: one_item_moves_def elim: item_step_from_Finished)
  with i show ?thesis by blast
qed

theorem system_refines_item_life_witness:
  "item_phase (sy_db sample_created_system) 1 = Open
    \<and> (\<exists>i. one_item_moves (sy_db sample_created_system) (sy_db sample_accepted_system) i)"
proof -
  have "(''POST /items/{id}/process'', process_item_handler postgres_store) \<in> business_handlers"
    by (simp add: business_handlers_def work_item_routes_def processing_routes_def)
  from request_step.handled [OF this, of "[]" "sample_process_request\<lparr>rq_id := ''1''\<rparr>" sample_created_system]
  have "request_step sample_created_system sample_accepted_system"
    by (simp add: alone_def sample_accepted_system_def) (simp add: sample_created_system_def prod_eq_iff)
  moreover have "item_phase (sy_db sample_created_system) 1 = Open"
    by (simp add: item_phase_def sample_created_rows row_at_def empty_database_def Pending_def Done_def)
  ultimately show ?thesis using system_refines_item_life [OF sample_reachable(1)] system_step.request by blast
qed

text \<open>
  C15 (three attempts). In every reachable state no job has been attempted more than three times; an
  accepted one has an attempt left, and a failed one has used all three.
\<close>

theorem attempts_bounded:
  assumes "system_reachable jt s" and "q \<in> set (processing_jobs (sy_db s))"
  shows "0 \<le> pj_attempt_count q \<and> pj_attempt_count q \<le> 3
    \<and> (pj_state q = Accepted \<longrightarrow> pj_attempt_count q < 3) \<and> (pj_state q = Failed \<longrightarrow> pj_attempt_count q = 3)"
  using reachable_attempts [OF assms] by (simp add: attempts_within_def workerProcessingMaxAttempts_def)

theorem attempts_bounded_witness:
  "\<exists>q \<in> set (processing_jobs (sy_db sample_accepted_system)). pj_state q = Accepted \<and> pj_attempt_count q < 3"
proof -
  obtain now where q: "new_job_row 1 1 now \<in> set (processing_jobs (sy_db sample_accepted_system))"
    using sample_accepted_job by blast
  moreover have "pj_state (new_job_row 1 1 now) = Accepted" by (simp add: new_job_row_def)
  ultimately show ?thesis using attempts_bounded [OF sample_reachable(2)] by blast
qed

text \<open>
  C7 (an accepted job can always be finished). In every reachable state in which no unpublished message's
  counter of publish attempts has reached the largest INTEGER, any accepted job can be finished by the programs'
  own steps, without a foreign message: rounds of the publisher, all of whose publications the broker
  confirms, bring its message to the queue (none are needed when it is there), and one delivery of that
  message is acknowledged; the job has then succeeded, and its item is finished. So no faults, lost
  confirmations or lost settlements lead the system into a state from which an accepted job is stuck.
\<close>

theorem accepted_job_can_finish:
  assumes "jsonb_faithful jt" and "system_reachable jt s"
    and "q \<in> set (processing_jobs (sy_db s))" and "pj_state q = Accepted"
    and "\<And>m. m \<in> set (outbox_messages (sy_db s)) \<Longrightarrow> unpublished m \<Longrightarrow> ob_publish_attempts m < int32_max"
  shows "\<exists>es s1 s2. traced (publish_step jt no_locks) es s s1 \<and> (\<forall>m e. Tried m e \<in> set es \<longrightarrow> e = None)
    \<and> deliver_step (\<lambda>_ _. None) [(jt (process_payload (pj_id q) (pj_work_item_id q)), Ack False)] s1 s2
    \<and> item_phase (sy_db s2) (pj_work_item_id q) = Finished
    \<and> (\<exists>q' \<in> set (processing_jobs (sy_db s2)). pj_id q' = pj_id q \<and> pj_state q' = Succeeded)"
proof -
  from can_publish_all [OF assms] obtain es s1 where s1: "traced (publish_step jt no_locks) es s s1"
    "\<forall>m e. Tried m e \<in> set es \<longrightarrow> e = None" "system_reachable jt s1" "q \<in> set (processing_jobs (sy_db s1))"
    "jt (process_payload (pj_id q) (pj_work_item_id q)) \<in># sy_queue s1" by blast
  from can_deliver [OF assms(1) s1(3,4) assms(4) s1(5)] s1(1,2) show ?thesis by blast
qed

theorem accepted_job_can_finish_witness:
  "\<exists>es s1 s2. traced (publish_step sample_jsonb_text no_locks) es sample_accepted_system s1
    \<and> deliver_step (\<lambda>_ _. None) [(sample_jsonb_text (process_payload 1 1), Ack False)] s1 s2
    \<and> item_phase (sy_db s2) 1 = Finished"
proof -
  obtain now where q: "new_job_row 1 1 now \<in> set (processing_jobs (sy_db sample_accepted_system))"
    and m: "outbox_messages (sy_db sample_accepted_system) = [new_outbox_row 1 1 1 now]"
    using sample_accepted_job by blast
  have "ob_publish_attempts x < int32_max" if "x \<in> set (outbox_messages (sy_db sample_accepted_system))" for x
    using that by (simp add: m new_outbox_row_def int32_max_def)
  moreover have "pj_state (new_job_row 1 1 now) = Accepted" "pj_work_item_id (new_job_row 1 1 now) = 1"
    "pj_id (new_job_row 1 1 now) = 1" by (simp_all add: new_job_row_def)
  ultimately show ?thesis
    using accepted_job_can_finish [OF sample_jsonb_faithful sample_reachable(2) q] by fastforce
qed

text \<open>
  Serving any request, with the guard the configuration chose, and
  whichever calls fail, is one step of the system or leaves database and queue as they were.
\<close>

lemma request_is_step:
  assumes "new_application_handler app_version is_ready postgres_store protect = Some mux"
    and "configured_guard validate_token protect" and "alone ts"
    and "serve mux r (v, system_world ts s) = (resp, (v', w'))"
  shows "system_step jt s (system_after w' (sy_queue s)) \<or> system_after w' (sy_queue s) = s"
  using serve_cases [OF assms(1,2,4)]
proof (elim disjE exE conjE)
  fix pattern handle x
  assume "(pattern, handle) \<in> business_handlers" "handle (r\<lparr>rq_id := x\<rparr>) (system_world ts s) = (resp, w')"
  then show ?thesis using system_step.request [OF request_step.handled [OF _ assms(3)]] by blast
next
  assume "w' = snd (Ready (system_world ts s))"
  with Ready_isolated [of "system_world ts s"] assms(3) show ?thesis by (simp add: system_after_def)
qed (simp add: system_after_def system_world_def)

end
