(* ===== verification/Processes.thy ===== *)
theory Processes
  imports SystemRuns
begin

text \<open>
  The two long-running loops as runs of the system: whatever a publisher or a worker process does between
  its start and its end, alone on the database, is a sequence of the system's steps. So what holds in
  every reachable state holds after every run.
\<close>

section \<open>Worlds between operations\<close>

lemma system_world_after [simp]: "system_world (turns w) (system_after w q) = w"
  by (simp add: system_world_def system_after_def)

lemma alone_turns [simp]: "alone (turns w) = isolated w"
  by (simp add: alone_def isolated_def)

section \<open>The publisher's loop\<close>

lemma publish_next_step:
  assumes "isolated w"
    and "publish_next_outbox_message (postgres_outbox_store jt locked) publish w = (r, events, w')"
    and "broker_took events sent"
  shows "publish_step jt locked events (system_after w q) (system_after w' (q + sent))" and "isolated w'"
proof -
  from publish_step.round [of "turns w" jt locked publish "system_after w q" r events w' sent] assms
  show "publish_step jt locked events (system_after w q) (system_after w' (q + sent))" by simp
  show "isolated w'" by (rule publish_next_isolated [OF assms(1,2)])
qed

text \<open>Opening and closing the publisher brings the queue nothing.\<close>

lemma took_no_tries: "\<forall>ev \<in> set es. \<forall>m e. ev \<noteq> Tried m e \<Longrightarrow> broker_took es q \<Longrightarrow> q = {#}"
  by (induction es arbitrary: q) (auto elim: broker_took_Nil broker_took_Cons)

lemma took_around:
  assumes "broker_took (es @ events @ es') q"
    and "\<forall>ev \<in> set es. \<forall>m e. ev \<noteq> Tried m e" and "\<forall>ev \<in> set es'. \<forall>m e. ev \<noteq> Tried m e"
  shows "broker_took events q"
  using broker_took_append [OF assms(1)] broker_took_append [of events es'] took_no_tries assms(2,3)
  by (metis add.left_neutral add.right_neutral)

text \<open>The events of the rounds themselves, without the opening and closing of broker publishers.\<close>

definition of_a_round :: "outbox_event \<Rightarrow> bool" where
  "of_a_round ev = (case ev of PublisherOpened ok \<Rightarrow> False | PublisherClosed \<Rightarrow> False | _ \<Rightarrow> True)"

lemma not_of_a_round: "\<not> of_a_round ev \<Longrightarrow> ev \<noteq> Tried m e"
  by (auto simp: of_a_round_def)

lemma round_events:
  "publish_next_outbox_message store publish s = (r, events, s') \<Longrightarrow> filter of_a_round events = events"
  by (auto simp: publish_next_outbox_message_def Let_def of_a_round_def
      split: sum.splits option.splits prod.splits if_splits)

lemma publisher_run_steps:
  "run_outbox_publisher (postgres_outbox_store jt locked) reconnect idle_poll store_retry ts publisher w
     = (out, events, w') \<Longrightarrow> isolated w \<Longrightarrow> broker_took events sent \<Longrightarrow>
   traced (publish_step jt locked) (filter of_a_round events) (system_after w q) (system_after w' (q + sent))
     \<and> isolated w'"
proof (induction ts arbitrary: publisher w out events w' sent q)
  case Nil
  then show ?case by (auto elim!: broker_took_Nil simp: traced.stop)
next
  case (Cons t ts)
  let ?store = "postgres_outbox_store jt locked"
  obtain ok err ev1 w1 where p: "publish_next_outbox_message ?store (pt_publish t) w = ((ok, err), ev1, w1)"
    by (metis prod.collapse)
  have plain: "\<forall>ev \<in> set (snd (close_publisher b cerr)). \<not> of_a_round ev" for b cerr
    by (simp add: close_publisher_def of_a_round_def)
  have waits: ?case if "\<not> publisher" "run_outbox_publisher ?store reconnect idle_poll store_retry ts False w = (out, ev2, w')"
      "events = PublisherOpened False # ev2" for ev2
    using Cons.IH [OF that(2) Cons.prems(2), of sent q] Cons.prems(3) that(3)
    by (auto simp: of_a_round_def elim: broker_took_Cons)
  have rounds: ?case if "events = opened @ ev1 @ closed @ ev2"
      "\<forall>ev \<in> set opened. \<not> of_a_round ev" "\<forall>ev \<in> set closed. \<not> of_a_round ev"
      "ev2 = [] \<and> w' = w1 \<or> run_outbox_publisher ?store reconnect idle_poll store_retry ts pub w1 = (out, ev2, w')"
    for opened closed ev2 pub
  proof -
    from Cons.prems(3) that(1) obtain sent1 sent2 where s: "broker_took (opened @ ev1 @ closed) sent1"
      "broker_took ev2 sent2" "sent = sent1 + sent2"
      using broker_took_append [of "opened @ ev1 @ closed" ev2 sent] by auto
    have "broker_took ev1 sent1"
      by (rule took_around [OF s(1)]) (use that(2,3) not_of_a_round in blast)+
    note step = publish_next_step [OF Cons.prems(2) p this]
    have "traced (publish_step jt locked) (filter of_a_round ev2)
        (system_after w1 (q + sent1)) (system_after w' (q + sent1 + sent2)) \<and> isolated w'"
      using that(4)
    proof
      assume "ev2 = [] \<and> w' = w1"
      with s(2) step(2) show ?thesis by (auto elim!: broker_took_Nil simp: traced.stop)
    next
      assume "run_outbox_publisher ?store reconnect idle_poll store_retry ts pub w1 = (out, ev2, w')"
      from Cons.IH [OF this step(2) s(2)] show ?thesis .
    qed
    moreover have "filter of_a_round events = ev1 @ filter of_a_round ev2"
      using that(1-3) round_events [OF p] by (simp add: filter_empty_conv)
    ultimately show ?thesis using traced.go [where step = "publish_step jt locked", OF step(1) [of q]] s(3) by (simp add: add.assoc)
  qed
  have stops: ?case if "w' = w" "\<forall>ev \<in> set events. \<not> of_a_round ev"
  proof -
    have "sent = {#}" by (rule took_no_tries [OF _ Cons.prems(3)]) (use that(2) not_of_a_round in blast)
    moreover have "filter of_a_round events = []" using that(2) by (simp add: filter_empty_conv)
    ultimately show ?thesis using that(1) Cons.prems(2) by (simp add: traced.stop)
  qed
  let ?opened = "if publisher then [] else [PublisherOpened True]"
  let ?closed = "snd (close_publisher True (pt_close t))"
  have opened: "\<forall>ev \<in> set ?opened. \<not> of_a_round ev" by (simp add: of_a_round_def)
  consider (ctx) "pt_ctx_err t" | (closed) "\<not> pt_ctx_err t" "\<not> publisher" "\<not> is_ok (pt_new t)"
    | (round) "\<not> pt_ctx_err t" "publisher \<or> is_ok (pt_new t)" by blast
  then show ?case
  proof cases
    case ctx
    with Cons.prems(1) plain [of publisher "pt_close t"] show ?thesis by (intro stops) (auto split: prod.splits)
  next
    case closed
    show ?thesis
    proof (cases "wait_for_publisher_delay (pt_wait t) reconnect")
      case True
      with closed Cons.prems(1) obtain ev2 where
        "run_outbox_publisher ?store reconnect idle_poll store_retry ts False w = (out, ev2, w')"
        "events = PublisherOpened False # ev2" by (auto split: prod.splits)
      from waits [OF closed(2) this] show ?thesis .
    next
      case False
      with closed Cons.prems(1) show ?thesis by (intro stops) (auto simp: of_a_round_def)
    qed
  next
    case round
    from Cons.prems(1) round p have "\<exists>closed ev2 pub. events = ?opened @ ev1 @ closed @ ev2 \<and> closed \<in> {[], ?closed}
        \<and> (ev2 = [] \<and> w' = w1 \<or> run_outbox_publisher ?store reconnect idle_poll store_retry ts pub w1 = (out, ev2, w'))"
      by (cases err) (auto simp: Let_def split: if_splits prod.splits)
    then obtain closed ev2 pub where r: "events = ?opened @ ev1 @ closed @ ev2" "closed \<in> {[], ?closed}"
      "ev2 = [] \<and> w' = w1 \<or> run_outbox_publisher ?store reconnect idle_poll store_retry ts pub w1 = (out, ev2, w')"
      by blast
    from r(2) plain [of True "pt_close t"] have "\<forall>ev \<in> set closed. \<not> of_a_round ev" by auto
    from rounds [OF r(1) opened this r(3)] show ?thesis .
  qed
qed

section \<open>The worker's loop\<close>

lemma isolated_after_get: "isolated w \<Longrightarrow> get_processing_job exec_auto j i w = (r, w') \<Longrightarrow> isolated w'"
  by (rule get_job_isolated)

lemma isolated_after_failure:
  assumes "isolated w" and "record_processing_failure j i code n w = (r, w')"
  shows "isolated w'"
proof -
  obtain r1 w1 where e1: "exec_auto (record_failure_stmt j i code n) w = (r1, w1)" by (metis surj_pair)
  obtain r2 w2 where e2: "exec_auto (select_job_stmt j) w1 = (r2, w2)" by (metis surj_pair)
  have "isolated w1" using exec_auto_isolated(1) [OF assms(1) e1] .
  moreover have "isolated w2" using exec_auto_isolated(1) [OF calculation e2] .
  ultimately show ?thesis using assms e1 e2
    by (auto simp: record_processing_failure_def Let_def split: sum.splits if_splits)
qed

lemma isolated_after_commit: "isolated (tx_world x) \<Longrightarrow> commit_tx x = (r, w') \<Longrightarrow> isolated w'"
  by (auto simp: commit_tx_def Let_def tx_arrive_isolated split: if_splits)

lemma isolated_after_pending:
  assumes iso: "isolated (tx_world x)" and run: "complete_pending_item j i x = (r, w')"
  shows "isolated w'"
proof -
  obtain r1 x1 where e1: "exec_tx (select_item_stmt i) x = (r1, x1)" by (metis surj_pair)
  note x1 = exec_tx_isolated(1) [OF iso e1]
  show ?thesis
  proof (cases r1)
    case (Inl e)
    with run e1 x1 show ?thesis by (auto simp: complete_pending_item_def rollback_tx_def)
  next
    case (Inr ir)
    obtain cs ws where a: "analyze_title (wi_title ir) = (cs, ws)" by (metis surj_pair)
    obtain r2 x2 where e2: "exec_tx (insert_result_stmt i j (wi_title ir) cs ws) x1 = (r2, x2)" by (metis surj_pair)
    note x2 = exec_tx_isolated(1) [OF x1 e2]
    obtain r3 x3 where e3: "exec_tx (finish_item_stmt i) x2 = (r3, x3)" by (metis surj_pair)
    note x3 = exec_tx_isolated(1) [OF x2 e3]
    obtain r4 x4 where e4: "exec_tx (succeed_job_stmt j i) x3 = (r4, x4)" by (metis surj_pair)
    note x4 = exec_tx_isolated(1) [OF x3 e4]
    obtain r5 w5 where e5: "commit_tx x4 = (r5, w5)" by (metis surj_pair)
    from run e1 Inr a e2 e3 e4 e5 x1 x2 x3 x4 isolated_after_commit [OF x4 e5] show ?thesis
      by (cases r2; cases r3; cases r4; cases r5)
         (auto simp: complete_pending_item_def rollback_tx_def split: if_splits)
  qed
qed

lemma isolated_after_completion:
  assumes "isolated w" and "complete_processing_job j i w = (r, w')"
  shows "isolated w'"
proof -
  obtain r0 x0 where b: "begin_tx w = (r0, x0)" by (metis surj_pair)
  have x0: "isolated (tx_world x0)" using b assms(1) by (auto simp: begin_tx_def arrive_isolated)
  obtain r1 x1 where l: "exec_tx (ItemLockSQL i) x0 = (r1, x1)" by (metis surj_pair)
  have x1: "isolated (tx_world x1)" using exec_tx_isolated(1) [OF x0 l] .
  obtain r2 x2 where g: "get_processing_job exec_tx j i x1 = (r2, x2)" by (metis surj_pair)
  have x2: "isolated (tx_world x2)" using get_job_tx_isolated(1) [OF x1 g] .
  show ?thesis
    using assms(2) b l g x0 x1 x2 isolated_after_pending
    by (auto simp: complete_processing_job_def rollback_tx_def split: sum.splits if_splits)
qed

text \<open>The handler's contract once more: alone stays alone.\<close>

interpretation pg_alone: completer postgres_worker_store "judged verdict" isolated "\<lambda>_ _ _. True" for verdict
  by unfold_locales
     (auto simp: postgres_worker_store_def judged_def
        intro: isolated_after_get isolated_after_failure isolated_after_completion)

text \<open>
  What a trace of settlements does to the queue the deliveries came from: each delivered payload was in
  it, and each settlement works as \<open>queue_after\<close> says.
\<close>

inductive broker_settled :: "settlement_trace \<Rightarrow> bytes multiset \<Rightarrow> bytes multiset \<Rightarrow> bool" where
  none: "broker_settled [] q q"
| settle: "p \<in># q \<Longrightarrow> queue_after [(p, c)] p q q1 \<Longrightarrow> broker_settled tr q1 q' \<Longrightarrow> broker_settled ((p, c) # tr) q q'"

inductive_cases broker_settled_Nil: "broker_settled [] q q'"
inductive_cases broker_settled_Cons: "broker_settled ((p, c) # tr) q q'"

lemma broker_settled_append:
  "broker_settled (tr @ tr') q q' \<Longrightarrow> \<exists>q1. broker_settled tr q q1 \<and> broker_settled tr' q1 q'"
proof (induction tr arbitrary: q)
  case Nil
  then show ?case using broker_settled.none by auto
next
  case (Cons a tr)
  obtain p c where a: "a = (p, c)" by (metis surj_pair)
  from Cons.prems obtain q1 where q1: "p \<in># q" "queue_after [(p, c)] p q q1" "broker_settled (tr @ tr') q1 q'"
    by (auto simp: a elim: broker_settled_Cons)
  from Cons.IH [OF q1(3)] broker_settled.settle [OF q1(1,2)] show ?case by (auto simp: a)
qed

lemma successful_is_judged: "successful_processor = judged (\<lambda>_ _. None)"
  by (intro ext) (simp add: successful_processor_def judged_def)

lemma delivery_step:
  assumes iso: "isolated w"
    and run: "process_rabbitmq_delivery postgres_worker_store d w = (res, tr, w')" and q: "broker_settled tr q q'"
  shows "deliver_step (\<lambda>_ _. None) tr (system_after w q) (system_after w' q')" and "isolated w'"
proof -
  obtain p answers where d: "d = \<lparr>Body = p, acknowledger = answers\<rparr>" by (cases d)
  note run' = run [unfolded process_rabbitmq_delivery_def successful_is_judged d]
  obtain st err where h: "handle_worker_message_with_processor postgres_worker_store (judged (\<lambda>_ _. None)) p w
      = ((st, err), w')" and tr: "tr = [(p, call_of st)]"
    using processed_delivery [OF run'] by blast
  show "isolated w'" using pg_alone.handler_keeps(1) [OF iso h] .
  from q have left: "p \<in># q" "queue_after tr p q q'"
    by (auto simp: tr elim!: broker_settled_Cons broker_settled_Nil)
  from deliver_step.delivered [of p "system_after w q" "turns w" "\<lambda>_ _. None" answers res tr w' q']
    run' left iso show "deliver_step (\<lambda>_ _. None) tr (system_after w q) (system_after w' q')" by simp
qed

lemma worker_loop_steps:
  "run_worker_delivery_loop postgres_worker_store ts w = (out, tr, w') \<Longrightarrow> isolated w \<Longrightarrow> broker_settled tr q q' \<Longrightarrow>
   traced (deliver_step (\<lambda>_ _. None)) tr (system_after w q) (system_after w' q') \<and> isolated w'"
proof (induction ts arbitrary: w out tr w' q)
  case Nil
  then show ?case by (auto elim!: broker_settled_Nil simp: traced.stop)
next
  case (Cons t ts)
  show ?case
  proof (cases "ctx_err t \<or> (\<nexists>d. event t = Received d)")
    case True
    with Cons.prems have "tr = [] \<and> w' = w" by (auto split: loop_event.splits if_splits)
    with Cons.prems show ?thesis by (auto elim!: broker_settled_Nil simp: traced.stop)
  next
    case False
    then obtain d where ev: "event t = Received d" "\<not> ctx_err t" by blast
    obtain res err tr1 w1 where p: "process_rabbitmq_delivery postgres_worker_store d w = ((res, err), tr1, w1)"
      by (metis prod.collapse)
    show ?thesis
    proof (cases "err = None \<and> Settlement res \<noteq> settlementNackRequeue")
      case True
      obtain out2 tr2 w2 where rec: "run_worker_delivery_loop postgres_worker_store ts w1 = (out2, tr2, w2)"
        by (metis prod.collapse)
      have r: "tr = tr1 @ tr2" "w' = w2" using Cons.prems(1) ev p True rec by auto
      obtain q1 where q: "broker_settled tr1 q q1" "broker_settled tr2 q1 q'"
        using broker_settled_append Cons.prems(3) r(1) by blast
      note step = delivery_step [OF Cons.prems(2) p q(1)]
      from Cons.IH [OF rec step(2) q(2)] traced.go [where step = "deliver_step (\<lambda>_ _. None)", OF step(1)] show ?thesis by (simp add: r)
    next
      case False
      then have "tr = tr1 \<and> w' = w1" using Cons.prems(1) ev p by (cases err) (auto split: if_splits)
      with delivery_step [OF Cons.prems(2) p, of q q'] Cons.prems(3) show ?thesis by (simp add: traced_one [where step = "deliver_step (\<lambda>_ _. None)"])
    qed
  qed
qed

section \<open>The worker process\<close>

fun settlements :: "worker_event list \<Rightarrow> settlement_trace" where
  "settlements [] = []"
| "settlements (Settled p c # es) = (p, c) # settlements es"
| "settlements (ev # es) = settlements es"

lemma settlements_append [simp]: "settlements (es @ es') = settlements es @ settlements es'"
  by (induction es rule: settlements.induct) simp_all

lemma settlements_of_trace [simp]: "settlements (map (\<lambda>(p, c). Settled p c) tr) = tr"
  by (induction tr) auto

lemma opening_settles_nothing:
  "new_rabbitmq_worker_session_with_dialer dialer url queue = (r, events) \<Longrightarrow> settlements events = []"
  by (auto simp: new_rabbitmq_worker_session_with_dialer_def start_rabbitmq_consumer_def close_session_def Let_def
      split: sum.splits option.splits if_splits)

lemma closing_settles_nothing: "close_session session = (r, events) \<Longrightarrow> settlements events = []"
  by (auto simp: close_session_def split: option.splits)

lemma worker_session_steps:
  assumes iso: "isolated w" and q: "broker_settled (settlements events) q q'"
    and run: "run_worker_session postgres_worker_store (new_rabbitmq_worker_session_with_dialer dialer url queue) w
      = (out, events, w')"
  shows "traced (deliver_step (\<lambda>_ _. None)) (settlements events) (system_after w q) (system_after w' q') \<and> isolated w'"
proof -
  obtain r started where n: "new_rabbitmq_worker_session_with_dialer dialer url queue = (r, started)"
    by (metis surj_pair)
  note o = opening_settles_nothing [OF n]
  show ?thesis
  proof (cases r)
    case (Inl e)
    with run n q o iso show ?thesis by (auto simp: run_worker_session_def traced.stop elim!: broker_settled_Nil)
  next
    case r: (Inr session)
    obtain out1 tr w1 where l: "run_worker_delivery_loop postgres_worker_store (Deliveries session) w = (out1, tr, w1)"
      by (metis prod_cases3)
    obtain cerr final where c: "close_session session = (cerr, final)" by (metis surj_pair)
    from run n r l c o closing_settles_nothing [OF c] have "w' = w1" "settlements events = tr"
      by (cases out1; auto simp: run_worker_session_def)+
    with worker_loop_steps [OF l iso, of q q'] q show ?thesis by simp
  qed
qed

lemma worker_lifecycle_steps:
  "run_worker_lifecycle_with_reporter
     (\<lambda>e. run_worker_session postgres_worker_store (new_rabbitmq_worker_session_with_dialer (dialer e) url queue))
     delay (Some (\<lambda>err. [ExitReported err])) ts w = (out, events, w') \<Longrightarrow> isolated w \<Longrightarrow>
   broker_settled (settlements events) q q' \<Longrightarrow>
   traced (deliver_step (\<lambda>_ _. None)) (settlements events) (system_after w q) (system_after w' q') \<and> isolated w'"
proof (induction ts arbitrary: w out events w' q)
  case Nil
  then show ?case by (auto elim!: broker_settled_Nil simp: traced.stop)
next
  case (Cons t ts)
  let ?run = "\<lambda>e. run_worker_session postgres_worker_store (new_rabbitmq_worker_session_with_dialer (dialer e) url queue)"
  let ?report = "Some (\<lambda>err. [ExitReported err])"
  obtain out1 ev1 w1 where r: "?run (lt_session t) w = (out1, ev1, w1)" by (metis prod_cases3)
  obtain out2 ev2 w2 where rec: "run_worker_lifecycle_with_reporter ?run delay ?report ts w1 = (out2, ev2, w2)"
    by (metis prod_cases3)
  consider (stop) "events = []" "w' = w" | (last) "settlements events = settlements ev1" "w' = w1"
    | (more) "settlements events = settlements ev1 @ settlements ev2" "w' = w2"
    using Cons.prems(1) r rec by (cases out1) (auto simp: Let_def split: if_splits)
  then show ?case
  proof cases
    case stop
    with Cons.prems(2,3) show ?thesis by (auto elim!: broker_settled_Nil simp: traced.stop)
  next
    case last
    with worker_session_steps [OF Cons.prems(2) _ r, of q q'] Cons.prems(3) show ?thesis by simp
  next
    case more
    with Cons.prems(3) obtain q1 where q: "broker_settled (settlements ev1) q q1" "broker_settled (settlements ev2) q1 q'"
      using broker_settled_append [of "settlements ev1" "settlements ev2" q q'] by auto
    note one = worker_session_steps [OF Cons.prems(2) q(1) r]
    from Cons.IH [OF rec _ q(2)] one show ?thesis by (auto simp: more intro: traced_append)
  qed
qed

section \<open>Runs keep to the reachable states\<close>

lemma reachable_after_steps: "(system_step jt)\<^sup>*\<^sup>* s s' \<Longrightarrow> system_reachable jt s \<Longrightarrow> system_reachable jt s'"
  by (induction rule: rtranclp_induct) (auto intro: system_reachable.step)

lemma runs_reachable:
  assumes "system_reachable jt s"
  shows "traced (publish_step jt locked) es s s' \<Longrightarrow> system_reachable jt s'"
    and "traced (deliver_step verdict) tr s s' \<Longrightarrow> system_reachable jt s'"
proof -
  show "system_reachable jt s'" if t: "traced (publish_step jt locked) es s s'"
    by (rule reachable_after_steps [OF traced_steps [OF t] assms]) (rule system_step.publish)
  show "system_reachable jt s'" if t: "traced (deliver_step verdict) tr s s'"
    by (rule reachable_after_steps [OF traced_steps [OF t] assms]) (rule system_step.deliver)
qed

section \<open>Properties\<close>

text \<open>
  C20 (the publisher's runs). Alone on the database, whatever calls fail: a run of the outbox publisher's
  loop, over all the broker publishers it opens, is a sequence of the system's publication steps and of no
  other, whose events in order are exactly the run's (apart from the opening and closing of broker
  publishers), and the queue has grown by exactly what the broker took of them.
\<close>

theorem publisher_run_refines:
  assumes "isolated w"
    and "run_outbox_publisher (postgres_outbox_store jt locked) reconnect idle_poll store_retry ts publisher w
      = (out, events, w')"
    and "broker_took events sent"
  shows "traced (publish_step jt locked) (filter of_a_round events) (system_after w q) (system_after w' (q + sent))"
  using publisher_run_steps [OF assms(2,1,3)] by blast

theorem publisher_run_refines_witness:
  "\<exists>out events w' sent. run_outbox_publisher (postgres_outbox_store sample_jsonb_text (\<lambda>_ _. False)) 1 1 1
      sample_publisher_turns False sample_world = (out, events, w')
    \<and> broker_took events sent
    \<and> traced (publish_step sample_jsonb_text (\<lambda>_ _. False)) (filter of_a_round events)
        (system_after sample_world {#}) (system_after w' sent)"
proof -
  obtain out events w' where r: "run_outbox_publisher (postgres_outbox_store sample_jsonb_text (\<lambda>_ _. False))
      1 1 1 sample_publisher_turns False sample_world = (out, events, w')" by (metis prod_cases3)
  obtain sent where sent: "broker_took events sent" using broker_can_take by blast
  from publisher_run_refines [OF calm_isolated [OF sample_calm] r sent, of "{#}"] r sent show ?thesis by auto
qed

text \<open>
  C19 (the worker's runs). Alone on the database, whatever calls fail and whatever the broker answers: a
  run of the worker process, over all its sessions, is a sequence of the system's delivery steps and of no
  other, one for each settlement of the run and in their order, with the processor the worker runs, and the
  queue is as these settlements left it.
\<close>

theorem worker_run_refines:
  assumes "isolated w"
    and "run_worker_process config (new_postgres_worker_store parse_config new_pool)
      (\<lambda>e. new_rabbitmq_worker_session_with_dialer (dialer e)) ts w = (out, events, w')"
    and "broker_settled (settlements events) q q'"
  shows "traced (deliver_step (\<lambda>_ _. None)) (settlements events) (system_after w q) (system_after w' q')"
proof (cases "new_postgres_worker_store parse_config new_pool (wc_DatabaseURL config)")
  case (Inl e)
  with assms show ?thesis by (auto simp: process_without_store traced.stop elim!: broker_settled_Nil)
next
  case (Inr store)
  obtain out1 ev1 w1 where l: "run_worker_lifecycle_with_reporter
      (\<lambda>e. run_worker_session postgres_worker_store (new_rabbitmq_worker_session_with_dialer (dialer e)
         (wc_RabbitMQWorkerURL config) (wc_QueueName config)))
      workerSessionRetryDelay (Some (\<lambda>err. [ExitReported err])) ts w = (out1, ev1, w1)"
    by (metis prod_cases3)
  from assms(2) Inr new_postgres_store [OF Inr] l have "w' = w1" "settlements events = settlements ev1"
    by (cases out1; auto simp: run_worker_process_def)+
  with worker_lifecycle_steps [OF l assms(1), of q q'] assms(3) show ?thesis by simp
qed

lemma sample_run_settlements:
  "\<exists>out events w'. sample_run = (out, events, w') \<and> settlements events = [(sample_payload, Ack False)]"
proof -
  obtain w' where "handle_worker_message postgres_worker_store sample_payload sample_world =
      ((settlementAck, None), w')" using sample_handled by blast
  then show ?thesis
    by (simp add: sample_run_def run_worker_process_def new_postgres_worker_store_def sample_turns_def
        run_worker_session_def new_rabbitmq_worker_session_with_dialer_def sample_dialer_def
        start_rabbitmq_consumer_def sample_stream_def sample_delivery_def process_rabbitmq_delivery_def
        process_rabbitmq_delivery_with_processor_def handle_worker_message_def settle_rabbitmq_delivery_def
        close_session_def session_result_def)
qed

theorem worker_run_refines_witness:
  "\<exists>out events w'. sample_run = (out, events, w')
    \<and> traced (deliver_step (\<lambda>_ _. None)) [(sample_payload, Ack False)] (system_after sample_world {#sample_payload#}) (system_after w' {#})"
proof -
  obtain out events w' where r: "sample_run = (out, events, w')" and s: "settlements events = [(sample_payload, Ack False)]"
    using sample_run_settlements by blast
  have "broker_settled (settlements events) {#sample_payload#} {#}"
    unfolding s
    by (rule broker_settled.settle [OF _ _ broker_settled.none]) (simp_all add: queue_after_def dismisses_def)
  from worker_run_refines [OF calm_isolated [OF sample_calm] r [unfolded sample_run_def] this] r s show ?thesis by auto
qed

end
