(* ===== verification/Interleaving.thy ===== *)
theory Interleaving
  imports Processes
begin

text \<open>
  The operations among other sessions, statement by statement. The rely: between any two calls the other
  sessions commit transactions of the same kinds as the programs' own. The guarantee: every operation of
  the API, the publisher and the worker moves the committed database by such transactions only.
\<close>

section \<open>Rely and guarantee\<close>

definition commit_step :: "int64 set \<Rightarrow> database \<Rightarrow> database \<Rightarrow> bool" where
  "commit_step P d d' = ((\<exists>a. transaction a d d') \<and> db_ok d' \<and> publishes_only P d d')"

text \<open>The API and the worker publish nothing.\<close>

lemma transaction_publishes_only:
  assumes "transaction a d d'" and "a \<noteq> Publisher"
  shows "publishes_only P d d'"
  using assms
  by cases
     (auto simp: publishes_only_def with_acceptance_def with_new_message_def with_new_job_def insert_row_def
        new_outbox_row_def unpublished_def completed_def with_result_def with_done_item_def with_succeeded_job_def
        with_failed_attempt_def)

lemma commit_step_mono: "commit_step P d d' \<Longrightarrow> P \<subseteq> Q \<Longrightarrow> commit_step Q d d'"
  unfolding commit_step_def publishes_only_def by blast

text \<open>The rely: what the others commit between two calls is a sequence of transactions.\<close>

definition others_transact :: "int64 set \<Rightarrow> turn \<Rightarrow> bool" where
  "others_transact P t = (\<forall>d sq d' sq'. others t (d, sq) = (d', sq') \<longrightarrow> db_ok d \<longrightarrow> seqs_ok sq d \<longrightarrow>
     (commit_step P)\<^sup>*\<^sup>* d d')"

definition interleaved :: "int64 set \<Rightarrow> world \<Rightarrow> bool" where
  "interleaved P w = (\<forall>t \<in> set (turns w). others_transact P t)"

text \<open>
  The guarantee, from one world to a later one: transactions that publish at most \<open>K\<close>, beside what the
  others publish.
\<close>

definition advances_with :: "int64 set \<Rightarrow> int64 set \<Rightarrow> world \<Rightarrow> world \<Rightarrow> bool" where
  "advances_with K P w w' =
     (evolves w w' \<and> (world_ok w \<longrightarrow> interleaved P w \<longrightarrow>
        interleaved P w' \<and> (commit_step (P \<union> K))\<^sup>*\<^sup>* (db w) (db w')))"

abbreviation advances :: "int64 set \<Rightarrow> world \<Rightarrow> world \<Rightarrow> bool" where
  "advances \<equiv> advances_with {}"

lemmas advances_def = advances_with_def [where K = "{}", unfolded Un_empty_right]

lemma advances_refl [simp]: "advances_with K P w w"
  by (simp add: advances_with_def)

lemma advances_trans [trans]: "advances_with K P a b \<Longrightarrow> advances_with K P b c \<Longrightarrow> advances_with K P a c"
  unfolding advances_with_def by (meson evolves_trans evolves_world_ok rtranclp_trans)

lemma advances_mono:
  assumes "advances_with K P w w'" and "K \<subseteq> K'"
  shows "advances_with K' P w w'"
proof -
  have "commit_step (P \<union> K) \<le> commit_step (P \<union> K')" using assms(2) by (blast intro: commit_step_mono)
  from rtranclp_mono [OF this] assms(1) show ?thesis unfolding advances_with_def by blast
qed

lemma advances_evolves: "advances_with K P w w' \<Longrightarrow> evolves w w'"
  by (simp add: advances_with_def)

lemma advancesD:
  "advances_with K P w w' \<Longrightarrow> world_ok w \<Longrightarrow> interleaved P w \<Longrightarrow>
     world_ok w' \<and> interleaved P w' \<and> (commit_step (P \<union> K))\<^sup>*\<^sup>* (db w) (db w')"
  unfolding advances_with_def by (meson evolves_world_ok)

lemmas advances_onlyD = advancesD [where K = "{}", unfolded Un_empty_right]

lemma others_transact_quiet [simp]: "others_transact P quiet_turn"
  by (auto simp: others_transact_def quiet_turn_def)

lemma interleaved_next: "interleaved P w \<Longrightarrow> others_transact P (next_turn w)"
  by (auto simp: interleaved_def next_turn_def split: list.split)

lemma interleaved_tl: "interleaved P w \<Longrightarrow> turns w' = tl (turns w) \<Longrightarrow> interleaved P w'"
  by (auto simp: interleaved_def dest: in_set_tl)

lemma interleaved_fields [simp]:
  "interleaved P (w\<lparr>db := d\<rparr>) = interleaved P w" "interleaved P (w\<lparr>seqs := sq\<rparr>) = interleaved P w"
  by (simp_all add: interleaved_def)

lemma advances_arrive: "advances P w (arrive w)"
proof -
  have "interleaved P (arrive w) \<and> (commit_step P)\<^sup>*\<^sup>* (db w) (db (arrive w))" if "world_ok w" "interleaved P w"
  proof -
    obtain d sq where o: "others (next_turn w) (db w, seqs w) = (d, sq)" by (metis surj_pair)
    with interleaved_next [OF that(2)] that(1) have "(commit_step P)\<^sup>*\<^sup>* (db w) d"
      by (auto simp: others_transact_def world_ok_def)
    moreover have "db (arrive w) = d" by (simp add: arrive_def o)
    ultimately show ?thesis using interleaved_tl [OF that(2), of "arrive w"] by simp
  qed
  with evolves_arrive show ?thesis by (simp add: advances_def)
qed

section \<open>Single statements\<close>

text \<open>
  The contract of a statement that runs on its own: on a valid database it is a transaction of one
  actor, unless the constraints refuse it.
\<close>

locale transacting = statement st for st :: "'a stmt" +
  fixes actor :: actor and K :: "int64 set"
  assumes transacts: "st now d sq = (Inr v, eff, sq') \<Longrightarrow> db_ok d \<Longrightarrow> db_ok (eff d) \<Longrightarrow> transaction actor d (eff d)"
    and publishes: "actor = Publisher \<Longrightarrow> st now d sq = (Inr v, eff, sq') \<Longrightarrow> publishes_only K d (eff d)"
begin

lemma publishes_K: "st now d sq = (Inr v, eff, sq') \<Longrightarrow> db_ok d \<Longrightarrow> db_ok (eff d) \<Longrightarrow> publishes_only K d (eff d)"
  using publishes transacts transaction_publishes_only by (cases "actor = Publisher") blast+

lemma exec_auto_advances:
  assumes e: "exec_auto st w = (r, w')"
  shows "advances_with K P w w'"
proof -
  let ?u = "arrive w"
  note u = advances_arrive [of P w]
  have ev: "evolves w w'" using exec_auto_evolves [OF e] .
  have "interleaved P w' \<and> (commit_step (P \<union> K))\<^sup>*\<^sup>* (db w) (db w')" if ok: "world_ok w" "interleaved P w"
  proof -
    from advancesD [OF advances_mono [OF u, of K] ok] have uok: "db_ok (db ?u)" "interleaved P ?u" "(commit_step (P \<union> K))\<^sup>*\<^sup>* (db w) (db ?u)"
      by (simp_all add: world_ok_def)
    have ok': "db_ok (db w')" using evolves_world_ok [OF ev ok(1)] by (simp add: world_ok_def)
    obtain r1 eff sq where run: "st (clock (next_turn w)) (db ?u) (seqs ?u) = (r1, eff, sq)" by (metis prod_cases3)
    have "interleaved P w'" and cases: "db w' = db ?u \<or> is_ok r1 \<and> db w' = eff (db ?u)"
      using e uok(2) by (auto simp: exec_auto_def Let_def run_stmt_def run split: if_splits sum.splits)
    from cases have "db w' = db ?u \<or> commit_step (P \<union> K) (db ?u) (db w')"
    proof
      assume "is_ok r1 \<and> db w' = eff (db ?u)"
      then obtain v where v: "r1 = Inr v" "db w' = eff (db ?u)" by (auto simp: is_ok_iff)
      with transacts [OF run [unfolded v(1)] uok(1)] publishes_K [OF run [unfolded v(1)] uok(1)] ok'
      show ?thesis by (auto simp: commit_step_def intro: publishes_only_mono)
    qed simp
    with uok(3) have "(commit_step (P \<union> K))\<^sup>*\<^sup>* (db w) (db w')" by (auto intro: rtranclp.rtrancl_into_rtrancl)
    with \<open>interleaved P w'\<close> show ?thesis ..
  qed
  with ev show ?thesis by (simp add: advances_with_def)
qed

end

text \<open>A statement that only reads.\<close>

lemma transacting_read:
  assumes "statement st" and "\<And>now d sq v eff sq'. st now d sq = (Inr v, eff, sq') \<Longrightarrow> eff = id"
  shows "transacting st a K"
proof (intro transacting.intro transacting_axioms.intro assms(1))
  show "transaction a d (eff d)" if "st now d sq = (Inr v, eff, sq')" for now d sq v eff sq'
    using assms(2) [OF that] by (simp add: transaction.nothing)
  show "publishes_only K d (eff d)" if "st now d sq = (Inr v, eff, sq')" for now d sq v eff sq'
    using assms(2) [OF that] by simp
qed

interpretation probe: transacting probe_stmt Api "{}"
  by (rule transacting_read [OF probe.statement_axioms]) (simp add: probe_stmt_def)

interpretation list_items: transacting list_items_stmt Api "{}"
  by (rule transacting_read [OF list_items.statement_axioms]) (simp add: list_items_stmt_def)

interpretation api_select_job: transacting "api_select_job_stmt j" Api "{}" for j
  by (rule transacting_read [OF api_select_job.statement_axioms]) (simp add: api_select_job_stmt_def)

interpretation select_job: transacting "select_job_stmt j" Worker "{}" for j
  by (rule transacting_read [OF select_job.statement_axioms]) (simp add: select_job_stmt_def)

interpretation create_item: transacting "create_item_stmt t" Api "{}" for t
proof
  fix now d sq v eff sq'
  assume st: "create_item_stmt t now d sq = (Inr v, eff, sq')" and ok: "db_ok (eff d)"
  from st obtain row where row: "eff d = d\<lparr>work_items := insert_row row (work_items d)\<rparr>" "wi_status row = Pending"
    by (auto simp: create_item_stmt_def Let_def split: if_splits)
  with ok have "wi_id row \<notin> wi_id ` set (work_items d)" by (simp add: db_ok_def constraint_defs)
  with row show "transaction Api d (eff d)" by (simp add: transaction.new_item)
qed simp

interpretation begin_attempt: transacting "begin_attempt_stmt locked" Publisher "{}" for locked
  by unfold_locales
     (auto simp: begin_attempt_stmt_def publisher_row_continues split: option.splits
        intro!: transaction.publication outbox_moves_update publishes_only_update)

interpretation mark_published: transacting "mark_published_stmt k" Publisher "{k}" for k
  by unfold_locales
     (auto simp: mark_published_stmt_def publisher_row_continues unpublished_message_def
        intro!: transaction.publication outbox_moves_update publishes_only_update)

interpretation publish_failure: transacting "publish_failure_stmt k c" Publisher "{}" for k c
  by unfold_locales
     (auto simp: publish_failure_stmt_def publisher_row_continues
        intro!: transaction.publication outbox_moves_update publishes_only_update)

interpretation record_failure: transacting "record_failure_stmt j i c workerProcessingMaxAttempts" Worker "{}" for j i c
  by unfold_locales
     (auto simp: record_failure_stmt_def transaction.failed_attempt [unfolded with_failed_attempt_def])

section \<open>Operations of single statements\<close>

lemma probe_all_advances: "probe_all n w = (r, w') \<Longrightarrow> advances P w w'"
  by (induction n arbitrary: w)
     (auto split: prod.splits sum.splits if_splits dest: probe.exec_auto_advances intro: advances_trans)

lemma Ready_advances: "Ready w = (r, w') \<Longrightarrow> advances P w w'"
  by (simp add: Ready_def probe_all_advances)

lemma create_work_item_advances: "create_work_item t st w = (r, w') \<Longrightarrow> advances P w w'"
  by (auto simp: create_work_item_def split: prod.splits sum.splits if_splits
           dest: create_item.exec_auto_advances)

lemma list_work_items_advances: "list_work_items w = (r, w') \<Longrightarrow> advances P w w'"
  by (auto simp: list_work_items_def split: prod.splits sum.splits dest: list_items.exec_auto_advances)

lemma api_get_processing_job_advances: "api_get_processing_job j w = (r, w') \<Longrightarrow> advances P w w'"
  by (auto simp: api_get_processing_job_def split: prod.splits sum.splits if_splits
           dest: api_select_job.exec_auto_advances)

lemma begin_outbox_publish_attempt_advances:
  "begin_outbox_publish_attempt jt locked w = (r, w') \<Longrightarrow> advances P w w'"
  by (auto simp: begin_outbox_publish_attempt_def split: prod.splits sum.splits if_splits
           dest: begin_attempt.exec_auto_advances)

lemma mark_outbox_published_advances: "mark_outbox_published k w = (r, w') \<Longrightarrow> advances_with {k} P w w'"
  by (auto simp: mark_outbox_published_def split: prod.splits sum.splits if_splits
           dest: mark_published.exec_auto_advances)

lemma record_outbox_publish_failure_advances:
  "record_outbox_publish_failure k c w = (r, w') \<Longrightarrow> advances P w w'"
  by (auto simp: record_outbox_publish_failure_def split: prod.splits sum.splits if_splits
           dest: publish_failure.exec_auto_advances)

lemma get_processing_job_advances: "get_processing_job exec_auto j i w = (r, w') \<Longrightarrow> advances P w w'"
  by (auto simp: get_processing_job_def Let_def split: prod.splits sum.splits if_splits
           dest: select_job.exec_auto_advances)

lemma record_processing_failure_advances:
  "record_processing_failure j i c workerProcessingMaxAttempts w = (r, w') \<Longrightarrow> advances P w w'"
  by (auto simp: record_processing_failure_def Let_def split: prod.splits sum.splits if_splits
           dest!: select_job.exec_auto_advances record_failure.exec_auto_advances
           intro: advances_trans)

section \<open>Transactions\<close>

text \<open>An open transaction's calls show the others nothing; the committed tables move by the others' commits.\<close>

definition tx_advances :: "int64 set \<Rightarrow> tx \<Rightarrow> tx \<Rightarrow> bool" where
  "tx_advances P x x' = (tx_evolves x x' \<and> (tx_ok x \<longrightarrow> advances P (tx_world x) (tx_world x')))"

lemma tx_advances_refl [simp]: "tx_advances P x x"
  by (simp add: tx_advances_def)

lemma tx_advances_trans [trans]: "tx_advances P a b \<Longrightarrow> tx_advances P b c \<Longrightarrow> tx_advances P a c"
  unfolding tx_advances_def tx_evolves_def by (meson evolves_trans advances_trans)

lemma tx_advancesD: "tx_advances P x x' \<Longrightarrow> tx_ok x \<Longrightarrow> tx_ok x' \<and> advances P (tx_world x) (tx_world x')"
  by (simp add: tx_advances_def tx_evolves_def)

lemma begin_tx_advances: "begin_tx w = (r, x) \<Longrightarrow> advances P w (tx_world x)"
  using advances_arrive by (auto simp: begin_tx_def)

lemma tx_arrive_advances: "tx_advances P x (tx_arrive x)"
proof -
  let ?w = "tx_world x" and ?w' = "tx_world (tx_arrive x)"
  have "advances P ?w ?w'" if "tx_ok x"
  proof -
    have "evolves ?w ?w'" using tx_arrive_evolves [of x] that by (simp add: tx_evolves_def)
    moreover have "interleaved P ?w' \<and> (commit_step P)\<^sup>*\<^sup>* (db ?w) (db ?w')" if "world_ok ?w" "interleaved P ?w"
      using advances_onlyD [OF advances_arrive that] by (simp add: tx_arrive_def Let_def)
    ultimately show ?thesis by (simp add: advances_def)
  qed
  with tx_arrive_evolves show ?thesis by (simp add: tx_advances_def)
qed

context statement
begin

lemma exec_tx_advances:
  assumes e: "exec_tx st x = (r, x')"
  shows "tx_advances P x x'"
proof -
  let ?u = "tx_arrive x"
  have ev: "tx_evolves x x'" using exec_tx_evolves [OF e] .
  have "advances P (tx_world x) (tx_world x')" if ok: "tx_ok x"
  proof -
    note u = tx_advancesD [where P = P, OF tx_arrive_advances ok]
    have w: "evolves (tx_world x) (tx_world x')" using ev ok by (simp add: tx_evolves_def)
    have x': "db (tx_world x') = db (tx_world ?u)" "turns (tx_world x') = turns (tx_world ?u)"
      using e by (auto simp: exec_tx_def Let_def split: if_splits prod.splits)
    have "interleaved P (tx_world x') \<and> (commit_step P)\<^sup>*\<^sup>* (db (tx_world x)) (db (tx_world x'))"
      if "world_ok (tx_world x)" "interleaved P (tx_world x)"
      using advances_onlyD [OF conjunct2 [OF u] that] x' by (simp add: interleaved_def)
    with w show ?thesis by (simp add: advances_def)
  qed
  with ev show ?thesis by (simp add: tx_advances_def)
qed

end

text \<open>COMMIT: the others' commits until it, then this transaction as one.\<close>

lemma commit_tx_advances:
  assumes c: "commit_tx x = (r, w')" and ok: "tx_ok x"
    and own: "db_ok (db (tx_world (tx_arrive x))) \<Longrightarrow> db_ok (tx_view (tx_arrive x)) \<Longrightarrow>
      transaction a (db (tx_world (tx_arrive x))) (tx_view (tx_arrive x))" and "a \<noteq> Publisher"
  shows "advances P (tx_world x) w'"
proof -
  let ?u = "tx_arrive x"
  note u = tx_advancesD [where P = P, OF tx_arrive_advances ok]
  have ev: "evolves (tx_world x) w'" by (rule commit_tx_evolves [OF c ok])
  have "interleaved P w' \<and> (commit_step P)\<^sup>*\<^sup>* (db (tx_world x)) (db w')"
    if w: "world_ok (tx_world x)" "interleaved P (tx_world x)"
  proof -
    note uw = advances_onlyD [OF conjunct2 [OF u] w]
    have ok': "db_ok (db w')" using evolves_world_ok [OF ev w(1)] by (simp add: world_ok_def)
    have cases: "w' = tx_world ?u \<or> w' = (tx_world ?u)\<lparr>db := tx_view ?u\<rparr>"
      using c by (auto simp: commit_tx_def Let_def split: if_splits)
    then have "interleaved P w'" using uw by auto
    moreover from cases have "(commit_step P)\<^sup>*\<^sup>* (db (tx_world ?u)) (db w')"
    proof
      assume "w' = (tx_world ?u)\<lparr>db := tx_view ?u\<rparr>"
      with own ok' uw transaction_publishes_only [OF _ assms(4)] have "commit_step P (db (tx_world ?u)) (db w')"
        by (auto simp: commit_step_def world_ok_def)
      then show ?thesis by simp
    qed simp
    ultimately show ?thesis using uw by (meson rtranclp_trans)
  qed
  with ev show ?thesis by (simp add: advances_def)
qed

section \<open>Acceptance\<close>

lemma insert_acceptance_advances:
  assumes run: "insert_acceptance i x = (r, w')" and ok: "tx_ok x" and none: "tx_writes x = id"
  shows "advances P (tx_world x) w'"
proof -
  obtain r1 x1 where e1: "exec_tx (insert_job_stmt i) x = (r1, x1)" by (metis surj_pair)
  note s1 = tx_advancesD [where P = P, OF insert_job.exec_tx_advances [OF e1] ok]
  show ?thesis
  proof (cases r1)
    case (Inl e)
    with run e1 s1 show ?thesis by (auto simp: insert_acceptance_def rollback_tx_def split: if_splits)
  next
    case r1: (Inr row)
    obtain j where row: "row = new_job_row j i (tx_start x)" and w1: "tx_writes x1 = with_new_job j i (tx_start x)"
      and st1: "tx_start x1 = tx_start x"
      using exec_tx_Inr [OF e1 [unfolded r1]] none by (auto dest: insert_job_stmt_Inr)
    have ids: "jb_ID (scan_processing_job row) = j" "jb_WorkItemID (scan_processing_job row) = i"
      by (simp_all add: row scan_processing_job_def new_job_row_def)
    obtain r2 x2 where e2: "exec_tx (insert_outbox_stmt j i) x1 = (r2, x2)" by (metis surj_pair)
    note s2 = tx_advancesD [where P = P, OF insert_outbox.exec_tx_advances [OF e2] conjunct1 [OF s1]]
    show ?thesis
    proof (cases r2)
      case (Inl e)
      with run e1 r1 e2 ids s1 s2 show ?thesis
        by (auto simp: insert_acceptance_def rollback_tx_def Let_def intro: advances_trans)
    next
      case r2: (Inr u)
      obtain m where w2: "tx_writes x2 = with_new_message m j i (tx_start x) \<circ> with_new_job j i (tx_start x)"
        using exec_tx_Inr [OF e2 [unfolded r2]] by (auto simp: w1 st1 dest: insert_outbox_stmt_Inr)
      then have view: "tx_view (tx_arrive x2) = with_acceptance m j i (tx_start x) (db (tx_world (tx_arrive x2)))"
        using tx_arrive_locks [of x2] by (simp add: tx_view_def with_acceptance_def)
      obtain r3 w3 where c: "commit_tx x2 = (r3, w3)" by (metis surj_pair)
      have "advances P (tx_world x2) w3"
        by (rule commit_tx_advances [OF c conjunct1 [OF s2], where a = Api])
           (simp_all add: view accepted_database_acceptable transaction.acceptance)
      moreover have "w' = w3" using run e1 r1 e2 r2 c ids
        by (auto simp: insert_acceptance_def Let_def split: sum.splits)
      ultimately show ?thesis using s1 s2 by (meson advances_trans)
    qed
  qed
qed

lemma accept_processing_job_advances:
  assumes run: "accept_processing_job i w = (r, w')"
  shows "advances P w w'"
proof (cases "world_ok w")
  case False
  with accept_processing_job_evolves [OF run] show ?thesis by (simp add: advances_def)
next
  case True
  obtain r0 x0 where b: "begin_tx w = (r0, x0)" by (metis surj_pair)
  note ok0 = begin_tx_ok(1) [OF b True] and a0 = begin_tx_advances [where P = P, OF b]
  obtain r1 x1 where e1: "exec_tx (ItemLockSQL i) x0 = (r1, x1)" by (metis surj_pair)
  note s1 = tx_advancesD [where P = P, OF item_lock.exec_tx_advances [OF e1] ok0]
  obtain r2 x2 where e2: "exec_tx (select_status_stmt i) x1 = (r2, x2)" by (metis surj_pair)
  note s2 = tx_advancesD [where P = P, OF select_status.exec_tx_advances [OF e2] conjunct1 [OF s1]]
  obtain r3 x3 where e3: "exec_tx (select_active_stmt i) x2 = (r3, x3)" by (metis surj_pair)
  note s3 = tx_advancesD [where P = P, OF select_active.exec_tx_advances [OF e3] conjunct1 [OF s2]]
  have "tx_writes x0 = id" using b by (auto simp: begin_tx_def)
  then have "tx_writes x1 = id" by (rule exec_tx_reads [OF e1]) (simp add: ItemLockSQL_def)
  then have "tx_writes x2 = id" by (rule exec_tx_reads [OF e2]) (simp add: select_status_stmt_def)
  then have w3: "tx_writes x3 = id" by (rule exec_tx_reads [OF e3]) (simp add: select_active_stmt_def)
  have "advances P (tx_world x0) w'"
    using run b e1 e2 e3 s1 s2 s3 insert_acceptance_advances [OF _ _ w3, of i r w']
    by (auto simp: accept_processing_job_def rollback_tx_def split: sum.splits if_splits intro: advances_trans)
  with a0 show ?thesis by (rule advances_trans)
qed

section \<open>Completion\<close>

text \<open>
  When COMMIT comes, the item is still pending and the job still open in the committed tables, because
  the transaction holds both rows; and the title is the one it analysed, because titles never change.
\<close>

lemma finished_item_locked:
  assumes ok: "tx_ok x" and e: "exec_tx (finish_item_stmt i) x = (Inr 1, x')"
    and writes: "\<And>d. work_items (tx_writes x d) = work_items d"
  shows "\<exists>r. row_at wi_id (work_items (db (tx_world x'))) i = Some r \<and> wi_status r = Pending"
    and "work_items (tx_writes x' d) = update_where (pending_item i) (wi_status_update (\<lambda>_. Done)) (work_items d)"
proof -
  let ?u = "tx_arrive x"
  have "tx_ok ?u" using tx_advancesD [where P = UNIV, OF tx_arrive_advances ok] by blast
  then have uk: "unique_key wi_id (work_items (tx_view ?u))" by (simp add: tx_ok_def constraint_defs)
  have view: "work_items (tx_view ?u) = work_items (db (tx_world ?u))"
    using tx_arrive_locks [of x] by (simp add: tx_view_def writes)
  from exec_tx_Inr [OF e] have rows: "rows_affected (pending_item i) (work_items (tx_view ?u)) = 1"
    and w: "tx_writes x' = with_done_item i \<circ> tx_writes x" and d: "db (tx_world x') = db (tx_world ?u)"
    by (auto simp: finish_item_stmt_def with_done_item_def [abs_def])
  from rows have "filter (pending_item i) (work_items (tx_view ?u)) \<noteq> []" by (auto simp: rows_affected_def)
  then obtain r where r: "r \<in> set (work_items (tx_view ?u))" "pending_item i r" by (auto simp: filter_empty_conv)
  then show "\<exists>r. row_at wi_id (work_items (db (tx_world x'))) i = Some r \<and> wi_status r = Pending"
    using row_at_unique [OF uk r(1)] by (auto simp: d view pending_item_def)
  show "work_items (tx_writes x' d) = update_where (pending_item i) (wi_status_update (\<lambda>_. Done)) (work_items d)"
    by (simp add: w with_done_item_def writes)
qed

lemma held_item:
  assumes "\<And>d. work_items (tx_writes x d) = update_where (pending_item i) (wi_status_update (\<lambda>_. Done)) (work_items d)"
    and at: "row_at wi_id (work_items (db (tx_world x))) i = Some r" and pending: "wi_status r = Pending"
  shows "row_at wi_id (work_items (db (tx_world (tx_arrive x)))) i = Some r"
proof -
  have id: "wi_id r = i" using row_at_Some_in [OF at] by simp
  then have own: "row_at wi_id (work_items (tx_writes x (db (tx_world x)))) i = Some (r\<lparr>wi_status := Done\<rparr>)"
    using at pending by (simp add: assms(1) done_update.row_at_update pending_item_def)
  have "r \<noteq> r\<lparr>wi_status := Done\<rparr>"
    using pending by (auto simp: Pending_def Done_def dest: arg_cong [of _ _ wi_status])
  with tx_arrive_locks [of x] unchanged_rowsD [OF _ own] at show ?thesis by (auto simp: respects_locks_def)
qed

text \<open>So the commit is the completion, on the tables of that moment.\<close>

lemma completion_commits:
  assumes ok: "tx_ok x0" and none: "tx_writes x0 = id"
    and e1: "exec_tx (select_item_stmt i) x0 = (Inr item, x1)"
    and e2: "exec_tx (insert_result_stmt i j (wi_title item) cs ws) x1 = (Inr (), x2)"
    and a: "analyze_title (wi_title item) = (cs, ws)"
    and e3: "exec_tx (finish_item_stmt i) x2 = (Inr 1, x3)"
    and e4: "exec_tx (succeed_job_stmt j i) x3 = (Inr row, x4)"
  shows "transaction Worker (db (tx_world (tx_arrive x4))) (tx_view (tx_arrive x4))"
proof -
  note k1 = tx_advancesD [where P = UNIV, OF select_item.exec_tx_advances [OF e1] ok]
  note k2 = tx_advancesD [where P = UNIV, OF insert_result.exec_tx_advances [OF e2] conjunct1 [OF k1]]
  note k3 = tx_advancesD [where P = UNIV, OF finish_item.exec_tx_advances [OF e3] conjunct1 [OF k2]]
  note k4 = tx_advancesD [where P = UNIV, OF succeed_job.exec_tx_advances [OF e4] conjunct1 [OF k3]]
  note k5 = tx_advancesD [where P = UNIV, OF tx_arrive_advances conjunct1 [OF k4]]
  let ?t = "wi_title item" and ?d = "db (tx_world (tx_arrive x4))"
  have w1: "tx_writes x1 = id" by (rule exec_tx_reads [OF e1 none]) (simp add: select_item_stmt_def)
  have w2: "tx_writes x2 = with_result j i ?t"
    using exec_tx_Inr [OF e2] w1
    by (auto simp: insert_result_stmt_def with_result_def [abs_def] result_row_for_def a)
  then have items2: "work_items (tx_writes x2 d) = work_items d" for d by (simp add: with_result_def)
  note held3 = finished_item_locked [OF conjunct1 [OF k2] e3 items2]
  have w3: "tx_writes x3 = with_done_item i \<circ> tx_writes x2"
    using exec_tx_Inr [OF e3] by (auto simp: finish_item_stmt_def with_done_item_def [abs_def])
  then have jobs3: "processing_jobs (tx_writes x3 d) = processing_jobs d" for d
    by (simp add: w2 with_done_item_def with_result_def)
  note s4 = succeeded_job_open [OF conjunct1 [OF k3] e4 jobs3]
  have items4: "work_items (tx_writes x4 d) = update_where (pending_item i) (wi_status_update (\<lambda>_. Done)) (work_items d)" for d
    using held3(2) by (simp add: s4(2) with_succeeded_job_def)
  have jobs4: "processing_jobs (tx_writes x4 d) = update_where (open_job j i) (succeed_row (tx_start x3)) (processing_jobs d)" for d
    by (simp add: s4(2) with_succeeded_job_def jobs3)
  from held3(1) obtain r where r: "row_at wi_id (work_items (db (tx_world x3))) i = Some r" "wi_status r = Pending" by blast
  from held_item [OF held3(2) r] have "row_at wi_id (work_items (db (tx_world x4))) i = Some r" by (simp add: s4(3))
  from held_item [OF items4 this r(2)] have item5: "row_at wi_id (work_items ?d) i = Some r" .
  from s4(1) obtain q where q: "row_at pj_id (processing_jobs (db (tx_world x4))) j = Some q" "open_job j i q" by blast
  from held_job [OF jobs4 q] have job5: "row_at pj_id (processing_jobs ?d) j = Some q" .
  have read: "row_at wi_id (work_items (db (tx_world x1))) i = Some item"
    using exec_tx_Inr [OF e1] none tx_arrive_locks [of x0]
    by (auto simp: select_item_stmt_def query_row_by_key tx_view_def split: option.splits)
  have "advances UNIV (tx_world x1) (tx_world (tx_arrive x4))" using k2 k3 k4 k5 by (meson advances_trans)
  moreover have "world_ok (tx_world x1)" using k1 by (simp add: tx_ok_def)
  ultimately have "continues (db (tx_world x1)) ?d" by (blast dest: advances_evolves evolves_continues)
  from continues_rowD(1) [OF this read] item5 have title: "wi_title r = ?t" by (auto simp: item_continues_def)
  have "tx_view (tx_arrive x4) = completed j i (wi_title r) (tx_start x3) ?d"
    using tx_arrive_locks [of x4] by (simp add: tx_view_def s4(2) w3 w2 title completed_def)
  with item5 r(2) job5 q(2) show ?thesis by (auto simp: open_job_def intro: transaction.completion)
qed

lemma complete_pending_item_advances:
  assumes run: "complete_pending_item j i x0 = (r, w')" and ok: "tx_ok x0" and none: "tx_writes x0 = id"
  shows "advances P (tx_world x0) w'"
proof -
  obtain r1 x1 where e1: "exec_tx (select_item_stmt i) x0 = (r1, x1)" by (metis surj_pair)
  note k1 = tx_advancesD [where P = P, OF select_item.exec_tx_advances [OF e1] ok]
  show ?thesis
  proof (cases r1)
    case (Inl e)
    with run e1 k1 show ?thesis by (auto simp: complete_pending_item_def rollback_tx_def)
  next
    case r1: (Inr item)
    obtain cs ws where a: "analyze_title (wi_title item) = (cs, ws)" by (metis surj_pair)
    obtain r2 x2 where e2: "exec_tx (insert_result_stmt i j (wi_title item) cs ws) x1 = (r2, x2)" by (metis surj_pair)
    note k2 = tx_advancesD [where P = P, OF insert_result.exec_tx_advances [OF e2] conjunct1 [OF k1]]
    obtain r3 x3 where e3: "exec_tx (finish_item_stmt i) x2 = (r3, x3)" by (metis surj_pair)
    note k3 = tx_advancesD [where P = P, OF finish_item.exec_tx_advances [OF e3] conjunct1 [OF k2]]
    obtain r4 x4 where e4: "exec_tx (succeed_job_stmt j i) x3 = (r4, x4)" by (metis surj_pair)
    note k4 = tx_advancesD [where P = P, OF succeed_job.exec_tx_advances [OF e4] conjunct1 [OF k3]]
    obtain r5 w5 where c: "commit_tx x4 = (r5, w5)" by (metis surj_pair)
    have a1: "advances P (tx_world x0) (tx_world x1)" and a2: "advances P (tx_world x0) (tx_world x2)"
      and a3: "advances P (tx_world x0) (tx_world x3)" and a4: "advances P (tx_world x0) (tx_world x4)"
      using k1 k2 k3 k4 by (meson advances_trans)+
    show ?thesis
    proof (cases "wi_status item = Pending \<and> r2 = Inr () \<and> r3 = Inr 1 \<and> is_ok r4")
      case False
      with run e1 r1 a e2 e3 e4 a1 a2 a3 a4 show ?thesis
        by (cases r2; cases r3; cases r4) (auto simp: complete_pending_item_def rollback_tx_def split: if_splits)
    next
      case True
      then obtain row where r: "r2 = Inr ()" "r3 = Inr 1" "r4 = Inr row" by (auto simp: is_ok_iff)
      note t = completion_commits [OF ok none e1 [unfolded r1] e2 [unfolded r(1)] a e3 [unfolded r(2)] e4 [unfolded r(3)]]
      have "advances P (tx_world x4) w5" by (rule commit_tx_advances [OF c conjunct1 [OF k4] t]) simp
      moreover have "w' = w5" using run e1 r1 a e2 e3 e4 c r True
        by (auto simp: complete_pending_item_def split: sum.splits)
      ultimately show ?thesis using a4 by (meson advances_trans)
    qed
  qed
qed

lemma complete_processing_job_advances:
  assumes run: "complete_processing_job j i w = (r, w')"
  shows "advances P w w'"
proof (cases "world_ok w")
  case False
  with complete_processing_job_evolves [OF run] show ?thesis by (simp add: advances_def)
next
  case True
  obtain r0 x0 where b: "begin_tx w = (r0, x0)" by (metis surj_pair)
  note ok0 = begin_tx_ok(1) [OF b True] and a0 = begin_tx_advances [where P = P, OF b]
  obtain r1 x1 where e1: "exec_tx (ItemLockSQL i) x0 = (r1, x1)" by (metis surj_pair)
  note s1 = tx_advancesD [where P = P, OF item_lock.exec_tx_advances [OF e1] ok0]
  obtain r2 x2 where g: "exec_tx (select_job_stmt j) x1 = (r2, x2)" by (metis surj_pair)
  note s2 = tx_advancesD [where P = P, OF select_job.exec_tx_advances [OF g] conjunct1 [OF s1]]
  have "tx_writes x0 = id" using b by (auto simp: begin_tx_def)
  then have "tx_writes x1 = id" by (rule exec_tx_reads [OF e1]) (simp add: ItemLockSQL_def)
  then have w2: "tx_writes x2 = id" by (rule exec_tx_reads [OF g]) (simp add: select_job_stmt_def)
  have e2: "\<exists>q. get_processing_job exec_tx j i x1 = (q, x2)"
    using g by (auto simp: get_processing_job_def Let_def split: sum.splits)
  have "advances P (tx_world x0) w'"
    using run b e1 e2 s1 s2 complete_pending_item_advances [OF _ _ w2, of j i r w']
    by (auto simp: complete_processing_job_def rollback_tx_def split: sum.splits if_splits intro: advances_trans)
  with a0 show ?thesis by (rule advances_trans)
qed

end
