(* ===== verification/InterleavedRuns.thy ===== *)
theory InterleavedRuns
  imports Interleaving
begin

text \<open>
  Requests, runs of the outbox publisher and runs of the worker among other sessions that run the
  programs too: what one session relies on is what the others guarantee, so the life of an item is kept
  whatever the interleaving.
\<close>

section \<open>Requests, publisher runs, worker runs\<close>

lemma handlers_advance: "(pattern, handle) \<in> business_handlers \<Longrightarrow> handle r w = (resp, w') \<Longrightarrow> advances P w w'"
  by (erule business_handlers_cases)
     (auto simp: create_item_handler_def list_items_handler_def get_job_handler_def
      process_item_handler_def postgres_store_def write_error_def write_json_def Let_def
      split: option.splits if_splits prod.splits sum.splits
      dest: create_work_item_advances list_work_items_advances api_get_processing_job_advances
        accept_processing_job_advances)

text \<open>The publisher's contract over worlds later than the first: it publishes what it marks, and no more.\<close>

interpretation pg_outbox_from: outbox_contract "postgres_outbox_store jt locked" "\<lambda>K. advances_with K P w0" for jt locked P w0
proof
  fix K s s'
  show "advances_with K P w0 s'" if "advances_with K P w0 s"
      "BeginOutboxPublishAttempt (postgres_outbox_store jt locked) s = (r, s')" for r
    using that advances_mono [OF begin_outbox_publish_attempt_advances, of jt _ s r s' K P]
    by (auto simp: postgres_outbox_store_def intro: advances_trans)
  show "advances_with K P w0 s'" if "advances_with K P w0 s"
      "RecordOutboxPublishFailure (postgres_outbox_store jt locked) k code s = (e, s')" for k code e
    using that advances_mono [OF record_outbox_publish_failure_advances, of k code s e s' K P]
    by (auto simp: postgres_outbox_store_def intro: advances_trans)
  show "advances_with (insert k K) P w0 s'" if "advances_with K P w0 s"
      "MarkOutboxPublished (postgres_outbox_store jt locked) k s = (e, s')" for k e
    using that advances_mono [of K P w0 s "insert k K"]
      advances_mono [OF mark_outbox_published_advances, of k s e s' "insert k K" P]
    by (auto simp: postgres_outbox_store_def intro: advances_trans)
qed

text \<open>The worker's, with any processor that leaves the database alone.\<close>

interpretation pg_completer_from: completer postgres_worker_store "judged verdict" "advances P w0" "\<lambda>_ _ _. True"
  for verdict P w0
  by unfold_locales
     (auto simp: postgres_worker_store_def judged_def intro: advances_trans get_processing_job_advances
        complete_processing_job_advances record_processing_failure_advances)

interpretation pg_worker_from: worker_completer postgres_worker_store "advances P w0" "\<lambda>_ _ _. True" for P w0
  unfolding worker_completer_def successful_is_judged by (rule pg_completer_from.completer_axioms)

lemma worker_process_advances:
  assumes run: "run_worker_process config (new_postgres_worker_store parse_config new_pool)
      (\<lambda>e. new_rabbitmq_worker_session_with_dialer (dialer e)) ts w = (out, events, w')"
  shows "advances P w w'"
proof (cases "new_postgres_worker_store parse_config new_pool (wc_DatabaseURL config)")
  case (Inl e)
  with run show ?thesis by (simp add: process_without_store)
next
  case (Inr store)
  then have "run_worker_process config (\<lambda>url. Inr postgres_worker_store)
      (\<lambda>e. new_rabbitmq_worker_session_with_dialer (dialer e)) ts w = (out, events, w')"
    using run unfolding process_with_store [where new_store = "new_postgres_worker_store parse_config new_pool", OF Inr]
      new_postgres_store [OF Inr] by simp
  from pg_worker_from.acks.process_holds [OF this, of P w] show ?thesis by simp
qed

text \<open>
  What a session of the programs can run: a business request, the readiness check, the publisher's loop,
  a worker process. A dialer per session of the worker is the session's environment. A run ends in a world;
  the broker has confirmed messages to it, and has been told of payloads that their copies may go.
\<close>

record run_result =
  run_confirmed :: "int64 set"
  run_dismissed :: "bytes set"
  run_world :: world

definition dismissed :: "worker_event list \<Rightarrow> bytes set" where
  "dismissed events = {p. \<exists>c. Settled p c \<in> set events \<and> dismisses c}"

inductive program :: "(json \<Rightarrow> bytes) \<Rightarrow> (world \<Rightarrow> run_result) \<Rightarrow> bool" for jt where
  request: "(pattern, handle) \<in> business_handlers \<Longrightarrow>
     program jt (\<lambda>w. \<lparr>run_confirmed = {}, run_dismissed = {}, run_world = snd (handle r w)\<rparr>)"
| readiness: "program jt (\<lambda>w. \<lparr>run_confirmed = {}, run_dismissed = {}, run_world = snd (Ready w)\<rparr>)"
| publisher: "program jt (\<lambda>w.
     case run_outbox_publisher (postgres_outbox_store jt locked) reconnect idle_poll store_retry ts opened w of
       (out, events, w') \<Rightarrow> \<lparr>run_confirmed = confirmed events, run_dismissed = {}, run_world = w'\<rparr>)"
| worker: "program jt (\<lambda>w.
     case run_worker_process config (new_postgres_worker_store (parse_config :: string \<Rightarrow> string result) (new_pool :: string \<Rightarrow> unit result))
       new_rabbitmq_worker_session_with_dialer ts w of
       (out, events, w') \<Rightarrow> \<lparr>run_confirmed = {}, run_dismissed = dismissed events, run_world = w'\<rparr>)"

lemma program_advances:
  assumes "program jt f"
  shows "advances_with (run_confirmed (f w)) P w (run_world (f w))"
  using assms
proof cases
  case (request pattern handle r)
  then show ?thesis using handlers_advance [of pattern handle r w _ _ P] by (cases "handle r w") simp
next
  case readiness
  then show ?thesis using Ready_advances by (cases "Ready w") simp
next
  case (publisher locked reconnect idle_poll store_retry ts opened)
  obtain out events w' where run: "run_outbox_publisher (postgres_outbox_store jt locked) reconnect idle_poll store_retry
      ts opened w = (out, events, w')" by (metis prod_cases3)
  from pg_outbox_from.run_within [OF run advances_refl, of "{}"] show ?thesis by (simp add: publisher run)
next
  case (worker config parse_config new_pool ts)
  obtain out events w' where run: "run_worker_process config (new_postgres_worker_store parse_config new_pool)
      new_rabbitmq_worker_session_with_dialer ts w = (out, events, w')" by (metis prod_cases3)
  from worker_process_advances [where dialer = "\<lambda>d. d", OF run] show ?thesis by (simp add: worker run)
qed

text \<open>Serving any request is one of them, or leaves the world alone.\<close>

lemma serve_is_program:
  assumes "new_application_handler app_version is_ready postgres_store protect = Some mux"
    and "configured_guard validate_token protect" and "serve mux r (v, w) = (resp, (v', w'))"
  shows "w' = w \<or> (\<exists>f. program jt f \<and> w' = run_world (f w))"
  using serve_cases [OF assms]
proof (elim disjE exE conjE)
  fix pattern handle x
  assume h: "(pattern, handle) \<in> business_handlers" "handle (r\<lparr>rq_id := x\<rparr>) w = (resp, w')"
  then show ?thesis using program.request [OF h(1), of jt "r\<lparr>rq_id := x\<rparr>"] by force
next
  assume "w' = snd (Ready w)"
  then show ?thesis using program.readiness [of jt] by force
qed simp

section \<open>The life of an item, among others\<close>

lemma commit_steps_ok: "(commit_step P)\<^sup>*\<^sup>* d d' \<Longrightarrow> db_ok d \<Longrightarrow> db_ok d'"
  by (induction rule: rtranclp_induct) (simp_all add: commit_step_def)

lemma commit_steps_phases:
  "(commit_step P)\<^sup>*\<^sup>* d d' \<Longrightarrow> db_ok d \<Longrightarrow> item_step\<^sup>*\<^sup>* (item_phase d i) (item_phase d' i)"
proof (induction rule: rtranclp_induct)
  case (step d1 d2)
  then obtain k where "one_item_moves d1 d2 k"
    using transaction_refines commit_steps_ok unfolding commit_step_def by blast
  with step.IH [OF step.prems] show ?case
    by (cases "i = k") (auto simp: one_item_moves_def intro: rtranclp.rtrancl_into_rtrancl)
qed simp

lemma commit_steps_attempts:
  "(commit_step P)\<^sup>*\<^sup>* d d' \<Longrightarrow> \<forall>q \<in> set (processing_jobs d). attempts_within q \<Longrightarrow>
     \<forall>q \<in> set (processing_jobs d'). attempts_within q"
  by (induction rule: rtranclp_induct) (use transaction_attempts in \<open>auto simp: commit_step_def\<close>)

section \<open>Sessions of the programs\<close>

text \<open>What a run of a program does to the database and the sequences, as another session sees it.\<close>

definition after_run :: "(world \<Rightarrow> run_result) \<Rightarrow> turn list \<Rightarrow> database \<times> sequences \<Rightarrow> database \<times> sequences" where
  "after_run f ts dsq =
     (let w' = run_world (f \<lparr>db = fst dsq, seqs = snd dsq, turns = ts\<rparr>) in (db w', seqs w'))"

text \<open>
  A turn in which the other sessions run the programs, the broker confirming to them messages of \<open>P\<close> only:
  nothing, any number of runs one after the other, each among such sessions itself, or, halfway through
  operations, anything that keeps the rely.
\<close>

inductive session_turn :: "(json \<Rightarrow> bytes) \<Rightarrow> int64 set \<Rightarrow> turn \<Rightarrow> bool" for jt P where
  halfway: "others_ok t \<Longrightarrow> others_transact P t \<Longrightarrow> session_turn jt P t"
| sequence: "session_turn jt P t \<Longrightarrow> session_turn jt P t' \<Longrightarrow> session_turn jt P (u\<lparr>others := others t' \<circ> others t\<rparr>)"
| run: "program jt f \<Longrightarrow> \<forall>u \<in> set ts. session_turn jt P u \<Longrightarrow>
     \<forall>d sq. run_confirmed (f \<lparr>db = d, seqs = sq, turns = ts\<rparr>) \<subseteq> P \<Longrightarrow>
     session_turn jt P (v\<lparr>others := after_run f ts\<rparr>)"

text \<open>What every program guarantees is what every program relies on.\<close>

lemma after_run_rely:
  assumes f: "program jt f" and "\<forall>u \<in> set ts. others_ok u \<and> others_transact P u"
    and "after_run f ts (d, sq) = (d', sq')" and "db_ok d" and "seqs_ok sq d"
    and P: "run_confirmed (f \<lparr>db = d, seqs = sq, turns = ts\<rparr>) \<subseteq> P"
  shows "db_ok d' \<and> seqs_ok sq' d' \<and> seqs_le sq sq' \<and> continues d d' \<and> (commit_step P)\<^sup>*\<^sup>* d d'"
proof -
  let ?w = "\<lparr>db = d, seqs = sq, turns = ts\<rparr>"
  have w: "world_ok ?w" "interleaved P ?w"
    using assms(2,4,5) by (auto simp: world_ok_def rely_def interleaved_def)
  have w': "db (run_world (f ?w)) = d'" "seqs (run_world (f ?w)) = sq'"
    using assms(3) by (simp_all add: after_run_def Let_def)
  note a = program_advances [OF f, of ?w P]
  have "evolves ?w (run_world (f ?w))" using a by (rule advances_evolves)
  with w(1) w' have "continues d d'" "seqs_le sq sq'" by (auto simp: evolves_def)
  with advancesD [OF a w] w' P show ?thesis by (auto simp: world_ok_def Un_absorb2)
qed

lemma session_turn_rely: "session_turn jt P t \<Longrightarrow> others_ok t \<and> others_transact P t"
proof (induction rule: session_turn.induct)
  case (sequence t t' u)
  have "db_ok d' \<and> seqs_ok sq' d' \<and> seqs_le sq sq' \<and> continues d d' \<and> (commit_step P)\<^sup>*\<^sup>* d d'"
    if o: "others t' (others t (d, sq)) = (d', sq')" and ok: "db_ok d" "seqs_ok sq d" for d sq d' sq'
  proof -
    obtain e r where e: "others t (d, sq) = (e, r)" by (metis surj_pair)
    with sequence.IH(1) ok have "db_ok e" "seqs_ok r e" "seqs_le sq r" "continues d e" "(commit_step P)\<^sup>*\<^sup>* d e"
      unfolding others_ok_def others_transact_def by blast+
    moreover from this(1,2) o sequence.IH(2) have "db_ok d'" "seqs_ok sq' d'" "seqs_le r sq'" "continues e d'" "(commit_step P)\<^sup>*\<^sup>* e d'"
      unfolding others_ok_def others_transact_def e by blast+
    ultimately show ?thesis by (meson seqs_le_trans continues_trans rtranclp_trans)
  qed
  then show ?case by (simp add: others_ok_def others_transact_def)
next
  case (run f ts v)
  have "db_ok d' \<and> seqs_ok sq' d' \<and> seqs_le sq sq' \<and> continues d d' \<and> (commit_step P)\<^sup>*\<^sup>* d d'"
    if "after_run f ts (d, sq) = (d', sq')" "db_ok d" "seqs_ok sq d" for d sq d' sq'
    using after_run_rely [OF run(1) _ that, of P] run(2,3) by blast
  then show ?case by (simp add: others_ok_def others_transact_def)
qed simp

lemma among_sessions:
  assumes "\<forall>t \<in> set (turns w). session_turn jt P t" and "db_ok (db w)" and "seqs_ok (seqs w) (db w)"
  shows "world_ok w" and "interleaved P w"
  using assms session_turn_rely by (auto simp: world_ok_def rely_def interleaved_def)

section \<open>Properties\<close>

text \<open>
  C5 (every commit is in the life cycle). A request, a run of the publisher or a run of a worker, among
  other sessions that run the programs and commit between any two of its calls, whichever calls fail:
  what it and they have committed meanwhile is a sequence of the programs' transactions, each leaving
  a valid database and publishing only messages that the broker confirmed; so every item has moved along
  the life cycle: created, accepted for one job, finished or reopened, never from finished.
\<close>

theorem interleaved_item_life:
  assumes "program jt f" and "\<forall>t \<in> set (turns w). session_turn jt P t"
    and "db_ok (db w)" and "seqs_ok (seqs w) (db w)"
  shows "db_ok (db (run_world (f w)))
    \<and> (commit_step (P \<union> run_confirmed (f w)))\<^sup>*\<^sup>* (db w) (db (run_world (f w)))
    \<and> (\<forall>i. item_step\<^sup>*\<^sup>* (item_phase (db w) i) (item_phase (db (run_world (f w))) i))"
proof -
  from advancesD [OF program_advances [OF assms(1)] among_sessions [OF assms(2-4)]] assms(3) show ?thesis
    by (auto simp: world_ok_def intro: commit_steps_phases)
qed

text \<open>A worker's run on the sample database, while the API serves a request before its first statement.\<close>

definition sample_worker :: "world \<Rightarrow> run_result" where
  "sample_worker w =
     (case run_worker_process sample_config
         (new_postgres_worker_store (Inr :: string \<Rightarrow> string result) (\<lambda>_. Inr ()))
         new_rabbitmq_worker_session_with_dialer
         [\<lparr>lt_before = False, lt_session = sample_dialer, lt_after = True, lt_wait = ContextDone\<rparr>] w of
       (out, events, w') \<Rightarrow> \<lparr>run_confirmed = {}, run_dismissed = dismissed events, run_world = w'\<rparr>)"

definition sample_request_run :: "world \<Rightarrow> run_result" where
  "sample_request_run w =
     \<lparr>run_confirmed = {}, run_dismissed = {}, run_world = snd (create_item_handler postgres_store sample_create_request w)\<rparr>"

definition sample_busy_world :: world where
  "sample_busy_world = sample_world\<lparr>turns := [quiet_turn\<lparr>others := after_run sample_request_run []\<rparr>]\<rparr>"

lemma sample_busy:
  "program sample_jsonb_text sample_worker"
  "\<forall>t \<in> set (turns sample_busy_world). session_turn sample_jsonb_text {} t"
  "db_ok (db sample_busy_world)" "seqs_ok (seqs sample_busy_world) (db sample_busy_world)"
  "db sample_busy_world = sample_database"
proof -
  have "(''POST /items'', create_item_handler postgres_store) \<in> business_handlers"
    by (simp add: business_handlers_def work_item_routes_def)
  then have "program sample_jsonb_text sample_request_run"
    unfolding sample_request_run_def [abs_def] by (rule program.request)
  from session_turn.run [OF this, of "[]" "{}"]
  show "\<forall>t \<in> set (turns sample_busy_world). session_turn sample_jsonb_text {} t"
    by (simp add: sample_busy_world_def sample_request_run_def)
  show "program sample_jsonb_text sample_worker"
    unfolding sample_worker_def [abs_def] by (rule program.worker)
qed (use sample_db_ok sample_seqs_ok in \<open>simp_all add: sample_busy_world_def sample_world_def\<close>)

theorem interleaved_item_life_witness:
  "item_step\<^sup>*\<^sup>* (item_phase sample_database 1) (item_phase (db (run_world (sample_worker sample_busy_world))) 1)"
  using interleaved_item_life [OF sample_busy(1-4)] by (simp add: sample_busy(5))

end
