(* ===== verification/InterleavedJobs.thy ===== *)
theory InterleavedJobs
  imports InterleavedRuns
begin

text \<open>
  No accepted job is lost, statement by statement: whatever the other sessions commit between any two calls
  of a run, an accepted job keeps its message in the outbox until the broker has confirmed it, and no worker
  lets the copies of the message go while the job is accepted.
\<close>

section \<open>Jobs and their messages\<close>

text \<open>Every accepted job has its message in the outbox: unpublished, or one of \<open>K\<close>.\<close>

definition has_message :: "int64 set \<Rightarrow> database \<Rightarrow> processing_job_row \<Rightarrow> bool" where
  "has_message K d q =
     (\<exists>m \<in> set (outbox_messages d). ob_processing_job_id m = pj_id q
        \<and> ob_payload m = process_payload (pj_id q) (pj_work_item_id q) \<and> (unpublished m \<or> ob_id m \<in> K))"

definition jobs_carried :: "int64 set \<Rightarrow> database \<Rightarrow> bool" where
  "jobs_carried K d = (\<forall>q \<in> set (processing_jobs d). pj_state q = Accepted \<longrightarrow> has_message K d q)"

lemma has_message_mono:
  "has_message K d q \<Longrightarrow> set (outbox_messages d) \<subseteq> set (outbox_messages d') \<Longrightarrow> K \<subseteq> K' \<Longrightarrow> has_message K' d' q"
  unfolding has_message_def by blast

lemma has_message_new: "has_message K (with_acceptance m j i now d) (new_job_row j i now)"
  by (simp add: has_message_def with_acceptance_def with_new_message_def with_new_job_def insert_row_def
      new_outbox_row_def new_job_row_def unpublished_def)

text \<open>Rows of an outbox that the publisher has moved, publishing at most \<open>P\<close>.\<close>

lemma moved_message:
  assumes "db_ok d" and moves: "outbox_moves d d'" and only: "publishes_only P d d'"
    and m: "m \<in> set (outbox_messages d)" "unpublished m \<or> ob_id m \<in> K"
  shows "\<exists>m' \<in> set (outbox_messages d'). outbox_continues m m' \<and> (unpublished m' \<or> ob_id m' \<in> K \<union> P)"
proof -
  from moves m(1) obtain m' where m': "m' \<in> set (outbox_messages d')" "outbox_continues m m'"
    unfolding outbox_moves_def list_all2_conv_all_nth by (metis in_set_conv_nth)
  have id: "ob_id m' = ob_id m" using m'(2) by (simp add: outbox_continues_def)
  have u: "unique_key ob_id (outbox_messages d)" using assms(1) by (simp add: db_ok_def constraint_defs)
  have "ob_id m \<in> P \<or> \<not> unpublished m" if "\<not> unpublished m'"
  proof -
    from only m'(1) that have "ob_id m \<in> P \<or> (\<exists>n \<in> set (outbox_messages d). ob_id n = ob_id m \<and> \<not> unpublished n)"
      by (auto simp: publishes_only_def id)
    with unique_key_eq [OF u _ m(1)] show ?thesis by blast
  qed
  with m' m(2) id show ?thesis by auto
qed

lemma worker_jobs_carried:
  assumes "transaction Worker d d'" and "jobs_carried K d"
  shows "jobs_carried (K \<union> P) d'"
  unfolding jobs_carried_def
proof (intro ballI impI)
  fix q' assume "q' \<in> set (processing_jobs d')" "pj_state q' = Accepted"
  from worker_transaction_rows(2) [OF assms(1) this] obtain q where
    q: "q \<in> set (processing_jobs d)" "pj_id q = pj_id q'" "pj_work_item_id q = pj_work_item_id q'" "pj_state q = Accepted"
    by blast
  with assms(2) have "has_message K d q" by (simp add: jobs_carried_def)
  with q worker_transaction_rows(1) [OF assms(1)] show "has_message (K \<union> P) d' q'" by (auto simp: has_message_def)
qed

lemma transaction_jobs_carried:
  assumes ok: "db_ok d" and t: "transaction a d d'" and only: "publishes_only P d d'" and carried: "jobs_carried K d"
  shows "jobs_carried (K \<union> P) d'"
  using t
proof cases
  case (acceptance i j m now)
  have "set (processing_jobs d') = insert (new_job_row j i now) (set (processing_jobs d))"
    and "set (outbox_messages d) \<subseteq> set (outbox_messages d')"
    by (auto simp: acceptance with_acceptance_def with_new_message_def with_new_job_def insert_row_def)
  with carried has_message_new [of _ m j i now d] show ?thesis
    unfolding jobs_carried_def acceptance(2) by (auto intro: has_message_mono)
next
  case publication
  then have jobs: "processing_jobs d' = processing_jobs d" by (simp add: outbox_moves_def)
  have "has_message (K \<union> P) d' q" if "has_message K d q" for q
    using that moved_message [OF ok publication(2) only] unfolding has_message_def outbox_continues_def by metis
  with carried show ?thesis by (simp add: jobs_carried_def jobs)
next
  case completion
  from worker_jobs_carried [OF t [unfolded completion(1)] carried] show ?thesis .
next
  case failed_attempt
  from worker_jobs_carried [OF t [unfolded failed_attempt(1)] carried] show ?thesis .
qed (use carried in \<open>auto simp: jobs_carried_def insert_row_def intro: has_message_mono\<close>)

lemma commit_steps_jobs_carried:
  "(commit_step P)\<^sup>*\<^sup>* d d' \<Longrightarrow> db_ok d \<Longrightarrow> jobs_carried K d \<Longrightarrow> jobs_carried (K \<union> P) d'"
proof (induction rule: rtranclp_induct)
  case base
  then show ?case unfolding jobs_carried_def by (blast intro: has_message_mono)
next
  case (step d1 d2)
  then have "jobs_carried (K \<union> P \<union> P) d2"
    using transaction_jobs_carried commit_steps_ok unfolding commit_step_def by blast
  then show ?case by (simp add: Un_assoc)
qed

section \<open>What the worker lets go\<close>

text \<open>
  The broker may forget a copy only when each job its payload names, which the database held for that item
  when the run began, is settled.
\<close>

definition dismissal_means :: "world \<Rightarrow> world \<Rightarrow> bytes \<Rightarrow> amqp_call \<Rightarrow> bool" where
  "dismissal_means w0 w payload c =
     (dismisses c \<longrightarrow> (\<forall>m. accepted_message payload m \<longrightarrow> known_in (db w0) (wm_JobID m) (wm_WorkItemID m) \<longrightarrow>
        settled w (wm_JobID m) (wm_WorkItemID m)))"

lemma known_stays:
  assumes "known_in (db w) j i" and "world_ok w" and "evolves w w'"
  shows "known_in (db w') j i"
proof -
  from assms(1) obtain q where q: "row_at pj_id (processing_jobs (db w)) j = Some q" "pj_work_item_id q = i"
    by (auto simp: known_in_def)
  from continues_rowD(2) [OF evolves_continues [OF assms(3,2)] q(1)] q(2) show ?thesis
    by (auto simp: known_in_def job_continues_def)
qed

lemma closed_is_settled:
  assumes "world_ok w" and "known_in (db w) j i" and "\<not> open_in (db w) j i"
  shows "settled w j i"
proof -
  from assms(2) obtain q where q: "row_at pj_id (processing_jobs (db w)) j = Some q" "pj_work_item_id q = i"
    by (auto simp: known_in_def)
  have "job_row_ok q"
    using assms(1) row_at_Some_in [OF q(1)] by (auto simp: world_ok_def db_ok_def constraint_defs list_all_iff)
  with q assms(3) show ?thesis by (auto simp: open_in_def settled_def terminal_def job_row_ok_def)
qed

lemma successful_keeps: "snd (successful_processor m v) = v"
  by (simp add: successful_processor_def)

interpretation pg_dismissals: delivery_contract postgres_worker_store "\<lambda>w. world_ok w \<and> evolves w0 w \<and> world_ok w0"
    "dismissal_means w0" for w0
proof
  fix w payload w'
  assume inv: "world_ok w \<and> evolves w0 w \<and> world_ok w0"
  {
    fix r assume h: "handle_worker_message postgres_worker_store payload w = (r, w')"
    note h' = h [unfolded handle_worker_message_def]
    note ev = handler_evolves [OF successful_keeps h']
    then show "dismissal_means w0 w' p c" if "dismissal_means w0 w p c" for p c
      using that settled_evolves inv unfolding dismissal_means_def by blast
  }
  fix st err assume h: "handle_worker_message postgres_worker_store payload w = ((st, err), w')"
  note h' = h [unfolded handle_worker_message_def]
  note ev = handler_evolves [OF successful_keeps h']
  have inv': "world_ok w'" "evolves w0 w'" using inv ev by (auto intro: evolves_world_ok evolves_trans)
  have "settled w' (wm_JobID m) (wm_WorkItemID m)"
    if gone: "dismisses (call_of st)" and m: "accepted_message payload m"
      and known: "known_in (db w0) (wm_JobID m) (wm_WorkItemID m)" for m
  proof -
    consider "st = settlementAck" | "st = settlementReject"
      using gone handler_settles(1) [OF h'] by (auto simp: call_of_def dismisses_def)
    then show ?thesis
    proof cases
      case 1
      from pg.ack_settled [of w payload err w'] h' 1 inv m show ?thesis by (auto simp: accepted_message_def)
    next
      case 2
      from rejected_not_open(1) [OF _ m successful_keeps h' [unfolded 2]] inv
      have "\<not> open_in (db w') (wm_JobID m) (wm_WorkItemID m)" by blast
      with closed_is_settled [OF inv'(1) known_stays [OF known _ inv'(2)]] inv show ?thesis by blast
    qed
  qed
  with inv inv' show "(world_ok w' \<and> evolves w0 w' \<and> world_ok w0) \<and> dismissal_means w0 w' payload (call_of st)"
    by (simp add: dismissal_means_def)
qed

text \<open>So over a run of any program.\<close>

lemma program_dismisses:
  assumes "program jt f" and ok: "world_ok w" and p: "p \<in> run_dismissed (f w)"
    and m: "accepted_message p m" and known: "known_in (db w) (wm_JobID m) (wm_WorkItemID m)"
  shows "settled (run_world (f w)) (wm_JobID m) (wm_WorkItemID m)"
  using assms(1)
proof cases
  case (worker config parse_config new_pool ts)
  obtain out events w' where run: "run_worker_process config (new_postgres_worker_store parse_config new_pool)
      new_rabbitmq_worker_session_with_dialer ts w = (out, events, w')" by (metis prod_cases3)
  from p obtain c where c: "Settled p c \<in> set events" "dismisses c" by (auto simp: worker run dismissed_def)
  obtain store where started: "new_postgres_worker_store parse_config new_pool (wc_DatabaseURL config) = Inr store"
  proof (cases "new_postgres_worker_store parse_config new_pool (wc_DatabaseURL config)")
    case (Inl err)
    with process_without_store [where new_store = "new_postgres_worker_store parse_config new_pool"
        and new_session = new_rabbitmq_worker_session_with_dialer and ts = ts and s = w, OF Inl] run c(1)
    have False by simp
    then show ?thesis ..
  qed (rule that)
  have "run_worker_process config (\<lambda>url. Inr postgres_worker_store)
      new_rabbitmq_worker_session_with_dialer ts w = (out, events, w')"
    using run unfolding process_with_store [where new_store = "new_postgres_worker_store parse_config new_pool", OF started]
      new_postgres_store [OF started] by simp
  from pg_dismissals.process_holds [where dialer = "\<lambda>d. d", OF this, of w] ok c m known show ?thesis
    by (auto simp: worker run events_hold_def dismissal_means_def)
qed (use p in \<open>auto split: prod.splits\<close>)

section \<open>Properties\<close>

text \<open>
  C6 (no job is lost, statement by statement). Let the other sessions run the programs, the broker confirming
  to them messages of \<open>P\<close> only, and commit between any two calls of a request, a publisher's run or a worker's
  run, whichever calls fail. If every accepted job had its message in the outbox, unpublished or of \<open>K\<close>, then
  afterwards every accepted job, new ones included, has its message in the outbox: unpublished, or of \<open>K\<close>, or
  confirmed by the broker meanwhile. And a worker's run has let no copy of the message go of a job that it
  found in the database and that is accepted still.
\<close>

theorem no_job_lost_by_a_run:
  assumes "jsonb_faithful jt" and "program jt f" and "\<forall>t \<in> set (turns w). session_turn jt P t"
    and "db_ok (db w)" and "seqs_ok (seqs w) (db w)" and "jobs_carried K (db w)"
  shows "jobs_carried (K \<union> P \<union> run_confirmed (f w)) (db (run_world (f w)))
    \<and> (\<forall>q \<in> set (processing_jobs (db w)). \<forall>q' \<in> set (processing_jobs (db (run_world (f w)))).
         pj_id q' = pj_id q \<and> pj_state q' = Accepted \<longrightarrow>
         jt (process_payload (pj_id q') (pj_work_item_id q')) \<notin> run_dismissed (f w))"
proof (intro conjI ballI impI)
  note w = among_sessions [OF assms(3-5)]
  note a = advancesD [OF program_advances [OF assms(2)] w]
  show "jobs_carried (K \<union> P \<union> run_confirmed (f w)) (db (run_world (f w)))"
    using commit_steps_jobs_carried [OF _ assms(4,6)] a by (simp add: Un_assoc)
  let ?s = "\<lparr>sy_db = db w, sy_seqs = seqs w, sy_queue = {#}\<rparr>"
  fix q q' assume q: "q \<in> set (processing_jobs (db w))" "q' \<in> set (processing_jobs (db (run_world (f w))))"
    "pj_id q' = pj_id q \<and> pj_state q' = Accepted"
  have known: "known_in (db w) (pj_id q) (pj_work_item_id q)"
    using row_at_unique [OF world_ok_unique [OF w(1)] q(1)] by (simp add: known_in_def)
  have "known_in (db (run_world (f w))) (pj_id q) (pj_work_item_id q)"
    using known_stays [OF known w(1)] advances_evolves [OF program_advances [OF assms(2)]] by blast
  with row_at_unique [OF world_ok_unique q(2)] a q(3) have item: "pj_work_item_id q' = pj_work_item_id q"
    by (auto simp: known_in_def)
  have "accepted_message (jt (process_payload (pj_id q) (pj_work_item_id q))) (message_of (pj_id q) (pj_work_item_id q))"
    using carried_message_accepted [OF assms(1), of ?s q] q(1) assms(4,5) by (simp add: data_ok_def)
  from program_dismisses [OF assms(2) w(1) _ this] known
  have "settled (run_world (f w)) (pj_id q) (pj_work_item_id q)"
    if "jt (process_payload (pj_id q) (pj_work_item_id q)) \<in> run_dismissed (f w)"
    using that by (simp add: message_of_def)
  moreover have "open_in (db (run_world (f w))) (pj_id q) (pj_work_item_id q)"
    using open_inI [OF _ q(2)] q(3) item a by (simp add: world_ok_def)
  ultimately show "jt (process_payload (pj_id q') (pj_work_item_id q')) \<notin> run_dismissed (f w)"
    using open_not_settled q(3) item by auto
qed

text \<open>A worker's run on the sample database, whose one job is accepted and has its message unpublished.\<close>

lemma sample_jobs_carried: "jobs_carried {} (db sample_busy_world)"
proof -
  have "format_int 7 = ''7''" "format_int 1 = ''1''" by code_simp+
  then show ?thesis
    by (simp add: jobs_carried_def has_message_def sample_busy(5) sample_defs process_payload_def unpublished_def
        workItemProcessMessageType_def)
qed

theorem no_job_lost_by_a_run_witness:
  "\<exists>q \<in> set (processing_jobs (db sample_busy_world)). pj_state q = Accepted
    \<and> jobs_carried {} (db (run_world (sample_worker sample_busy_world)))"
proof -
  have "run_confirmed (sample_worker sample_busy_world) = {}" by (simp add: sample_worker_def split: prod.splits)
  with no_job_lost_by_a_run [OF sample_jsonb_faithful sample_busy(1-4) sample_jobs_carried] show ?thesis
    by (simp add: sample_busy(5) sample_defs)
qed

end
