(* ===== verification/JsonValid.thy ===== *)
theory JsonValid
  imports JsonEncoder
begin

text \<open>
  Whatever bytes the decoder is given, the strings it yields are valid UTF-8, so titles are.
\<close>

section \<open>What the decoder yields is valid\<close>

lemma byte_char_of [simp]: "n < 256 \<Longrightarrow> byte (char_of n) = n"
  by (simp add: byte_def)

lemma decode_two:
  assumes "byte c = 192 + x" "2 \<le> x" "x < 32" "byte d = 128 + y" "y < 64"
  shows "decode_rune [c, d] = (x * 64 + y, 2)"
proof -
  have "lead_info (192 + x) = Some (2, 128, 191)" using assms by (simp add: lead_info_def)
  moreover have "(192 + x) mod 32 = x" "(128 + y) mod 64 = y"
    using assms mod_in_block [of 32 6 "192 + x"] mod_in_block [of 64 2 "128 + y"] by simp_all
  ultimately show ?thesis using assms by (simp add: tail_ok_def rune_value_def)
qed

lemma decode_three:
  assumes "byte c = 224 + x" "x < 16" "byte d = 128 + y" "y < 64" "byte e = 128 + z" "z < 64"
    and "x = 0 \<Longrightarrow> 32 \<le> y" "x = 13 \<Longrightarrow> y < 32"
  shows "decode_rune [c, d, e] = (x * 4096 + y * 64 + z, 3)"
proof -
  obtain lo hi where l: "lead_info (224 + x) = Some (3, lo, hi)" "lo \<le> 128 + y" "128 + y \<le> hi"
    using assms by (cases "x = 0"; cases "x = 13"; simp add: lead_info_def)
  moreover have "(224 + x) mod 16 = x" "(128 + y) mod 64 = y" "(128 + z) mod 64 = z"
    using assms mod_in_block [of 16 14 "224 + x"] mod_in_block [of 64 2 "128 + y"] mod_in_block [of 64 2 "128 + z"] by simp_all
  moreover have "cont e" using assms by (simp add: cont_def)
  ultimately show ?thesis using assms(1,3,5) by (simp add: tail_ok_def rune_value_def)
qed

lemma decode_four:
  assumes "byte c = 240 + x" "x < 5" "byte d = 128 + y" "y < 64" "byte e = 128 + z" "z < 64" "byte f = 128 + w" "w < 64"
    and "x = 0 \<Longrightarrow> 16 \<le> y" "x = 4 \<Longrightarrow> y < 16"
  shows "decode_rune [c, d, e, f] = (x * 262144 + y * 4096 + z * 64 + w, 4)"
proof -
  obtain lo hi where l: "lead_info (240 + x) = Some (4, lo, hi)" "lo \<le> 128 + y" "128 + y \<le> hi"
    using assms by (cases "x = 0"; cases "x = 4"; simp add: lead_info_def)
  moreover have "(240 + x) mod 8 = x" "(128 + y) mod 64 = y" "(128 + z) mod 64 = z" "(128 + w) mod 64 = w"
    using assms mod_in_block [of 8 30 "240 + x"] mod_in_block [of 64 2 "128 + y"] mod_in_block [of 64 2 "128 + z"]
      mod_in_block [of 64 2 "128 + w"] by simp_all
  moreover have "cont e" "cont f" using assms by (simp_all add: cont_def)
  ultimately show ?thesis using assms(1,3,5,7) by (simp add: tail_ok_def rune_value_def algebra_simps)
qed

text \<open>A scalar value: no surrogate, at most U+10FFFF.\<close>

definition scalar :: "nat \<Rightarrow> bool" where
  "scalar r = (r < 55296 \<or> 57343 < r \<and> r \<le> 1114111)"

lemma encode_rune_scalar: "\<not> scalar r \<Longrightarrow> encode_rune r = encode_rune rune_error"
  by (auto simp: encode_rune_def Let_def scalar_def rune_error_def)

lemma scalar_rune_error [simp]: "scalar rune_error"
  by (simp add: scalar_def rune_error_def)

lemma encode_rune_block:
  assumes "scalar r"
  shows "rune_block (r, encode_rune r) \<and> (r \<noteq> rune_error \<or> length (encode_rune r) \<noteq> 1)"
proof -
  have r: "(if 55296 \<le> r \<and> r \<le> 57343 \<or> 1114111 < r then rune_error else r) = r" and max: "r \<le> 1114111"
    using assms by (auto simp: scalar_def)
  have d64: "r = (r div 64) * 64 + r mod 64" "r div 64 = (r div 4096) * 64 + r div 64 mod 64"
    "r div 4096 = (r div 262144) * 64 + r div 4096 mod 64"
    using div_mult2_eq [of r 64 64] div_mult2_eq [of r 4096 64] by simp_all
  consider "r < 128" | "128 \<le> r" "r < 2048" | "2048 \<le> r" "r < 65536" | "65536 \<le> r" by linarith
  then show ?thesis
  proof cases
    case 1
    then show ?thesis by (simp add: encode_rune_def r rune_block_def rune_error_def)
  next
    case 2
    then have x: "2 \<le> r div 64" "r div 64 < 32" by (simp_all add: div_le_mono2)
    then have e: "encode_rune r = [char_of (192 + r div 64), char_of (128 + r mod 64)]" using 2 by (simp add: encode_rune_def r)
    have "decode_rune (encode_rune r) = (r div 64 * 64 + r mod 64, 2)"
      unfolding e by (rule decode_two) (use x in simp_all)
    then show ?thesis using d64(1) by (simp add: rune_block_def e)
  next
    case 3
    let ?x = "r div 4096" and ?y = "r div 64 mod 64" and ?z = "r mod 64"
    have sum: "r = ?x * 4096 + ?y * 64 + ?z" and b: "?y < 64" "?z < 64"
      using d64(1,2) by (linarith, simp_all)
    have x: "?x < 16" using 3(2) by (simp add: less_mult_imp_div_less)
    have y: "?x = 0 \<Longrightarrow> 32 \<le> ?y" "?x = 13 \<Longrightarrow> ?y < 32" using sum b 3 assms by (auto simp: scalar_def)
    have e: "encode_rune r = [char_of (224 + ?x), char_of (128 + ?y), char_of (128 + ?z)]"
      using 3 assms by (auto simp: encode_rune_def scalar_def)
    have "decode_rune (encode_rune r) = (?x * 4096 + ?y * 64 + ?z, 3)"
      unfolding e by (rule decode_three) (use x y in simp_all)
    then show ?thesis by (simp add: rune_block_def e flip: sum)
  next
    case 4
    let ?x = "r div 262144" and ?y = "r div 4096 mod 64" and ?z = "r div 64 mod 64" and ?w = "r mod 64"
    have sum: "r = ?x * 262144 + ?y * 4096 + ?z * 64 + ?w" and b: "?y < 64" "?z < 64" "?w < 64"
      using d64 by (linarith, simp_all)
    have x: "?x < 5" using max by (simp add: less_mult_imp_div_less)
    have y: "?x = 0 \<Longrightarrow> 16 \<le> ?y" "?x = 4 \<Longrightarrow> ?y < 16" using sum b 4 max by auto
    have e: "encode_rune r = [char_of (240 + ?x), char_of (128 + ?y), char_of (128 + ?z), char_of (128 + ?w)]"
      using 4 assms by (auto simp: encode_rune_def scalar_def)
    have "decode_rune (encode_rune r) = (?x * 262144 + ?y * 4096 + ?z * 64 + ?w, 4)"
      unfolding e by (rule decode_four) (use x y in simp_all)
    then show ?thesis by (simp add: rune_block_def e flip: sum)
  qed
qed

text \<open>So an encoded rune in front keeps a text valid, whatever number was encoded.\<close>

lemma utf8_valid_encode_rune: "utf8_valid s \<Longrightarrow> utf8_valid (encode_rune r @ s)"
proof -
  assume s: "utf8_valid s"
  obtain q where q: "scalar q" "encode_rune r = encode_rune q"
    using encode_rune_scalar scalar_rune_error by metis
  note b = encode_rune_block [OF q(1)]
  with rune_block_append [of q "encode_rune q" s] have "decode_rune (encode_rune q @ s) = (q, length (encode_rune q))" by blast
  moreover have "encode_rune q \<noteq> []" using b by (simp add: rune_block_def)
  ultimately have "runes (encode_rune q @ s) = (q, encode_rune q) # runes s" by (simp add: runes_ne)
  with b s show ?thesis by (auto simp: utf8_valid_def q(2))
qed

lemma utf8_valid_Nil [simp]: "utf8_valid []"
  by (simp add: utf8_valid_def)

lemma encode_rune_ascii: "byte c < 128 \<Longrightarrow> [c] = encode_rune (byte c)"
  by (simp add: encode_rune_def char_of_byte)

lemma string_piece_encoded: "string_piece s = Some (b, t) \<Longrightarrow> \<exists>r. b = encode_rune r"
proof -
  assume p: "string_piece s = Some (b, t)"
  have e: "\<exists>r. [c] = encode_rune r" if "simple_escape x = Some c" for x c
  proof -
    have "byte c < 128" using that by (auto simp: simple_escape_def byte_def split: if_splits)
    then show ?thesis using encode_rune_ascii by blast
  qed
  show ?thesis using p e encode_rune_ascii
    by (auto simp: string_piece_def split: list.splits if_splits option.splits prod.splits)
qed

lemma string_body_valid: "string_body s = Some (b, t) \<Longrightarrow> utf8_valid b"
proof (induction s arbitrary: b t rule: string_body.induct)
  case (1 s)
  show ?case
  proof (cases s)
    case Nil
    with "1.prems" show ?thesis by (simp add: string_body.simps)
  next
    case (Cons c u)
    show ?thesis
    proof (cases "c = CHR 0x22")
      case True
      with "1.prems" Cons show ?thesis by (simp add: string_body.simps)
    next
      case False
      with "1.prems" Cons obtain b1 u1 bs where p: "string_piece s = Some (b1, u1)"
        and body: "string_body u1 = Some (bs, t)" "b = b1 @ bs"
        by (auto simp: string_body.simps [of "c # u"] split: option.splits)
      obtain r where "b1 = encode_rune r" using string_piece_encoded [OF p] by blast
      with "1.IH" [OF Cons False p] body show ?thesis by (simp add: utf8_valid_encode_rune)
    qed
  qed
qed


text \<open>Every string of a parsed value is valid.\<close>

fun json_utf8 :: "json \<Rightarrow> bool" where
  "json_utf8 (JStr s) = utf8_valid s"
| "json_utf8 (JArr vs) = (\<forall>v \<in> set vs. json_utf8 v)"
| "json_utf8 (JObj kvs) = (\<forall>kv \<in> set kvs. json_utf8 (snd kv))"
| "json_utf8 v = True"

fun frame_utf8 :: "frame \<Rightarrow> bool" where
  "frame_utf8 (FArr vs) = (\<forall>v \<in> set vs. json_utf8 v)"
| "frame_utf8 (FObj kvs nm) = (\<forall>kv \<in> set kvs. json_utf8 (snd kv))"

lemma parse_scalar_utf8: "parse_scalar s = Some (v, t) \<Longrightarrow> json_utf8 v"
  by (auto simp: parse_scalar_def split: list.splits if_splits dest: string_body_valid)

lemma parse_utf8:
  "finish k v s = Some r \<Longrightarrow> \<forall>f \<in> set k. frame_utf8 f \<Longrightarrow> json_utf8 v \<Longrightarrow> json_utf8 (fst r)"
  "parse_name kvs k s = Some r \<Longrightarrow> \<forall>f \<in> set k. frame_utf8 f \<Longrightarrow> \<forall>kv \<in> set kvs. json_utf8 (snd kv) \<Longrightarrow> json_utf8 (fst r)"
  "parse_value k s = Some r \<Longrightarrow> \<forall>f \<in> set k. frame_utf8 f \<Longrightarrow> json_utf8 (fst r)"
proof (induction k v s and kvs k s and k s arbitrary: r and r and r rule: finish_parse_name_parse_value.induct)
  case (1 v s)
  then show ?case by (auto simp: finish.simps)
next
  case (2 vs k v s)
  then show ?case by (auto simp: finish.simps split: list.splits if_splits)
next
  case (3 kvs nm k v s)
  then show ?case by (auto simp: finish.simps split: list.splits if_splits)
next
  case (4 kvs k s)
  then show ?case by (cases r) (auto simp: parse_name.simps split: list.splits if_splits option.splits)
next
  case (5 k s)
  from "5.prems"(1) obtain c t where st: "skip_ws s = c # t" by (auto simp: parse_value.simps split: list.splits)
  show ?case
  proof (cases "c = CHR ''['' \<or> c = CHR ''{''")
    case True
    with 5 st show ?thesis by (auto simp: parse_value.simps [of k] split: list.splits if_splits)
  next
    case False
    with "5.prems" st obtain v u where v: "parse_scalar (c # t) = Some (v, u)" "finish k v u = Some r"
      by (auto simp: parse_value.simps [of k] split: option.splits)
    with "5.IH"(5) [OF st _ _ v(1) refl v(2)] False "5.prems"(2) parse_scalar_utf8 [OF v(1)] show ?thesis by blast
  qed
qed

lemma json_next_utf8: "json_next s = Inr (v, t) \<Longrightarrow> json_utf8 v"
  using parse_utf8(3) [of "[]" s] by (fastforce simp: json_next_def split: if_splits option.splits)

text \<open>White space off the ends keeps a text valid.\<close>

lemma utf8_valid_trim_space: "utf8_valid s \<Longrightarrow> utf8_valid (trim_space s)"
proof -
  assume s: "utf8_valid s"
  obtain as bs where "runes s = as @ trim space_rune (runes s) @ bs" using trim_decomp by blast
  then have "set (trim space_rune (runes s)) \<subseteq> set (runes s)" by (metis Un_iff set_append subsetI)
  with s show ?thesis by (auto simp: utf8_valid_def list_all_iff runes_trim_space)
qed

end
