(* ===== verification/TimeText.thy ===== *)
theory TimeText
  imports GoStrings
begin

text \<open>
  The text of a \<open>time.Time\<close> in JSON: RFC 3339 with nanoseconds, in the time's zone. Timestamps count
  nanoseconds since 1970-01-01T00:00:00Z, days the days since then; the zone is the offset from UTC in seconds.
\<close>

section \<open>Dates\<close>

text \<open>
  A day number to year and day of the year (from 0): cycles of 400 years, centuries, cycles of 4 years, years,
  counted from 0001-01-01 so that the leap day comes last in each.
\<close>

definition year_and_day :: "int \<Rightarrow> int \<times> int" where
  "year_and_day days =
     (let d0 = days + 719162;
          n400 = d0 div 146097; d1 = d0 mod 146097;
          n100 = min 3 (d1 div 36524); d2 = d1 - 36524 * n100;
          n4 = d2 div 1461; d3 = d2 mod 1461;
          n1 = min 3 (d3 div 365) in
      (1 + 400 * n400 + 100 * n100 + 4 * n4 + n1, d3 - 365 * n1))"

definition leap_year :: "int \<Rightarrow> bool" where
  "leap_year year = (year mod 4 = 0 \<and> (year mod 100 \<noteq> 0 \<or> year mod 400 = 0))"

text \<open>The days of a year before each of its months.\<close>

definition days_before :: "bool \<Rightarrow> int list" where
  "days_before leap =
     (if leap then [0, 31, 60, 91, 121, 152, 182, 213, 244, 274, 305, 335]
      else [0, 31, 59, 90, 120, 151, 181, 212, 243, 273, 304, 334])"

definition date :: "int \<Rightarrow> int \<times> nat \<times> int" where
  "date days =
     (case year_and_day days of (year, yday) \<Rightarrow>
       (let starts = days_before (leap_year year);
            month = length (filter (\<lambda>d. d \<le> yday) starts) in
        (year, month, yday - starts ! (month - 1) + 1)))"

section \<open>The date is the one of the calendar\<close>

text \<open>The days from 0001-01-01 to the first of a year, by the leap years between.\<close>

definition days_to_year :: "int \<Rightarrow> int" where
  "days_to_year year = (let y = year - 1 in 365 * y + y div 4 - y div 100 + y div 400)"

lemma cycles:
  fixes a b c e :: int
  assumes "0 \<le> b" "b \<le> 3" "0 \<le> c" "c \<le> 24" "0 \<le> e" "e \<le> 3"
  defines "y \<equiv> 400 * a + 100 * b + 4 * c + e"
  shows "y div 4 = 100 * a + 25 * b + c" "y div 100 = 4 * a + b" "y div 400 = a"
    "leap_year (y + 1) \<longleftrightarrow> e = 3 \<and> (c = 24 \<longrightarrow> b = 3)"
proof -
  have z: "e div 4 = 0" "(4 * c + e) div 100 = 0" "(100 * b + 4 * c + e) div 400 = 0"
    using assms(1-6) by (simp_all add: div_pos_pos_trivial)
  have y: "y = 4 * (100 * a + 25 * b + c) + e" "y = 100 * (4 * a + b) + (4 * c + e)"
    "y = 400 * a + (100 * b + 4 * c + e)" by (simp_all add: y_def)
  show "y div 4 = 100 * a + 25 * b + c" unfolding y(1) using z(1) by simp
  show "y div 100 = 4 * a + b" unfolding y(2) using z(2) div_mult_self4 [of 100 "4 * a + b" "4 * c + e"] by simp
  show "y div 400 = a" unfolding y(3) using z(3) div_mult_self4 [of 400 a "100 * b + 4 * c + e"] by simp
  have m: "(4 * (100 * a + 25 * b + c) + (e + 1)) mod 4 = (e + 1) mod 4"
    "(100 * (4 * a + b) + (4 * c + e + 1)) mod 100 = (4 * c + e + 1) mod 100"
    "(400 * a + (100 * b + 4 * c + e + 1)) mod 400 = (100 * b + 4 * c + e + 1) mod 400"
    by (simp_all only: mod_mult_self4)
  have y1: "y + 1 = 4 * (100 * a + 25 * b + c) + (e + 1)" "y + 1 = 100 * (4 * a + b) + (4 * c + e + 1)"
    "y + 1 = 400 * a + (100 * b + 4 * c + e + 1)" by (simp_all add: y_def)
  have e4: "(e + 1) mod 4 = 0 \<longleftrightarrow> e = 3"
    using assms(5,6) by (cases "e + 1 = 4") auto
  have e100: "(4 * c + e + 1) mod 100 = 0 \<longleftrightarrow> c = 24 \<and> e = 3"
  proof (cases "c = 24 \<and> e = 3")
    case False
    then have "4 * c + e + 1 < 100" using assms(3-6) by (cases "c = 24") auto
    with False assms(3,5) show ?thesis by simp
  qed simp
  have e400: "e = 3 \<Longrightarrow> c = 24 \<Longrightarrow> (100 * b + 4 * c + e + 1) mod 400 = 0 \<longleftrightarrow> b = 3"
    using assms(1,2) by (cases "b = 3") auto
  show "leap_year (y + 1) \<longleftrightarrow> e = 3 \<and> (c = 24 \<longrightarrow> b = 3)"
    unfolding leap_year_def using m [folded y1] e4 e100 e400 by auto
qed

text \<open>The last part of a cycle has the day more.\<close>

lemma last_part:
  fixes d k :: int
  assumes "0 \<le> d" "d \<le> 4 * k" "0 < k"
  shows "0 \<le> min 3 (d div k)" "0 \<le> d - k * min 3 (d div k)" "d - k * min 3 (d div k) \<le> k"
    "d - k * min 3 (d div k) = k \<Longrightarrow> min 3 (d div k) = 3"
proof -
  have q: "0 \<le> d div k" using assms by (simp add: pos_imp_zdiv_nonneg_iff)
  have r: "d = k * (d div k) + d mod k" "0 \<le> d mod k" "d mod k < k" using assms by simp_all
  show "0 \<le> min 3 (d div k)" using q by simp
  have "0 \<le> d - k * min 3 (d div k) \<and> d - k * min 3 (d div k) \<le> k
    \<and> (d - k * min 3 (d div k) = k \<longrightarrow> min 3 (d div k) = 3)"
  proof (cases "d div k \<le> 2")
    case True
    then have "min 3 (d div k) = d div k" by simp
    moreover have "d - k * (d div k) = d mod k" using r(1) by linarith
    ultimately show ?thesis using r(2,3) by simp
  next
    case False
    then have "k * 3 \<le> k * (d div k)" using assms(3) by (intro mult_left_mono) auto
    then have "3 * k \<le> d" using r(1,2) by linarith
    moreover have "min 3 (d div k) = 3" using False by simp
    ultimately show ?thesis using assms(2,3) by simp
  qed
  then show "0 \<le> d - k * min 3 (d div k)" "d - k * min 3 (d div k) \<le> k"
    "d - k * min 3 (d div k) = k \<Longrightarrow> min 3 (d div k) = 3" by blast+
qed

lemma year_and_day_calendar:
  assumes "year_and_day days = (year, yday)"
  shows "days_to_year year + yday = days + 719162" and "0 \<le> yday" and "yday < (if leap_year year then 366 else 365)"
proof -
  define d0 where "d0 = days + 719162"
  define a where "a = d0 div 146097"
  define d1 where "d1 = d0 mod 146097"
  define b where "b = min 3 (d1 div 36524)"
  define d2 where "d2 = d1 - 36524 * b"
  define c where "c = d2 div 1461"
  define d3 where "d3 = d2 mod 1461"
  define e where "e = min 3 (d3 div 365)"
  have y: "year = 1 + 400 * a + 100 * b + 4 * c + e" "yday = d3 - 365 * e"
    using assms [unfolded year_and_day_def Let_def, folded d0_def, folded a_def d1_def, folded b_def,
        folded d2_def, folded c_def d3_def, folded e_def] by simp_all
  have d0: "d0 = 146097 * a + d1" by (simp add: a_def d1_def)
  have d1: "0 \<le> d1" "d1 < 146097" by (simp_all add: d1_def)
  have b: "0 \<le> b" "b \<le> 3" "0 \<le> d2" "d2 \<le> 36524" "d2 = 36524 \<Longrightarrow> b = 3"
    using d1 last_part [of d1 36524] by (auto simp: b_def d2_def)
  have d2: "d2 = 1461 * c + d3" by (simp add: c_def d3_def)
  have d3: "0 \<le> d3" "d3 < 1461" by (simp_all add: d3_def)
  have c: "0 \<le> c" "c \<le> 24" using b(3,4) by (simp_all add: c_def)
  have e: "0 \<le> e" "e \<le> 3" "0 \<le> yday" "yday \<le> 365" "yday = 365 \<Longrightarrow> e = 3"
    using d3 last_part [of d3 365] by (auto simp: e_def y)
  have last: "yday = 365 \<Longrightarrow> c = 24 \<Longrightarrow> b = 3" using b(4,5) d2 e(5) y(2) by auto
  note cy = cycles [OF b(1,2) c e(1,2), of a]
  have ym: "year - 1 = 400 * a + 100 * b + 4 * c + e" "year = 400 * a + 100 * b + 4 * c + e + 1" by (simp_all add: y)
  have "days_to_year year = 365 * (400 * a + 100 * b + 4 * c + e) + (100 * a + 25 * b + c) - (4 * a + b) + a"
    unfolding days_to_year_def ym(1) Let_def cy(1-3) ..
  then show "days_to_year year + yday = days + 719162" using d0 d2 d2_def y(2) d0_def by simp
  show "0 \<le> yday" by fact
  show "yday < (if leap_year year then 366 else 365)"
    using e(4,5) last cy(4) [folded ym(2)] by (cases "yday = 365") auto
qed

text \<open>The number of days of a month.\<close>

definition days_in :: "bool \<Rightarrow> nat \<Rightarrow> int" where
  "days_in leap month =
     (if month = 2 then (if leap then 29 else 28) else if month \<in> {4, 6, 9, 11} then 30 else 31)"

text \<open>Counting the starts up to a day finds the interval the day is in.\<close>

lemma count_sorted:
  "sorted xs \<Longrightarrow> xs \<noteq> [] \<Longrightarrow> hd xs \<le> (d :: int) \<Longrightarrow> m = length (filter (\<lambda>x. x \<le> d) xs) \<Longrightarrow>
     1 \<le> m \<and> m \<le> length xs \<and> xs ! (m - 1) \<le> d \<and> (m < length xs \<longrightarrow> d < xs ! m)"
proof (induction xs arbitrary: m)
  case (Cons x xs)
  show ?case
  proof (cases "xs = [] \<or> d < hd xs")
    case True
    then have "filter (\<lambda>x. x \<le> d) xs = []" using Cons.prems(1) by (cases xs) (auto simp: filter_empty_conv)
    with True Cons.prems show ?thesis by (cases xs) auto
  next
    case False
    with Cons.IH [of "length (filter (\<lambda>x. x \<le> d) xs)"] Cons.prems show ?thesis
      using length_filter_le [of "\<lambda>x. x \<le> d" xs] by (auto simp: nth_Cons' Suc_le_eq less_Suc_eq_le)
  qed
qed simp

lemma month_lengths:
  "list_all (\<lambda>m. days_before leap ! m = days_before leap ! (m - 1) + days_in leap m) [1..<12]"
  "days_before leap ! 11 + days_in leap 12 = (if leap then 366 else 365)"
  by (cases leap; simp add: days_before_def days_in_def upt_rec)+

lemma month_of_day:
  assumes "0 \<le> yday" and "yday < (if leap then 366 else 365)"
    and "month = length (filter (\<lambda>d. d \<le> yday) (days_before leap))"
  shows "1 \<le> month \<and> month \<le> 12 \<and> days_before leap ! (month - 1) \<le> yday
    \<and> yday < days_before leap ! (month - 1) + days_in leap month"
proof -
  have l: "sorted (days_before leap)" "days_before leap \<noteq> []" "hd (days_before leap) = 0" "length (days_before leap) = 12"
    by (simp_all add: days_before_def)
  from count_sorted [OF l(1,2) _ assms(3)] assms(1) l(3,4) have m: "1 \<le> month" "month \<le> 12"
    "days_before leap ! (month - 1) \<le> yday" "month < 12 \<longrightarrow> yday < days_before leap ! month" by auto
  show ?thesis
  proof (cases "month = 12")
    case True
    with m assms(2) month_lengths(2) [of leap] show ?thesis by simp
  next
    case False
    with m month_lengths(1) [of leap] show ?thesis by (auto simp: list_all_iff)
  qed
qed

lemma date_calendar:
  assumes "date days = (year, month, day)"
  shows "1 \<le> month" "month \<le> 12" "1 \<le> day" "day \<le> days_in (leap_year year) month"
    "days_to_year year + days_before (leap_year year) ! (month - 1) + (day - 1) = days + 719162"
proof -
  obtain yday where yd: "year_and_day days = (year, yday)"
    and m: "month = length (filter (\<lambda>d. d \<le> yday) (days_before (leap_year year)))"
    and d: "day = yday - days_before (leap_year year) ! (month - 1) + 1"
    using assms by (cases "year_and_day days") (auto simp: date_def Let_def)
  note y = year_and_day_calendar [OF yd]
  from month_of_day [OF y(2,3) m] d y(1)
  show "1 \<le> month" "month \<le> 12" "1 \<le> day" "day \<le> days_in (leap_year year) month"
    "days_to_year year + days_before (leap_year year) ! (month - 1) + (day - 1) = days + 719162" by auto
qed

section \<open>The text\<close>

text \<open>At least so many digits.\<close>

definition pad :: "nat \<Rightarrow> nat \<Rightarrow> bytes" where
  "pad width n = (let ds = format_nat n in replicate (width - length ds) CHR ''0'' @ ds)"

definition fraction :: "nat \<Rightarrow> bytes" where
  "fraction ns = (if ns = 0 then [] else CHR ''.'' # trim_right {CHR ''0''} (pad 9 ns))"

definition zone_text :: "int \<Rightarrow> bytes" where
  "zone_text offset =
     (if offset = 0 then ''Z''
      else (let minutes = nat (\<bar>offset\<bar> div 60) in
        (if offset \<le> - 60 then CHR ''-'' else CHR ''+'') # pad 2 (minutes div 60) @ CHR '':'' # pad 2 (minutes mod 60)))"

text \<open>
  \<open>Time.MarshalJSON\<close>: no text if the year is not of four digits or the zone a day or more from UTC.
\<close>

definition time_text :: "int \<Rightarrow> timestamp \<Rightarrow> bytes option" where
  "time_text offset t =
     (let seconds = t div Second + offset in
      case date (seconds div 86400) of (year, month, day) \<Rightarrow>
        (let clock = nat (seconds mod 86400) in
         if year < 0 \<or> 9999 < year \<or> 86400 \<le> \<bar>offset\<bar> then None
         else Some (pad 4 (nat year) @ CHR ''-'' # pad 2 month @ CHR ''-'' # pad 2 (nat day)
           @ CHR ''T'' # pad 2 (clock div 3600) @ CHR '':'' # pad 2 (clock div 60 mod 60) @ CHR '':'' # pad 2 (clock mod 60)
           @ fraction (nat (t mod Second)) @ zone_text offset)))"

end
