(* ===== verification/Responses.thy ===== *)
theory Responses
  imports HttpRuns JsonValid TimeText
begin

text \<open>
  The bytes \<open>writeJSON\<close> sends: the structs of \<open>api/store.go\<close>, \<open>api/items.go\<close> and \<open>api/main.go\<close> by their
  JSON tags, through \<open>Encoder.Encode\<close>. And what a client reads from them: the answers round trip, so
  a client can follow the job it was promised.
\<close>

section \<open>The structs and their tags\<close>

text \<open>The zone of a time is the process's local one: its offset from UTC at that time is a parameter.\<close>

type_synonym local_zone = "timestamp \<Rightarrow> int"

definition created_json :: "local_zone \<Rightarrow> timestamp \<Rightarrow> json option" where
  "created_json zone t = map_option JStr (time_text (zone t) t)"

definition number :: "int \<Rightarrow> json" where
  "number n = JNum (format_int n)"

definition title_analysis_json :: "title_analysis \<Rightarrow> json" where
  "title_analysis_json a =
     JObj [(''processing_job_id'', number (ta_ProcessingJobID a)), (''input_title'', JStr (ta_InputTitle a)),
       (''analysis_version'', number (ta_AnalysisVersion a)), (''character_count'', number (ta_CharacterCount a)),
       (''word_count'', number (ta_WordCount a))]"

definition work_item_json :: "local_zone \<Rightarrow> work_item \<Rightarrow> json option" where
  "work_item_json zone item =
     map_option (\<lambda>created. JObj ([(''id'', number (it_ID item)), (''title'', JStr (it_Title item)),
         (''status'', JStr (it_Status item)), (''created_at'', created)]
       @ (case it_Result item of None \<Rightarrow> [] | Some a \<Rightarrow> [(''result'', title_analysis_json a)])))
       (created_json zone (it_CreatedAt item))"

definition processing_job_json :: "local_zone \<Rightarrow> processing_job \<Rightarrow> json option" where
  "processing_job_json zone job =
     map_option (\<lambda>created. JObj [(''id'', number (jb_ID job)), (''work_item_id'', number (jb_WorkItemID job)),
         (''state'', JStr (jb_State job)), (''attempt_count'', number (jb_AttemptCount job)), (''created_at'', created)])
       (created_json zone (jb_CreatedAt job))"

text \<open>\<open>None\<close>: a time has no JSON text, so the encoder fails; the mux's error pages are no JSON.\<close>

definition body_json :: "local_zone \<Rightarrow> response_body \<Rightarrow> json option" where
  "body_json zone body =
     (case body of
        ErrorResponse code job_id \<Rightarrow>
          Some (JObj ((''error'', JStr code) # (if job_id = 0 then [] else [(''processing_job_id'', number job_id)])))
      | StatusResponse status \<Rightarrow> Some (JObj [(''status'', JStr status)])
      | VersionResponse version \<Rightarrow> Some (JObj [(''version'', JStr version)])
      | WorkItemResponse item \<Rightarrow> work_item_json zone item
      | WorkItemsResponse items \<Rightarrow> map_option JArr (those (map (work_item_json zone) items))
      | ProcessingJobResponse job \<Rightarrow> processing_job_json zone job
      | ErrorPage \<Rightarrow> None)"

text \<open>What \<open>Encode\<close> writes after the status line: all of it, or nothing when it fails.\<close>

definition encoded_body :: "local_zone \<Rightarrow> response_body \<Rightarrow> bytes" where
  "encoded_body zone body =
     (case body_json zone body of None \<Rightarrow> [] | Some v \<Rightarrow> encode_json v @ [CHR 0x0A])"

section \<open>What is read back\<close>

lemma fits_number [simp]: "fits n (number i)"
  by (auto simp: number_def)

lemma created_json_JStr: "created_json zone t = Some v \<Longrightarrow> \<exists>s. v = JStr s"
  by (auto simp: created_json_def)

lemma work_item_json_fits: "work_item_json zone item = Some v \<Longrightarrow> fits (Suc (Suc n)) v"
  by (auto simp: work_item_json_def title_analysis_json_def split: option.splits dest!: created_json_JStr)

lemma those_Some_set: "those xs = Some ys \<Longrightarrow> y \<in> set ys \<Longrightarrow> Some y \<in> set xs"
  by (induction xs arbitrary: ys) (auto split: option.splits)

lemma body_json_fits:
  assumes "body_json zone body = Some v"
  shows "fits 3 v"
  unfolding numeral_3_eq_3
proof (cases body)
  case (WorkItemsResponse items)
  with assms obtain vs where v: "v = JArr vs" "those (map (work_item_json zone) items) = Some vs"
    by (auto simp: body_json_def)
  have "fits (Suc (Suc 0)) x" if "x \<in> set vs" for x using those_Some_set [OF v(2) that] work_item_json_fits by auto
  then show "fits (Suc (Suc (Suc 0))) v" by (simp add: v(1))
next
  case (WorkItemResponse item)
  with assms work_item_json_fits show "fits (Suc (Suc (Suc 0))) v" by (simp add: body_json_def)
next
  case (ProcessingJobResponse job)
  with assms show "fits (Suc (Suc (Suc 0))) v"
    by (auto simp: body_json_def processing_job_json_def dest!: created_json_JStr)
qed (use assms in \<open>auto simp: body_json_def\<close>)

text \<open>The bytes of an answer are one JSON value and a newline, and the value is the one encoded.\<close>

lemma encoded_body_read:
  assumes "body_json zone body = Some v"
  shows "json_next (encoded_body zone body) = Inr (json_valid v, [CHR 0x0A])"
proof -
  have "ends_number [CHR 0x0A]" by (simp add: ends_number_def is_digit_def byte_def)
  from json_next_encode [OF body_json_fits [OF assms] _ this] show ?thesis
    by (simp add: encoded_body_def assms max_nesting_def)
qed

section \<open>Titles\<close>

lemma set_members_title_valid:
  "set_members create_request_fields kvs request = Some request' \<Longrightarrow> \<forall>kv \<in> set kvs. json_utf8 (snd kv) \<Longrightarrow>
     utf8_valid (cr_Title request) \<Longrightarrow> utf8_valid (cr_Title request')"
proof (induction kvs arbitrary: request)
  case (Cons kv kvs)
  then obtain r1 where r1: "set_member create_request_fields kv request = Some r1"
    "set_members create_request_fields kvs r1 = Some request'" by (auto split: option.splits)
  have "utf8_valid (cr_Title r1)" using r1(1) Cons.prems(2,3)
    by (auto simp: set_member_def create_request_fields_def set_string_def split: option.splits if_splits json.splits)
  with Cons.IH [OF r1(2)] Cons.prems(2) show ?case by simp
qed simp

lemma decoded_title_valid:
  assumes "decode_create_request body = Some request"
  shows "utf8_valid (cr_Title request)"
proof -
  obtain v rest where v: "json_next body = Inr (v, rest)"
    and d: "decode_struct create_request_fields v \<lparr>cr_Title = [], cr_Status = []\<rparr> = Some request"
    using assms by (auto simp: decode_create_request_def split: sum.splits option.splits if_splits)
  from d json_next_utf8 [OF v] show ?thesis
    by (cases v) (auto simp: decode_struct_def dest!: set_members_title_valid)
qed

text \<open>What a client reads of an item and of a job.\<close>

lemma plain_name [simp]: "list_all (\<lambda>c. byte c < 128) s \<Longrightarrow> to_valid s = s"
  by (rule to_valid_id, rule utf8_valid_ascii) (simp add: list_all_iff)

lemma format_int_ascii: "list_all (\<lambda>c. byte c < 128) (format_int n)"
proof -
  have "byte c < 128" if "c \<in> set (format_nat m)" for c m using format_nat_digits [OF that] by simp
  then show ?thesis by (auto simp: format_int_def list_all_iff byte_def)
qed

lemma json_valid_number [simp]: "json_valid (number n) = number n"
  by (simp add: number_def)

lemma job_read:
  assumes "processing_job_json zone job = Some v"
  shows "\<exists>kvs. json_valid v = JObj kvs \<and> obj_get kvs ''id'' = Some (number (jb_ID job))
    \<and> obj_get kvs ''work_item_id'' = Some (number (jb_WorkItemID job))"
  using assms by (auto simp: processing_job_json_def obj_get_def byte_def)

lemma item_read:
  assumes "work_item_json zone item = Some v" and "utf8_valid (it_Title item)" and "it_Status item = Pending"
    and "it_Result item = None"
  shows "\<exists>kvs. json_valid v = JObj kvs \<and> obj_get kvs ''id'' = Some (number (it_ID item))
    \<and> obj_get kvs ''title'' = Some (JStr (it_Title item)) \<and> obj_get kvs ''status'' = Some (JStr Pending)
    \<and> obj_get kvs ''result'' = None"
  using assms by (auto simp: work_item_json_def obj_get_def byte_def to_valid_id Pending_def)

section \<open>Properties\<close>

lemma number_ids: "seqs_ok sq d \<Longrightarrow> q \<in> set (processing_jobs d) \<Longrightarrow> 0 < pj_id q \<and> in_int64 (pj_id q)"
  by (auto simp: seqs_ok_def list_all_iff in_int64_def int64_min_def)

lemma job_path_matches:
  assumes "rq_method r = ''GET''" and "rq_path r = ''/processing-jobs/'' @ format_int j"
  shows "match_pattern ''GET /processing-jobs/{id}'' r = Some (format_int j)"
proof -
  have s: "CHR ''/'' \<notin> set l \<Longrightarrow> split_at CHR ''/'' l = [l]" for l by (induction l) auto
  have "c \<noteq> CHR ''/''" if "c \<in> set (format_nat m)" for c m using format_nat_digits [OF that] by (auto simp: byte_def)
  then have "CHR ''/'' \<notin> set (format_int j)" by (auto simp: format_int_def)
  then have "segments r = [[], ''processing-jobs'', format_int j]" by (simp add: assms(2) s)
  moreover have "format_int j \<noteq> []" by (simp add: format_int_def)
  ultimately show ?thesis using assms(1) by (simp add: route_patterns_id)
qed

text \<open>What a client gets that reads the bytes as JSON: the job and the item.\<close>

definition reads_job :: "bytes \<Rightarrow> int64 \<Rightarrow> int64 \<Rightarrow> bool" where
  "reads_job text j i =
     (case json_next text of
        Inr (JObj kvs, rest) \<Rightarrow> rest = [CHR 0x0A] \<and> obj_get kvs ''id'' = Some (number j)
          \<and> obj_get kvs ''work_item_id'' = Some (number i)
      | _ \<Rightarrow> False)"

lemma job_bytes_read:
  assumes "encoded_body zone (ProcessingJobResponse job) \<noteq> []"
  shows "reads_job (encoded_body zone (ProcessingJobResponse job)) (jb_ID job) (jb_WorkItemID job)"
proof -
  obtain u where u: "body_json zone (ProcessingJobResponse job) = Some u"
    using assms by (auto simp: encoded_body_def split: option.splits)
  with job_read [of zone job u] encoded_body_read [OF u] show ?thesis by (auto simp: body_json_def reads_job_def)
qed

text \<open>
  C26 (a client can follow its job). From the bytes of an answer 202, read as JSON, a client gets the
  job's id; a GET of /processing-jobs/ with that id, whatever happened in between, is answered, if the guard
  lets it through and the database answers, with bytes that read as the same job of the same item. (The
  bytes are missing only if the creation time has no RFC 3339 text.)
\<close>

theorem client_follows_job:
  assumes "world_ok w" and "new_application_handler app_version is_ready postgres_store protect = Some mux"
    and "configured_guard validate_token protect"
    and "serve mux r (v, w) = (resp, (v', w'))" and "rs_status resp = 202"
    and "encoded_body zone (rs_body resp) \<noteq> []"
  shows "\<exists>j i. reads_job (encoded_body zone (rs_body resp)) j i
    \<and> (\<forall>w2 r2 v2 resp2 v3 w3. evolves w' w2 \<and> rq_method r2 = ''GET''
        \<and> rq_path r2 = ''/processing-jobs/'' @ format_int j \<and> serve mux r2 (v2, w2) = (resp2, (v3, w3)) \<longrightarrow>
          rs_status resp2 \<in> {401, 403, 500, 503}
          \<or> rs_status resp2 = 200 \<and> (encoded_body zone (rs_body resp2) = [] \<or> reads_job (encoded_body zone (rs_body resp2)) j i))"
proof -
  have ok: "world_ok w'" using serve_evolves [OF assms(2-4)] assms(1) by (rule evolves_world_ok)
  obtain job where body: "rs_body resp = ProcessingJobResponse job"
    and resp: "responsible (db w') (jb_ID job) (jb_WorkItemID job)"
    using serve_accepted [OF assms(2-5)] by auto
  then obtain q where "q \<in> set (processing_jobs (db w'))" "pj_id q = jb_ID job" by (auto simp: responsible_def)
  with number_ids [of "seqs w'" "db w'" q] ok have id: "0 < jb_ID job" "in_int64 (jb_ID job)"
    by (auto simp: world_ok_def)
  have "rs_status resp2 \<in> {401, 403, 500, 503} \<or> rs_status resp2 = 200 \<and> (encoded_body zone (rs_body resp2) = []
      \<or> reads_job (encoded_body zone (rs_body resp2)) (jb_ID job) (jb_WorkItemID job))"
    if g: "evolves w' w2" "rq_method r2 = ''GET''" "rq_path r2 = ''/processing-jobs/'' @ format_int (jb_ID job)"
      "serve mux r2 (v2, w2) = (resp2, (v3, w3))" for w2 r2 v2 resp2 v3 w3
    using serve_known_job [OF ok resp g(1) assms(2,3) job_path_matches [OF g(2,3)]
        parse_int64_format_int [OF id(2)] id(1) g(4)] job_bytes_read [of zone] by metis
  moreover have "reads_job (encoded_body zone (rs_body resp)) (jb_ID job) (jb_WorkItemID job)"
    using job_bytes_read [of zone job] assms(6) body by simp
  ultimately show ?thesis by blast
qed

text \<open>The sample clock stands at the epoch.\<close>

lemma epoch_text: "time_text 0 0 \<noteq> None"
proof -
  have "year_and_day 0 = (1970, 0)" by code_simp
  then have "date 0 = (1970, 1, 1)" by (simp add: date_def Let_def days_before_def)
  then show ?thesis by (simp add: time_text_def)
qed

lemma sample_bytes:
  "jb_CreatedAt job = 0 \<Longrightarrow> encoded_body (\<lambda>_. 0) (ProcessingJobResponse job) \<noteq> []"
  "it_CreatedAt item = 0 \<Longrightarrow> encoded_body (\<lambda>_. 0) (WorkItemResponse item) \<noteq> []"
  using epoch_text by (auto simp: encoded_body_def body_json_def processing_job_json_def work_item_json_def created_json_def)

theorem client_follows_job_witness:
  "\<exists>mux resp w' j i r2 resp2 v3 w3. serve mux sample_process_request ((), sample_open_world) = (resp, ((), w'))
    \<and> reads_job (encoded_body (\<lambda>_. 0) (rs_body resp)) j i
    \<and> rq_path r2 = ''/processing-jobs/'' @ format_int j \<and> serve mux r2 ((), w' :: world) = (resp2, (v3, w3))
    \<and> rs_status resp2 \<in> {200, 401, 403, 500, 503}"
proof -
  obtain mux resp v w' job where run: "new_application_handler ''1'' True postgres_store without_authentication = Some mux"
    "serve mux sample_process_request ((), sample_open_world) = (resp, (v, w'))" "rs_status resp = 202"
    "rs_body resp = ProcessingJobResponse job" "jb_CreatedAt job = 0"
    using sample_accepted_run by blast
  have bytes: "encoded_body (\<lambda>_. 0) (rs_body resp) \<noteq> []" using sample_bytes(1) [OF run(5)] run(4) by simp
  from client_follows_job [OF sample_open_ok(4) run(1) configured_guardI(1) run(2,3) bytes]
  obtain j i where read: "reads_job (encoded_body (\<lambda>_. 0) (rs_body resp)) j i"
    and follow: "evolves w' w2 \<and> rq_method r2 = ''GET'' \<and> rq_path r2 = ''/processing-jobs/'' @ format_int j
        \<and> serve mux r2 (v2, w2) = (resp2, (v3, w3)) \<Longrightarrow> rs_status resp2 \<in> {401, 403, 500, 503} \<or> rs_status resp2 = 200"
    for w2 r2 v2 resp2 v3 w3 by blast
  define r2 where "r2 = sample_request ''GET'' (''/processing-jobs/'' @ format_int j) [] []"
  obtain resp2 v3 w3 where get: "serve mux r2 ((), w') = (resp2, (v3, w3))" by (metis prod.collapse)
  have "rs_status resp2 \<in> {401, 403, 500, 503} \<or> rs_status resp2 = 200"
    by (rule follow [of w' r2 "()" resp2 v3 w3]) (use get in \<open>simp add: r2_def sample_request_def\<close>)
  moreover have "rq_path r2 = ''/processing-jobs/'' @ format_int j" by (simp add: r2_def sample_request_def)
  moreover have "rs_status resp2 \<in> {200, 401, 403, 500, 503}" using calculation(1) by auto
  ultimately show ?thesis using run(2) read get by (metis (full_types) unit.exhaust)
qed

text \<open>
  C29 (a created item reads back). From the bytes of an answer 201, read as JSON, a client gets a stored row: its
  id, the title it sent without the white space around it, status pending, no result. Every title is
  valid UTF-8, whatever bytes the request had, so the encoder replaces nothing.
\<close>

theorem created_item_reads_back:
  assumes "new_application_handler app_version is_ready postgres_store protect = Some mux"
    and "configured_guard validate_token protect"
    and "serve mux r (v, w) = (resp, (v', w'))" and "rs_status resp = 201"
    and "encoded_body zone (rs_body resp) \<noteq> []"
  shows "\<exists>request row kvs. decode_create_request (rq_body r) = Some request \<and> row \<in> set (work_items (db w'))
    \<and> json_next (encoded_body zone (rs_body resp)) = Inr (JObj kvs, [CHR 0x0A])
    \<and> obj_get kvs ''id'' = Some (number (wi_id row)) \<and> obj_get kvs ''title'' = Some (JStr (wi_title row))
    \<and> obj_get kvs ''status'' = Some (JStr Pending) \<and> obj_get kvs ''result'' = None
    \<and> wi_title row = trim_space (cr_Title request) \<and> utf8_valid (wi_title row)"
proof -
  obtain request item row where i: "decode_create_request (rq_body r) = Some request"
    "rs_body resp = WorkItemResponse item" "it_Title item = trim_space (cr_Title request)" "it_Status item = Pending"
    "it_Result item = None" "row \<in> set (work_items (db w'))" "scan_new_item row = item"
    using serve_created [OF assms(1-4)] by blast
  have title: "utf8_valid (it_Title item)"
    using decoded_title_valid [OF i(1)] by (simp add: i(3) utf8_valid_trim_space)
  obtain u where u: "body_json zone (WorkItemResponse item) = Some u"
    using assms(5) i(2) by (auto simp: encoded_body_def split: option.splits)
  then have "work_item_json zone item = Some u" by (simp add: body_json_def)
  from item_read [OF this title i(4,5)] encoded_body_read [OF u] i show ?thesis
    using title by (auto simp: scan_new_item_def)
qed

theorem created_item_reads_back_witness:
  "\<exists>mux resp w' row kvs. serve mux sample_create_request ((), sample_open_world) = (resp, ((), w'))
    \<and> row \<in> set (work_items (db w')) \<and> json_next (encoded_body (\<lambda>_. 0) (rs_body resp)) = Inr (JObj kvs, [CHR 0x0A])
    \<and> obj_get kvs ''title'' = Some (JStr (wi_title row)) \<and> wi_title row = trim_space '' Plan ''"
proof -
  obtain mux item w' where mux: "new_application_handler ''1'' True postgres_store
      (without_authentication :: (unit, world) guard) = Some mux"
    and run: "serve mux sample_create_request ((), sample_open_world) = (write_json [] 201 (WorkItemResponse item), ((), w'))"
    and "it_CreatedAt item = 0"
    using sample_created_run by blast
  then have bytes: "encoded_body (\<lambda>_. 0) (rs_body (write_json [] 201 (WorkItemResponse item))) \<noteq> []"
    using sample_bytes(2) by (simp add: write_json_def)
  have "rs_status (write_json [] 201 (WorkItemResponse item)) = 201" by (simp add: write_json_def)
  from created_item_reads_back [OF mux configured_guardI(1) run this bytes] sample_create_decoded run
  show ?thesis by fastforce
qed

end
