(* ===== verification/Spec2Isabelle.thy ===== *)
theory Spec2Isabelle
  imports WorkerMain ApiMain InterleavedJobs Responses
begin

text \<open>
  Verification library of the Work Items application of zero-to-prod (\<open>src/apps/work-items\<close>).

  \<^bold>\<open>The program.\<close> Two Go programs share one PostgreSQL database and one RabbitMQ queue. The API (\<open>api/\<close>)
  stores work items; a request to process one commits a processing job together with an outbox
  message (a transactional outbox) and is answered 202. Its outbox publisher, a loop beside the HTTP
  server, hands the messages to the broker and marks those the broker confirmed. The worker
  (\<open>worker/\<close>) consumes them, processes the job, and in one transaction stores the result, finishes the item
  and ends the job; after a failed attempt it counts, and gives up at the third. Delivery is at least
  once, so every step is made idempotent by row conditions and constraints. \<open>internal/\<close> holds what both
  use: business states, permissions, token validation, settings.

  \<^bold>\<open>Foundations.\<close>
  \<^item> \<open>Prelude\<close>: fact collections, Go's basic types, error values (\<open>errors.Is\<close>, \<open>errors.Join\<close>), outcomes of loops.
  \<^item> \<open>GoStrings\<close>, \<open>JsonValue\<close>, \<open>Json\<close>: the parts of \<open>strings\<close>, \<open>strconv\<close>, \<open>unicode/utf8\<close> and \<open>encoding/json\<close>
    the program uses, on byte strings. \<open>JsonEncoder\<close>: the encoder, and that the decoder reads its text back;
    \<open>JsonValid\<close>: decoded strings are valid UTF-8. \<open>TimeText\<close>: RFC 3339, with the date proved to be the calendar's.
  \<^item> \<open>Tables\<close>, \<open>Database\<close>: SQL tables as lists of rows; the four tables and every constraint the up migrations
    declare, the deferred foreign keys of migration 5 apart (\<open>immediate_ok\<close>, \<open>deferred_ok\<close>, \<open>db_ok\<close>), and the
    identity sequences (\<open>seqs_ok\<close>).
  \<^item> \<open>History\<close>: what every committed statement keeps of the rows that were there (\<open>continues\<close>).
  \<^item> \<open>Session\<close>: statements of their own and READ COMMITTED transactions. Each call of the driver takes the next
    \<open>turn\<close> of an environment: what other sessions committed before it, whether it fails before or after the
    server executed it, and the clock. The locale \<open>statement\<close> is the contract of a statement, and its
    lemmas (\<open>exec_auto_evolves\<close>, \<open>exec_tx_evolves\<close>) are what each operation's proof rests on.

  \<^bold>\<open>The worker.\<close>
  \<^item> \<open>WorkerStore\<close> (\<open>worker/store.go\<close>, \<open>complete.go\<close>), with \<open>Completion\<close>, \<open>CompletionLocks\<close> and \<open>FailureRecording\<close>: the
    committed effect of each operation, its result on every branch, all-or-nothing under faults, and what a
    reported outcome means among other sessions.
  \<^item> \<open>WorkerMessage\<close> (\<open>message.go\<close>, \<open>processor.go\<close>): decoding, validation, the handler; the locale \<open>completer\<close> is the
    contract the handler needs of its store.
  \<^item> \<open>Delivery\<close> (\<open>delivery.go\<close>, \<open>process_delivery.go\<close>, \<open>consumer_loop.go\<close>, \<open>store_runtime.go\<close>), \<open>WorkerRuntime\<close>
    (\<open>rabbitmq_consumer.go\<close>, \<open>rabbitmq_client.go\<close>, \<open>rabbitmq_session.go\<close>, \<open>worker_session.go\<close>,
    \<open>worker_lifecycle.go\<close>, \<open>runWorkerProcess\<close>), \<open>WorkerMain\<close> (\<open>main\<close>), \<open>RuntimeConfig\<close>
    (\<open>internal/runtimeconfig/value.go\<close>, \<open>loadWorkerConfig\<close>): settlements, sessions, the life of the process. The
    locale \<open>delivery_contract\<close> lifts what holds of one settlement to all those of a run.
  \<^item> \<open>WorkerRuns\<close>, \<open>WorkerMain\<close>: the worker's properties (acknowledged means settled, the broker protocol, each
    delivery settled once, bounded attempts, duplicates harmless, how the process ends).

  \<^bold>\<open>The API.\<close>
  \<^item> \<open>ApiStore\<close> (\<open>api/store.go\<close>) with \<open>Acceptance\<close>; \<open>Outbox\<close> (\<open>outbox_publisher.go\<close>, \<open>outbox_publisher_loop.go\<close>)
    with the locale \<open>outbox_contract\<close>; \<open>RabbitPublisher\<close> (\<open>rabbitmq_publisher.go\<close>); \<open>Payload\<close>, the message from the
    API's \<open>jsonb\<close> object to the worker's decoder; \<open>ApiRuns\<close>, their properties.
  \<^item> \<open>Authz\<close> (\<open>internal/authz/authz.go\<close>), \<open>Authn\<close> (\<open>internal/authn\<close>): permissions of a claim, the policy, the token
    validator with its cached keys, refresh and cooldown. The algorithms are all those of the library, symmetric ones and
    \<open>none\<close> included; of the key cache the model keeps the \<open>Refresh\<close> calls made on it.
  \<^item> \<open>Http\<close> (\<open>items.go\<close>, \<open>processing.go\<close>, \<open>authentication.go\<close>, the routes of \<open>main.go\<close>): handlers, bearer guard, mux;
    \<open>HttpRuns\<close>: what an answer means for the committed database, and what never reaches it. \<open>Responses\<close>: the
    bytes \<open>writeJSON\<close> sends; a client that reads them can follow the job it was promised.
  \<^item> \<open>Application\<close> (\<open>application.go\<close>, the rest of \<open>main.go\<close>), \<open>ApplicationRuns\<close>: start-up, readiness while draining,
    the two services and how they end. \<open>ApiMain\<close>: \<open>main\<close> with its publisher factory; over whole
    runs of the API, published means confirmed by the broker, and the process stops when told to.

  \<^bold>\<open>The system.\<close>
  \<^item> \<open>Lifecycle\<close>: the transactions of API, publisher and worker as one relation, and above it the abstract
    specification, the life of an item (absent, open, processing by one job, finished). Every transaction
    is at most one step of one item (\<open>transaction_refines\<close>).
  \<^item> \<open>Transactions\<close>: every operation, alone on the database and whichever of its calls fail, is one transaction.
  \<^item> \<open>Rejections\<close>: a delivery is dropped for good only if it is foreign.
  \<^item> \<open>System\<close>, \<open>SystemRuns\<close>: database, sequences and queue; steps are the programs' own operations with any faults,
    lost confirmations, lost settlements and stray messages. In every reachable state no accepted job is
    lost, attempts are bounded, items live by the life cycle, and an accepted job can still be finished by
    confirmed publications and one delivery of its message. Requests, rounds of the publisher and deliveries are
    relations of their own (\<open>request_step\<close>, \<open>publish_step\<close>, \<open>deliver_step\<close>), the last two labelled with their events;
    \<open>traced\<close> chains steps of one kind.
  \<^item> \<open>Processes\<close>: a run of the publisher's loop is a chain of publication steps only, one of the worker process a
    chain of delivery steps only, labelled with exactly the run's own events.
  \<^item> \<open>Interleaving\<close>, \<open>InterleavedRuns\<close>, \<open>InterleavedJobs\<close>: the same below whole operations. Sessions of the programs
    commit between any two calls of another; what each session guarantees (\<open>advances_with\<close>: it and those around
    it commit only transactions of the programs, and publish only messages confirmed to them) is what each
    relies on (\<open>others_transact\<close>), so every interleaving keeps the constraints and the life cycle
    (\<open>interleaved_item_life\<close>) and loses no accepted job (\<open>no_job_lost_by_a_run\<close>).

  \<^bold>\<open>Bounds.\<close> No operation has fuel. Loops that wait for the outside world (the delivery loop, the lifecycle, the
  publisher's loop) recurse on the finite list of what the environment does, and yield \<open>Waiting\<close> when it is
  used up: every prefix of an infinite run is covered. A driver call past the end of the turns meets a quiet
  turn (nobody commits, nothing fails). The JSON scanner terminates by the length of the remaining input,
  with the library's nesting limit of 10000. Integers are \<^typ>\<open>int\<close> with their ranges written out: an \<open>INTEGER\<close> out of
  range is a constraint violation, an exhausted \<open>BIGINT\<close> sequence an error, an \<open>int64\<close> literal out of range a
  decoding error.

  \<^bold>\<open>Parameters and hypotheses.\<close> Code that is not in the repository is an argument of the definitions: the JWT
  library (\<open>jwx\<close>), \<open>url.Parse\<close> as far as the policy asks it, the answers of the AMQP library and the broker, the
  HTTP server's calls, the text PostgreSQL prints of a \<open>jsonb\<close> object (\<open>jsonb_faithful\<close>, satisfied by
  \<open>sample_jsonb_text\<close>), and the other sessions on the database, which are held to the constraints and the row
  history (\<open>rely\<close>), in \<open>interleaved_item_life\<close> and \<open>no_job_lost_by_a_run\<close> to the programs themselves. The component properties and
  those of whole runs of the API and the worker hold with other sessions committing between any two calls;
  the steps of \<open>System\<close> are whole operations, each alone on the database. Signals are turns of the
  environment that end a context.

  \<^bold>\<open>Not modelled.\<close> The log lines of the handlers and of the authentication (those of the servers and of
  the \<open>main\<close> functions are events); timeouts, as anything but failing calls; the connection pool's inside; roles and grants (migration 2) and the down migrations; the mux's
  path cleaning and escaping, and its patterns beyond literals and one wildcard segment; rows that cannot be
  scanned into their targets; what row locks do to the other sessions, who may commit anything the constraints
  and their programs allow between two calls; restoring a database from a backup; the web client.
\<close>

end
